(* ===== verification/Prelude.thy ===== *)
theory Prelude
  imports Main "HOL-Library.Word" "HOL-Library.Char_ord" "HOL-Library.List_Lexorder"
begin

text \<open>
  Shared vocabulary of the development: results as sums with the names the Rust sources use,
  the machine integers of the code (unsigned ones as words, the signed 64-bit ones as
  integers with their range written out), the part of Rust's \<open>str\<close> interface the sources
  call, and the generic list lemmas the component theories rely on.

  Text is a \<^typ>\<open>string\<close> whose characters are the bytes of the Rust string. Case folding and
  white space are those of ASCII text, which is what host names, rule lines and addresses
  are made of.
\<close>

named_theorems wf_intros \<open>introduction rules for the well-formedness invariants of the components\<close>
named_theorems eval_simps \<open>equations that evaluate the library functions on closed arguments\<close>
named_theorems msg_simps \<open>projections of the messages the program builds\<close>

section \<open>Results\<close>

type_synonym ('a, 'e) result = "'e + 'a"

abbreviation Ok :: "'a \<Rightarrow> ('a, 'e) result" where
  "Ok \<equiv> Inr"

abbreviation Err :: "'e \<Rightarrow> ('a, 'e) result" where
  "Err \<equiv> Inl"

definition is_ok :: "('a, 'e) result \<Rightarrow> bool" where
  "is_ok r = (case r of Inl _ \<Rightarrow> False | Inr _ \<Rightarrow> True)"

definition and_then :: "('a, 'e) result \<Rightarrow> ('a \<Rightarrow> ('b, 'e) result) \<Rightarrow> ('b, 'e) result" where
  "and_then r f = (case r of Inl e \<Rightarrow> Inl e | Inr a \<Rightarrow> f a)"

definition map_err :: "('e \<Rightarrow> 'f) \<Rightarrow> ('a, 'e) result \<Rightarrow> ('a, 'f) result" where
  "map_err f r = (case r of Inl e \<Rightarrow> Inl (f e) | Inr a \<Rightarrow> Inr a)"

definition ok_or :: "'e \<Rightarrow> 'a option \<Rightarrow> ('a, 'e) result" where
  "ok_or e x = (case x of None \<Rightarrow> Inl e | Some a \<Rightarrow> Inr a)"

lemma is_ok_simps [simp]: "is_ok (Ok a)" "\<not> is_ok (Err e)"
  by (simp_all add: is_ok_def)

lemma is_ok_iff: "is_ok r \<longleftrightarrow> (\<exists>a. r = Ok a)"
  by (cases r) simp_all

lemma and_then_simps [simp]: "and_then (Ok a) f = f a" "and_then (Err e) f = Err e"
  by (simp_all add: and_then_def)

lemma and_then_Ok_iff: "and_then r f = Ok b \<longleftrightarrow> (\<exists>a. r = Ok a \<and> f a = Ok b)"
  by (cases r) simp_all

lemma map_err_simps [simp]: "map_err f (Ok a) = Ok a" "map_err f (Err e) = Err (f e)"
  by (simp_all add: map_err_def)

lemma map_err_Ok_iff [simp]: "map_err f r = Ok a \<longleftrightarrow> r = Ok a"
  by (cases r) simp_all

lemma ok_or_simps [simp]: "ok_or e None = Err e" "ok_or e (Some a) = Ok a"
  by (simp_all add: ok_or_def)

lemma ok_or_Ok_iff [simp]: "ok_or e x = Ok a \<longleftrightarrow> x = Some a"
  by (cases x) simp_all

text \<open>The \<open>?\<close> operator inside a loop: collecting the results of a list, first error first.\<close>

fun collect_results :: "('a \<Rightarrow> ('b, 'e) result) \<Rightarrow> 'a list \<Rightarrow> ('b list, 'e) result" where
  "collect_results f [] = Ok []"
| "collect_results f (x # xs) =
     and_then (f x) (\<lambda>y. and_then (collect_results f xs) (\<lambda>ys. Ok (y # ys)))"

lemma collect_results_Ok_iff:
  "collect_results f xs = Ok ys \<longleftrightarrow> list_all2 (\<lambda>x y. f x = Ok y) xs ys"
proof (induction xs arbitrary: ys)
  case Nil
  then show ?case by (cases ys) auto
next
  case (Cons x xs)
  then show ?case by (cases ys) (auto simp: and_then_Ok_iff)
qed

lemma collect_results_length: "collect_results f xs = Ok ys \<Longrightarrow> length ys = length xs"
  by (auto simp: collect_results_Ok_iff dest: list_all2_lengthD)

section \<open>Evaluation on closed arguments\<close>

lemma bit_Suc_0_0: "bit (Suc 0) 0"
  by (simp add: bit_0)

lemma replicate_numeral_unfold: "replicate (numeral k) x = x # replicate (pred_numeral k) x"
  by (simp add: numeral_eq_Suc)

lemmas [eval_simps] = char_of_def bit_Suc_0_0 replicate_numeral_unfold Let_def

section \<open>Lists\<close>

lemma find_append:
  "List.find P (xs @ ys) = (case List.find P xs of None \<Rightarrow> List.find P ys | Some x \<Rightarrow> Some x)"
  by (induction xs) auto

text \<open>Trying the elements of a list in order: those before the chosen one have failed.\<close>

definition first_match :: "('a \<Rightarrow> bool) \<Rightarrow> ('a \<Rightarrow> bool) \<Rightarrow> 'a list \<Rightarrow> bool" where
  "first_match failed good xs \<longleftrightarrow> (\<exists>ys x zs. xs = ys @ x # zs \<and> list_all failed ys \<and> good x)"

lemma first_match_Nil [simp]: "\<not> first_match failed good []"
  by (simp add: first_match_def)

lemma first_match_Cons [simp]:
  "first_match failed good (x # xs) \<longleftrightarrow> good x \<or> failed x \<and> first_match failed good xs"
proof
  assume "first_match failed good (x # xs)"
  then obtain ys y zs where "x # xs = ys @ y # zs" "list_all failed ys" "good y" by (auto simp: first_match_def)
  then show "good x \<or> failed x \<and> first_match failed good xs"
    by (cases ys) (auto simp: first_match_def)
next
  assume "good x \<or> failed x \<and> first_match failed good xs"
  then show "first_match failed good (x # xs)"
  proof
    assume "good x"
    then show ?thesis unfolding first_match_def by (intro exI [of _ "[]"]) simp
  next
    assume "failed x \<and> first_match failed good xs"
    then obtain ys y zs where "xs = ys @ y # zs" "list_all failed ys" "good y" "failed x" by (auto simp: first_match_def)
    then show ?thesis unfolding first_match_def by (intro exI [of _ "x # ys"] exI [of _ y] exI [of _ zs]) simp
  qed
qed

lemma first_match_append: "list_all failed ys \<Longrightarrow> good x \<Longrightarrow> first_match failed good (ys @ x # zs)"
  by (auto simp: first_match_def)

text \<open>Taking one element out of a pool of tasks.\<close>

definition remove_nth :: "nat \<Rightarrow> 'a list \<Rightarrow> 'a list" where
  "remove_nth i xs = take i xs @ drop (Suc i) xs"

lemma set_remove_nth: "set (remove_nth i xs) \<subseteq> set xs"
  by (auto simp: remove_nth_def dest: in_set_takeD in_set_dropD)

lemma length_remove_nth: "i < length xs \<Longrightarrow> length (remove_nth i xs) = length xs - 1"
  by (simp add: remove_nth_def)

lemma list_all_remove_nth: "list_all P xs \<Longrightarrow> list_all P (remove_nth i xs)"
  using set_remove_nth [of i xs] by (auto simp: list_all_iff)

section \<open>Machine integers\<close>

type_synonym u8 = "8 word"
type_synonym u16 = "16 word"
type_synonym u32 = "32 word"
type_synonym u64 = "64 word"
type_synonym u128 = "128 word"

text \<open>Monotonic clock readings and durations are counted in nanoseconds.\<close>

type_synonym instant = nat
type_synonym duration = nat

definition from_secs :: "nat \<Rightarrow> duration" where
  "from_secs s = s * 1000000000"

definition from_millis :: "nat \<Rightarrow> duration" where
  "from_millis ms = ms * 1000000"

definition as_millis :: "duration \<Rightarrow> nat" where
  "as_millis d = d div 1000000"

lemma as_millis_from_millis [simp]: "as_millis (from_millis ms) = ms"
  by (simp add: as_millis_def from_millis_def)

definition u64_max :: nat where
  "u64_max = 2 ^ 64 - 1"

definition i64_min :: int where
  "i64_min = - (2 ^ 63)"

definition i64_max :: int where
  "i64_max = 2 ^ 63 - 1"

definition in_i64 :: "int \<Rightarrow> bool" where
  "in_i64 x \<longleftrightarrow> i64_min \<le> x \<and> x \<le> i64_max"

definition checked_i64 :: "int \<Rightarrow> int option" where
  "checked_i64 x = (if in_i64 x then Some x else None)"

definition saturating_i64 :: "int \<Rightarrow> int" where
  "saturating_i64 x = max i64_min (min i64_max x)"

definition i64_try_from_u64 :: "nat \<Rightarrow> int option" where
  "i64_try_from_u64 n = checked_i64 (int n)"

definition checked_u64 :: "nat \<Rightarrow> nat option" where
  "checked_u64 n = (if n \<le> u64_max then Some n else None)"

lemma checked_i64_Some_iff [simp]: "checked_i64 x = Some y \<longleftrightarrow> y = x \<and> in_i64 x"
  by (auto simp: checked_i64_def)

lemma checked_u64_Some_iff [simp]: "checked_u64 n = Some m \<longleftrightarrow> m = n \<and> n \<le> u64_max"
  by (auto simp: checked_u64_def)

lemma i64_try_from_u64_Some_iff [simp]:
  "i64_try_from_u64 n = Some y \<longleftrightarrow> y = int n \<and> in_i64 (int n)"
  by (simp add: i64_try_from_u64_def)

lemma checked_in [simp]:
  "in_i64 x \<Longrightarrow> checked_i64 x = Some x" "in_i64 (int n) \<Longrightarrow> i64_try_from_u64 n = Some (int n)"
  "n \<le> u64_max \<Longrightarrow> checked_u64 n = Some n"
  by simp_all

lemma saturating_i64_id [simp]: "in_i64 x \<Longrightarrow> saturating_i64 x = x"
  by (simp add: saturating_i64_def in_i64_def)

lemma in_i64_saturating [simp]: "in_i64 (saturating_i64 x)"
  by (auto simp: saturating_i64_def in_i64_def i64_min_def i64_max_def)

lemma saturating_i64_mono: "x \<le> y \<Longrightarrow> saturating_i64 x \<le> saturating_i64 y"
  by (auto simp: saturating_i64_def i64_min_def i64_max_def)

end
