(* ===== verification/Rust_Str.thy ===== *)
theory Rust_Str
  imports Prelude
begin

text \<open>
  The operations of Rust's \<open>str\<close> and of its integer parsers that the sources call, on ASCII
  text: trimming, case folding, prefix tests, splitting into lines and words, and
  \<open>str::parse\<close> for the unsigned integer types.
\<close>

section \<open>Characters\<close>

definition nl :: char where
  "nl = CHR 0x0A"

definition cr :: char where
  "cr = CHR 0x0D"

definition is_ws :: "char \<Rightarrow> bool" where
  "is_ws c \<longleftrightarrow> c \<in> {CHR 0x09, CHR 0x0A, CHR 0x0B, CHR 0x0C, CHR 0x0D, CHR '' ''}"

definition to_lower :: "char \<Rightarrow> char" where
  "to_lower c = (if 65 \<le> (of_char c :: nat) \<and> (of_char c :: nat) \<le> 90
                 then char_of ((of_char c :: nat) + 32) else c)"

definition dec_digit :: "char \<Rightarrow> nat option" where
  "dec_digit c = (let n = (of_char c :: nat) in if 48 \<le> n \<and> n \<le> 57 then Some (n - 48) else None)"

definition hex_digit :: "char \<Rightarrow> nat option" where
  "hex_digit c = (let n = (of_char c :: nat) in
     if 48 \<le> n \<and> n \<le> 57 then Some (n - 48)
     else if 97 \<le> n \<and> n \<le> 102 then Some (n - 87)
     else if 65 \<le> n \<and> n \<le> 70 then Some (n - 55)
     else None)"

lemma to_lower_idem [simp]: "to_lower (to_lower c) = to_lower c"
  by (auto simp: to_lower_def)

lemma to_lower_keeps:
  assumes "(of_char c :: nat) < 65"
  shows "to_lower d = c \<longleftrightarrow> d = c"
proof -
  have "d \<noteq> c" if "65 \<le> (of_char d :: nat)" using that assms by auto
  moreover have "to_lower d \<noteq> c" if "65 \<le> (of_char d :: nat)" "(of_char d :: nat) \<le> 90"
  proof
    assume "to_lower d = c"
    then have "(of_char c :: nat) = of_char (char_of ((of_char d :: nat) + 32) :: char)"
      using that by (simp add: to_lower_def)
    also have "\<dots> = (of_char d :: nat) + 32" using that by simp
    finally show False using assms that by simp
  qed
  ultimately show ?thesis by (auto simp: to_lower_def)
qed

lemma to_lower_dot [simp]: "to_lower c = CHR ''.'' \<longleftrightarrow> c = CHR ''.''"
  by (rule to_lower_keeps) simp

section \<open>Trimming and case folding\<close>

definition trim_end_matches :: "char \<Rightarrow> string \<Rightarrow> string" where
  "trim_end_matches c s = rev (dropWhile (\<lambda>x. x = c) (rev s))"

definition to_lowercase :: "string \<Rightarrow> string" where
  "to_lowercase s = map to_lower s"

definition trim :: "string \<Rightarrow> string" where
  "trim s = rev (dropWhile is_ws (rev (dropWhile is_ws s)))"

definition eq_ignore_ascii_case :: "string \<Rightarrow> string \<Rightarrow> bool" where
  "eq_ignore_ascii_case a b \<longleftrightarrow> to_lowercase a = to_lowercase b"

text \<open>
  \<open>name.trim_end_matches('.').to_lowercase()\<close>: how every component turns a name into the
  key it compares by.
\<close>

definition norm_name :: "string \<Rightarrow> string" where
  "norm_name s = to_lowercase (trim_end_matches (CHR ''.'') s)"

lemma trim_end_matches_idem [simp]:
  "trim_end_matches c (trim_end_matches c s) = trim_end_matches c s"
  by (simp add: trim_end_matches_def dropWhile_idem)

lemma trim_end_matches_not_last:
  "trim_end_matches c s \<noteq> [] \<Longrightarrow> last (trim_end_matches c s) \<noteq> c"
  by (metis (mono_tags, lifting) hd_dropWhile last_rev rev_is_Nil_conv trim_end_matches_def)

lemma dropWhile_eq_self: "xs = [] \<or> \<not> P (hd xs) \<Longrightarrow> dropWhile P xs = xs"
  by (cases xs) auto

lemma trim_end_matches_noop: "s = [] \<or> last s \<noteq> c \<Longrightarrow> trim_end_matches c s = s"
  by (cases s rule: rev_cases) (auto simp: trim_end_matches_def)

lemma norm_name_idem [simp]: "norm_name (norm_name s) = norm_name s"
proof -
  let ?t = "trim_end_matches (CHR ''.'') s"
  have "trim_end_matches (CHR ''.'') (to_lowercase ?t) = to_lowercase ?t"
  proof (rule trim_end_matches_noop, cases "?t = []")
    case False
    then have "last ?t \<noteq> CHR ''.''" by (rule trim_end_matches_not_last)
    with False show "to_lowercase ?t = [] \<or> last (to_lowercase ?t) \<noteq> CHR ''.''"
      by (simp add: to_lowercase_def last_map)
  qed (simp add: to_lowercase_def)
  then show ?thesis by (simp add: norm_name_def to_lowercase_def)
qed

lemma norm_name_trailing_dot [simp]: "norm_name (s @ ''.'') = norm_name s"
  by (simp add: norm_name_def trim_end_matches_def)

lemma norm_name_lowercase [simp]: "norm_name (to_lowercase s) = norm_name s"
proof -
  have "dropWhile (\<lambda>x. x = CHR ''.'') (map to_lower t) = map to_lower (dropWhile (\<lambda>x. x = CHR ''.'') t)" for t
    by (induction t) auto
  then show ?thesis
    by (simp add: norm_name_def trim_end_matches_def to_lowercase_def rev_map)
qed

section \<open>Prefixes and splitting\<close>

definition strip_prefix :: "string \<Rightarrow> string \<Rightarrow> string option" where
  "strip_prefix p s = (if take (length p) s = p then Some (drop (length p) s) else None)"

definition starts_with :: "string \<Rightarrow> string \<Rightarrow> bool" where
  "starts_with p s \<longleftrightarrow> take (length p) s = p"

text \<open>The first piece of \<open>s.split(seps)\<close>; splitting always yields at least one piece.\<close>

definition split_first :: "char list \<Rightarrow> string \<Rightarrow> string" where
  "split_first seps s = takeWhile (\<lambda>c. c \<notin> set seps) s"

text \<open>\<open>s.split_once(c)\<close> and \<open>s.rsplit_once(c)\<close>.\<close>

definition split_once :: "char \<Rightarrow> string \<Rightarrow> (string \<times> string) option" where
  "split_once c s = (case dropWhile (\<lambda>x. x \<noteq> c) s of
     [] \<Rightarrow> None | _ # r \<Rightarrow> Some (takeWhile (\<lambda>x. x \<noteq> c) s, r))"

definition rsplit_once :: "char \<Rightarrow> string \<Rightarrow> (string \<times> string) option" where
  "rsplit_once c s = map_option (\<lambda>(a, b). (rev b, rev a)) (split_once c (rev s))"

lemma strip_prefix_Some_iff: "strip_prefix p s = Some r \<longleftrightarrow> s = p @ r"
  by (auto simp: strip_prefix_def) (metis append_take_drop_id)

lemma split_once_Some_iff: "split_once c s = Some (a, b) \<longleftrightarrow> s = a @ c # b \<and> c \<notin> set a"
proof
  assume h: "split_once c s = Some (a, b)"
  then obtain x where x: "dropWhile (\<lambda>x. x \<noteq> c) s = x # b" and a: "a = takeWhile (\<lambda>x. x \<noteq> c) s"
    by (auto simp: split_once_def split: list.splits)
  from x have "x = c" by (metis (mono_tags, lifting) hd_dropWhile list.distinct(1) list.sel(1))
  with x a show "s = a @ c # b \<and> c \<notin> set a"
    by (metis (mono_tags, lifting) set_takeWhileD takeWhile_dropWhile_id)
next
  assume "s = a @ c # b \<and> c \<notin> set a"
  then have s: "s = a @ c # b" and na: "\<forall>x \<in> set a. x \<noteq> c" by auto
  then have "takeWhile (\<lambda>x. x \<noteq> c) s = a" "dropWhile (\<lambda>x. x \<noteq> c) s = c # b"
    by (simp_all add: takeWhile_append2 dropWhile_append2)
  then show "split_once c s = Some (a, b)" by (simp add: split_once_def)
qed

lemma split_once_None_iff: "split_once c s = None \<longleftrightarrow> c \<notin> set s"
proof -
  have "split_once c s = None \<longleftrightarrow> dropWhile (\<lambda>x. x \<noteq> c) s = []"
    unfolding split_once_def
    by (cases "dropWhile (\<lambda>x. x \<noteq> c) s") (simp_all only: list.case simp_thms option.distinct list.distinct)
  then show ?thesis by (auto simp: dropWhile_eq_Nil_conv)
qed

lemma rsplit_once_Some_iff: "rsplit_once c s = Some (a, b) \<longleftrightarrow> s = a @ c # b \<and> c \<notin> set b"
proof -
  have "rsplit_once c s = Some (a, b) \<longleftrightarrow> split_once c (rev s) = Some (rev b, rev a)"
    by (auto simp: rsplit_once_def)
  also have "\<dots> \<longleftrightarrow> rev s = rev (a @ c # b) \<and> c \<notin> set b"
    by (simp add: split_once_Some_iff)
  finally show ?thesis by (simp only: rev_is_rev_conv)
qed

lemma rsplit_once_None_iff: "rsplit_once c s = None \<longleftrightarrow> c \<notin> set s"
  by (simp add: rsplit_once_def split_once_None_iff)

text \<open>The remainder after the first occurrence of a character: \<open>&s[s.find(c)? + 1..]\<close>.\<close>

definition after_char :: "char \<Rightarrow> string \<Rightarrow> string option" where
  "after_char c s = map_option snd (split_once c s)"

lemma after_char_length: "after_char c s = Some r \<Longrightarrow> length r < length s"
  by (auto simp: after_char_def split_once_Some_iff)

lemma after_char_None_iff: "after_char c s = None \<longleftrightarrow> c \<notin> set s"
  by (simp add: after_char_def split_once_None_iff)

lemma after_char_Some_iff: "after_char c s = Some r \<longleftrightarrow> (\<exists>a. s = a @ c # r \<and> c \<notin> set a)"
  by (auto simp: after_char_def split_once_Some_iff)

section \<open>Lines and words\<close>

definition strip_cr :: "string \<Rightarrow> string" where
  "strip_cr l = (if l \<noteq> [] \<and> last l = cr then butlast l else l)"

function lines :: "string \<Rightarrow> string list" where
  "lines s = (if s = [] then []
     else case split_once nl s of None \<Rightarrow> [s] | Some (l, r) \<Rightarrow> strip_cr l # lines r)"
  by pat_completeness auto
termination
  by (relation "measure length") (auto simp: split_once_Some_iff)

declare lines.simps [simp del]

function split_whitespace :: "string \<Rightarrow> string list" where
  "split_whitespace s = (let t = dropWhile is_ws s in
     if t = [] then []
     else takeWhile (\<lambda>c. \<not> is_ws c) t # split_whitespace (dropWhile (\<lambda>c. \<not> is_ws c) t))"
  by pat_completeness auto
termination
proof (relation "measure length", goal_cases)
  case (2 s t)
  then obtain x xs where x: "dropWhile is_ws s = x # xs"
    by (metis list.exhaust)
  then have "\<not> is_ws x" by (metis hd_dropWhile list.distinct(1) list.sel(1))
  then have "length (dropWhile (\<lambda>c. \<not> is_ws c) t) < length t"
    using 2 x by (simp add: le_imp_less_Suc length_dropWhile_le)
  also have "\<dots> \<le> length s" using 2 by (simp add: length_dropWhile_le)
  finally show ?case by simp
qed simp

declare split_whitespace.simps [simp del]

section \<open>Parsing unsigned integers\<close>

text \<open>
  \<open>from_str_radix\<close>: one optional leading plus sign, at least one digit, every character a
  digit of the radix, and a value that fits the type.
\<close>

fun digits_value :: "(char \<Rightarrow> nat option) \<Rightarrow> nat \<Rightarrow> nat \<Rightarrow> string \<Rightarrow> nat option" where
  "digits_value dig radix acc [] = Some acc"
| "digits_value dig radix acc (c # cs) =
     (case dig c of None \<Rightarrow> None | Some d \<Rightarrow> digits_value dig radix (acc * radix + d) cs)"

definition from_str_radix :: "(char \<Rightarrow> nat option) \<Rightarrow> nat \<Rightarrow> nat \<Rightarrow> string \<Rightarrow> nat option" where
  "from_str_radix dig radix bound s =
     (let ds = (case s of [] \<Rightarrow> [] | c # cs \<Rightarrow> if c = CHR ''+'' then cs else s) in
      if ds = [] then None
      else case digits_value dig radix 0 ds of
             None \<Rightarrow> None
           | Some v \<Rightarrow> if v \<le> bound then Some v else None)"

definition parse_u8 :: "string \<Rightarrow> nat option" where
  "parse_u8 = from_str_radix dec_digit 10 255"

definition parse_u16 :: "string \<Rightarrow> nat option" where
  "parse_u16 = from_str_radix dec_digit 10 65535"

definition parse_u64 :: "string \<Rightarrow> nat option" where
  "parse_u64 = from_str_radix dec_digit 10 u64_max"

definition u8_from_str_radix16 :: "string \<Rightarrow> nat option" where
  "u8_from_str_radix16 = from_str_radix hex_digit 16 255"

lemma from_str_radix_bound: "from_str_radix dig radix bound s = Some v \<Longrightarrow> v \<le> bound"
  by (auto simp: from_str_radix_def Let_def split: if_splits option.splits)

lemma parse_u16_bound: "parse_u16 s = Some v \<Longrightarrow> v \<le> 65535"
  by (simp add: parse_u16_def from_str_radix_bound)

lemma parse_u64_bound: "parse_u64 s = Some v \<Longrightarrow> v \<le> u64_max"
  by (simp add: parse_u64_def from_str_radix_bound)

lemma parse_u8_bound: "parse_u8 s = Some v \<Longrightarrow> v \<le> 255"
  by (simp add: parse_u8_def from_str_radix_bound)

text \<open>Decimal printing, and that parsing reads back what printing wrote.\<close>

fun dec_string :: "nat \<Rightarrow> string" where
  "dec_string n = (if n < 10 then [char_of (48 + n)]
                   else dec_string (n div 10) @ [char_of (48 + n mod 10)])"

declare dec_string.simps [simp del]

lemma digits_value_append:
  "digits_value dig radix acc (xs @ ys) =
     (case digits_value dig radix acc xs of None \<Rightarrow> None | Some v \<Rightarrow> digits_value dig radix v ys)"
  by (induction xs arbitrary: acc) (auto split: option.splits)

lemma dec_digit_char [simp]: "d < 10 \<Longrightarrow> dec_digit (char_of (48 + d)) = Some d"
  by (simp add: dec_digit_def)

lemma digits_value_dec_string: "digits_value dec_digit 10 0 (dec_string n) = Some n"
proof (induction n rule: dec_string.induct)
  case (1 n)
  show ?case
  proof (cases "n < 10")
    case True
    then show ?thesis by (simp add: dec_string.simps [of n])
  next
    case False
    with 1 show ?thesis by (simp add: dec_string.simps [of n] digits_value_append)
  qed
qed

lemma dec_string_nonempty [simp]: "dec_string n \<noteq> []"
  by (subst dec_string.simps) simp

lemma dec_string_digits: "c \<in> set (dec_string n) \<Longrightarrow> dec_digit c \<noteq> None"
proof (induction n rule: dec_string.induct)
  case (1 n)
  then show ?case by (subst (asm) (2) dec_string.simps) (auto split: if_splits)
qed

lemma dec_string_no_plus: "hd (dec_string n) \<noteq> CHR ''+''"
proof -
  have "hd (dec_string n) \<in> set (dec_string n)" by simp
  then have "dec_digit (hd (dec_string n)) \<noteq> None" by (rule dec_string_digits)
  then show ?thesis by (auto simp: dec_digit_def)
qed

lemma from_str_radix_dec_string:
  "from_str_radix dec_digit 10 bound (dec_string n) = (if n \<le> bound then Some n else None)"
proof -
  obtain c cs where "dec_string n = c # cs" by (cases "dec_string n") auto
  with dec_string_no_plus [of n] digits_value_dec_string [of n] show ?thesis
    by (simp add: from_str_radix_def)
qed

section \<open>Evaluation\<close>

lemmas [eval_simps] =
  nl_def cr_def is_ws_def to_lower_def dec_digit_def hex_digit_def trim_end_matches_def
  to_lowercase_def trim_def eq_ignore_ascii_case_def norm_name_def strip_prefix_def
  starts_with_def split_first_def split_once_def rsplit_once_def after_char_def strip_cr_def
  lines.simps split_whitespace.simps from_str_radix_def parse_u8_def parse_u16_def
  parse_u64_def u8_from_str_radix16_def dec_string.simps

end
