(* ===== verification/Ip_Addr.thy ===== *)
theory Ip_Addr
  imports Rust_Str
begin

text \<open>
  \<open>std::net::IpAddr\<close>: the value, its order, the textual form and the parser of the standard
  library that the rule parser, the subnet parser and the rule fetcher call. An IPv4 address
  is its 32-bit big-endian number, an IPv6 address its 128-bit one.
\<close>

section \<open>Addresses and their order\<close>

datatype ip_addr = V4 u32 | V6 u128

definition is_ipv4 :: "ip_addr \<Rightarrow> bool" where
  "is_ipv4 ip = (case ip of V4 _ \<Rightarrow> True | V6 _ \<Rightarrow> False)"

definition is_ipv6 :: "ip_addr \<Rightarrow> bool" where
  "is_ipv6 ip = (case ip of V4 _ \<Rightarrow> False | V6 _ \<Rightarrow> True)"

definition is_unspecified :: "ip_addr \<Rightarrow> bool" where
  "is_unspecified ip = (case ip of V4 w \<Rightarrow> w = 0 | V6 w \<Rightarrow> w = 0)"

record socket_addr =
  sa_ip :: ip_addr
  sa_port :: nat

lemma ip_family_simps [simp]:
  "is_ipv4 (V4 a)" "\<not> is_ipv4 (V6 b)" "\<not> is_ipv6 (V4 a)" "is_ipv6 (V6 b)"
  by (simp_all add: is_ipv4_def is_ipv6_def)

lemma is_ipv4_iff: "is_ipv4 ip \<longleftrightarrow> \<not> is_ipv6 ip"
  by (cases ip) simp_all

text \<open>The derived \<open>Ord\<close>: every IPv4 address before every IPv6 address, then by value.\<close>

instantiation ip_addr :: linorder
begin

definition less_eq_ip_addr :: "ip_addr \<Rightarrow> ip_addr \<Rightarrow> bool" where
  "less_eq_ip_addr x y = (case (x, y) of
     (V4 a, V4 b) \<Rightarrow> a \<le> b | (V4 _, V6 _) \<Rightarrow> True | (V6 _, V4 _) \<Rightarrow> False | (V6 a, V6 b) \<Rightarrow> a \<le> b)"

definition less_ip_addr :: "ip_addr \<Rightarrow> ip_addr \<Rightarrow> bool" where
  "less_ip_addr x y \<longleftrightarrow> x \<le> y \<and> \<not> y \<le> (x :: ip_addr)"

instance
  by standard (auto simp: less_ip_addr_def less_eq_ip_addr_def split: ip_addr.splits)

end

section \<open>Parsing\<close>

text \<open>
  A parser consumes a prefix of its input; a failing parser leaves the input untouched
  (\<open>read_atomically\<close>). The bounded numbers of an address are read digit by digit: more
  digits than allowed, no digit, a forbidden leading zero or a value out of range fail.
\<close>

type_synonym 'a parser = "string \<Rightarrow> ('a \<times> string) option"

definition read_number :: "(char \<Rightarrow> nat option) \<Rightarrow> nat \<Rightarrow> nat \<Rightarrow> bool \<Rightarrow> nat \<Rightarrow> nat parser" where
  "read_number dig radix max_digits allow_zero_prefix bound s =
     (let ds = takeWhile (\<lambda>c. dig c \<noteq> None) s; r = dropWhile (\<lambda>c. dig c \<noteq> None) s in
      if ds = [] \<or> length ds > max_digits then None
      else if \<not> allow_zero_prefix \<and> hd ds = CHR ''0'' \<and> length ds > 1 then None
      else case digits_value dig radix 0 ds of
             None \<Rightarrow> None
           | Some v \<Rightarrow> if v \<le> bound then Some (v, r) else None)"

definition read_separator :: "char \<Rightarrow> nat \<Rightarrow> 'a parser \<Rightarrow> 'a parser" where
  "read_separator c i p s =
     (if i = 0 then p s else case s of [] \<Rightarrow> None | x # r \<Rightarrow> if x = c then p r else None)"

definition read_octet :: "nat parser" where
  "read_octet = read_number dec_digit 10 3 False 255"

definition read_ipv4_addr :: "nat list parser" where
  "read_ipv4_addr s =
     (case read_octet s of None \<Rightarrow> None | Some (a, s1) \<Rightarrow>
      case read_separator (CHR ''.'') 1 read_octet s1 of None \<Rightarrow> None | Some (b, s2) \<Rightarrow>
      case read_separator (CHR ''.'') 2 read_octet s2 of None \<Rightarrow> None | Some (c, s3) \<Rightarrow>
      case read_separator (CHR ''.'') 3 read_octet s3 of None \<Rightarrow> None | Some (d, s4) \<Rightarrow>
        Some ([a, b, c, d], s4))"

text \<open>
  \<open>read_groups\<close>: hexadecimal groups separated by colons, up to \<open>limit\<close> of them, with a
  trailing embedded IPv4 address where at least two groups are left. The boolean tells
  whether an embedded IPv4 address ended the chunk.
\<close>

function read_groups :: "nat \<Rightarrow> nat \<Rightarrow> string \<Rightarrow> nat list \<times> bool \<times> string" where
  "read_groups limit i s =
     (if i \<ge> limit then ([], False, s)
      else case (if i + 1 < limit then read_separator (CHR '':'') i read_ipv4_addr s else None) of
        Some (os, r) \<Rightarrow> ([os ! 0 * 256 + os ! 1, os ! 2 * 256 + os ! 3], True, r)
      | None \<Rightarrow>
          (case read_separator (CHR '':'') i (read_number hex_digit 16 4 True 65535) s of
             None \<Rightarrow> ([], False, s)
           | Some (g, r) \<Rightarrow>
               (case read_groups limit (Suc i) r of (gs, v4, r') \<Rightarrow> (g # gs, v4, r'))))"
  by pat_completeness auto
termination
  by (relation "measure (\<lambda>(limit, i, s). limit - i)") auto

declare read_groups.simps [simp del]

definition read_ipv6_addr :: "nat list parser" where
  "read_ipv6_addr s =
     (case read_groups 8 0 s of (head, head_ipv4, r) \<Rightarrow>
      if length head = 8 then Some (head, r)
      else if head_ipv4 then None
      else case strip_prefix ''::'' r of
             None \<Rightarrow> None
           | Some r2 \<Rightarrow>
               (case read_groups (8 - (length head + 1)) 0 r2 of (tail, _, r') \<Rightarrow>
                  Some (head @ replicate (8 - length head - length tail) 0 @ tail, r')))"

definition be_value :: "nat \<Rightarrow> nat list \<Rightarrow> nat" where
  "be_value base xs = foldl (\<lambda>a x. a * base + x) 0 xs"

definition parse_ip :: "string \<Rightarrow> ip_addr option" where
  "parse_ip s =
     (case read_ipv4_addr s of
        Some (os, r) \<Rightarrow> if r = [] then Some (V4 (of_nat (be_value 256 os))) else None
      | None \<Rightarrow>
          (case read_ipv6_addr s of
             Some (gs, r) \<Rightarrow> if r = [] then Some (V6 (of_nat (be_value 65536 gs))) else None
           | None \<Rightarrow> None))"

section \<open>Printing\<close>

definition octets :: "u32 \<Rightarrow> nat list" where
  "octets w = (let n = unat w in [n div 2 ^ 24, n div 2 ^ 16 mod 256, n div 2 ^ 8 mod 256, n mod 256])"

definition segments :: "u128 \<Rightarrow> nat list" where
  "segments w = map (\<lambda>k. unat w div 2 ^ (16 * (7 - k)) mod 65536) [0..<8]"

fun join_with :: "string \<Rightarrow> string list \<Rightarrow> string" where
  "join_with sep [] = []"
| "join_with sep [x] = x"
| "join_with sep (x # y # ys) = x @ sep @ join_with sep (y # ys)"

definition hex_char :: "nat \<Rightarrow> char" where
  "hex_char d = (if d < 10 then char_of (48 + d) else char_of (87 + d))"

fun hex_string :: "nat \<Rightarrow> string" where
  "hex_string n = (if n < 16 then [hex_char n] else hex_string (n div 16) @ [hex_char (n mod 16)])"

declare hex_string.simps [simp del]

definition show_ipv4 :: "u32 \<Rightarrow> string" where
  "show_ipv4 w = join_with ''.'' (map dec_string (octets w))"

text \<open>
  The longest run of zero segments, the first one among equally long runs, as (start, length).
  The scan keeps the best run so far and the current one.
\<close>

fun zero_span :: "nat \<Rightarrow> (nat \<times> nat) \<Rightarrow> (nat \<times> nat) \<Rightarrow> nat list \<Rightarrow> nat \<times> nat" where
  "zero_span i longest current [] = longest"
| "zero_span i longest current (x # xs) =
     (if x = 0 then
        let cur = (if snd current = 0 then i else fst current, snd current + 1) in
        zero_span (Suc i) (if snd cur > snd longest then cur else longest) cur xs
      else zero_span (Suc i) longest (0, 0) xs)"

definition show_ipv6 :: "u128 \<Rightarrow> string" where
  "show_ipv6 w =
     (let segs = segments w; hexes = map hex_string segs in
      if take 6 segs = [0, 0, 0, 0, 0, 65535]
      then ''::ffff:'' @ show_ipv4 (of_nat (segs ! 6 * 65536 + segs ! 7))
      else case zero_span 0 (0, 0) (0, 0) segs of (start, len) \<Rightarrow>
        if len > 1
        then join_with '':'' (take start hexes) @ ''::'' @ join_with '':'' (drop (start + len) hexes)
        else join_with '':'' hexes)"

definition show_ip :: "ip_addr \<Rightarrow> string" where
  "show_ip ip = (case ip of V4 w \<Rightarrow> show_ipv4 w | V6 w \<Rightarrow> show_ipv6 w)"

text \<open>\<open>SocketAddr\<close> prints an IPv6 address in brackets.\<close>

definition show_socket_addr :: "socket_addr \<Rightarrow> string" where
  "show_socket_addr a = (case sa_ip a of
     V4 w \<Rightarrow> show_ipv4 w @ '':'' @ dec_string (sa_port a)
   | V6 w \<Rightarrow> ''['' @ show_ipv6 w @ '']:'' @ dec_string (sa_port a))"

section \<open>Evaluation\<close>

lemmas [eval_simps] =
  read_number_def read_separator_def read_octet_def read_ipv4_addr_def read_groups.simps
  read_ipv6_addr_def be_value_def parse_ip_def octets_def segments_def hex_char_def
  hex_string.simps show_ipv4_def show_ipv6_def show_ip_def show_socket_addr_def upt_rec

end
