(* ===== verification/Dns_Message.thy ===== *)
theory Dns_Message
  imports Ip_Addr
begin

text \<open>
  DNS messages as the program handles them, and \<open>src/resolver.rs\<close>.

  The message type belongs to the hickory-proto library. The record below holds the fields
  the program reads or writes: the header fields, the question and answer sections and the
  EDNS data. A name is represented by the text its \<open>Display\<close> prints, the only way the
  program looks at one; a record type is its 16-bit number.

  What the program calls in that library (the wire codec, the EDNS option container, the
  textual forms) cannot be read here: it is the record \<open>hickory\<close> of functions, an argument
  of every definition that needs it. \<open>opt_laws\<close> and \<open>codec_laws\<close> name the documented
  behaviour some theorems rely on.
\<close>

section \<open>Data\<close>

datatype message_type = Query_type | Response_type

datatype response_code =
    NoError | FormErr | ServFail | NXDomain | NotImp | Refused | YXDomain | YXRRSet | NXRRSet
  | NotAuth | NotZone | BADVERS | BADSIG | BADKEY | BADTIME | BADMODE | BADNAME | BADALG
  | BADTRUNC | BADCOOKIE | Unknown_code u16

type_synonym record_type = u16

definition RT_A :: record_type where
  "RT_A = 1"

definition RT_AAAA :: record_type where
  "RT_AAAA = 28"

definition RT_HTTPS :: record_type where
  "RT_HTTPS = 65"

datatype svc_param_key = Key_EchConfigList | Key_other u16

datatype svc_param_value = Val_EchConfigList "u8 list" | Val_other "u8 list"

datatype rdata =
    RData_A u32
  | RData_AAAA u128
  | RData_HTTPS "(svc_param_key \<times> svc_param_value) list"
  | RData_other "u8 list"

record rr =
  rr_name :: string
  rr_ttl :: u32
  rr_data :: rdata

record question =
  q_name :: string
  q_type :: record_type

datatype edns_code = Code_Subnet | Code_other u16

datatype edns_option =
    Opt_Subnet ip_addr nat nat
  | Opt_other u16 "u8 list"

definition code_of :: "edns_option \<Rightarrow> edns_code" where
  "code_of opt = (case opt of Opt_Subnet _ _ _ \<Rightarrow> Code_Subnet | Opt_other c _ \<Rightarrow> Code_other c)"

record edns_data =
  max_payload :: u16
  options :: "edns_option list"

record message =
  msg_id :: u16
  msg_type :: message_type
  op_code :: nat
  rcode :: response_code
  recursion_desired :: bool
  recursion_available :: bool
  queries :: "question list"
  answers :: "rr list"
  edns :: "edns_data option"

section \<open>The library the program calls\<close>

record hickory =
  to_vec :: "message \<Rightarrow> u8 list option"
  from_vec :: "u8 list \<Rightarrow> message option"
  opt_insert :: "edns_option \<Rightarrow> edns_option list \<Rightarrow> edns_option list"
  opt_remove :: "edns_code \<Rightarrow> edns_option list \<Rightarrow> edns_option list"
  edns_new :: edns_data
  name_from_str :: "string \<Rightarrow> string option"
  rtype_to_string :: "record_type \<Rightarrow> string"

text \<open>
  The documented behaviour of the option container: removing a code removes its options and
  keeps the others; inserting an option makes it present, keeps the options of other codes
  and adds nothing else (an older option of the same code may stay or be replaced).
\<close>

definition opt_laws :: "hickory \<Rightarrow> bool" where
  "opt_laws H \<longleftrightarrow>
     (\<forall>c os. set (opt_remove H c os) = {x \<in> set os. code_of x \<noteq> c}) \<and>
     (\<forall>x os. x \<in> set (opt_insert H x os) \<and>
        set (opt_insert H x os) \<subseteq> insert x (set os) \<and>
        {y \<in> set os. code_of y \<noteq> code_of x} \<subseteq> set (opt_insert H x os))"

text \<open>A message without EDNS data of its own starts with no options.\<close>

definition edns_new_laws :: "hickory \<Rightarrow> bool" where
  "edns_new_laws H \<longleftrightarrow> options (edns_new H) = []"

text \<open>The wire codec reads back what it wrote.\<close>

definition codec_laws :: "hickory \<Rightarrow> bool" where
  "codec_laws H \<longleftrightarrow> (\<forall>m bs. to_vec H m = Some bs \<longrightarrow> from_vec H bs = Some m)"

lemma opt_removeD: "opt_laws H \<Longrightarrow> x \<in> set (opt_remove H c os) \<longleftrightarrow> x \<in> set os \<and> code_of x \<noteq> c"
  by (auto simp: opt_laws_def)

lemma opt_insert_mem: "opt_laws H \<Longrightarrow> x \<in> set (opt_insert H x os)"
  by (simp add: opt_laws_def)

lemma opt_insert_subset: "opt_laws H \<Longrightarrow> y \<in> set (opt_insert H x os) \<Longrightarrow> y = x \<or> y \<in> set os"
  unfolding opt_laws_def by blast

lemma opt_insert_other:
  "opt_laws H \<Longrightarrow> y \<in> set os \<Longrightarrow> code_of y \<noteq> code_of x \<Longrightarrow> y \<in> set (opt_insert H x os)"
  unfolding opt_laws_def by blast

text \<open>\<open>Message::new\<close>: the given header fields, every flag clear, every section empty.\<close>

definition message_new :: "u16 \<Rightarrow> message_type \<Rightarrow> nat \<Rightarrow> message" where
  "message_new i t op = \<lparr>msg_id = i, msg_type = t, op_code = op, rcode = NoError,
     recursion_desired = False, recursion_available = False, queries = [], answers = [], edns = None\<rparr>"

definition add_query :: "question \<Rightarrow> message \<Rightarrow> message" where
  "add_query q m = m\<lparr>queries := queries m @ [q]\<rparr>"

definition add_answer :: "rr \<Rightarrow> message \<Rightarrow> message" where
  "add_answer r m = m\<lparr>answers := answers m @ [r]\<rparr>"

lemma message_new_sel [simp]:
  "msg_id (message_new i t op) = i" "msg_type (message_new i t op) = t"
  "op_code (message_new i t op) = op" "rcode (message_new i t op) = NoError"
  "recursion_desired (message_new i t op) = False"
  "recursion_available (message_new i t op) = False"
  "queries (message_new i t op) = []" "answers (message_new i t op) = []"
  "edns (message_new i t op) = None"
  by (simp_all add: message_new_def)

lemma add_query_sel [simp]:
  "msg_id (add_query q m) = msg_id m" "msg_type (add_query q m) = msg_type m"
  "op_code (add_query q m) = op_code m" "rcode (add_query q m) = rcode m"
  "recursion_desired (add_query q m) = recursion_desired m"
  "recursion_available (add_query q m) = recursion_available m"
  "queries (add_query q m) = queries m @ [q]" "answers (add_query q m) = answers m"
  "edns (add_query q m) = edns m"
  by (simp_all add: add_query_def)

lemma add_answer_sel [simp]:
  "msg_id (add_answer r m) = msg_id m" "msg_type (add_answer r m) = msg_type m"
  "op_code (add_answer r m) = op_code m" "rcode (add_answer r m) = rcode m"
  "recursion_desired (add_answer r m) = recursion_desired m"
  "recursion_available (add_answer r m) = recursion_available m"
  "queries (add_answer r m) = queries m" "answers (add_answer r m) = answers m @ [r]"
  "edns (add_answer r m) = edns m"
  by (simp_all add: add_answer_def)

text \<open>Appending a list of answers, as the loops over addresses do.\<close>

lemma foldl_add_answer:
  "foldl (\<lambda>m x. case f x of None \<Rightarrow> m | Some r \<Rightarrow> add_answer r m) m xs =
     m\<lparr>answers := answers m @ List.map_filter f xs\<rparr>"
  by (induction xs arbitrary: m)
    (auto simp: add_answer_def List.map_filter_simps split: option.splits)

section \<open>The resolver interface\<close>

text \<open>Why a resolver failed; one constructor per place that makes an error.\<close>

datatype resolve_error =
    Encode_failed | Decode_failed
  | Bind_failed | Connect_failed | Send_failed | Receive_failed | Tls_failed
  | Attempt_timed_out
  | Id_mismatch u16 u16
  | Frame_too_large nat
  | Invalid_server_name | H2_handshake_failed
  | Quic_start_failed | Quic_handshake_failed | H3_setup_failed
  | Request_not_built | Http_status nat | Body_failed | Request_failed | Retry_exhausted | H3_not_enabled
  | No_ip_connected
  | Group_empty | Group_exhausted
  | Task_failed
  | No_reply_within_budget nat
  | No_success_within_budget resolve_error
  | Query_timed_out
  | No_resolvers | Invalid_domain

type_synonym 'a resolved = "('a, resolve_error) result"

text \<open>A reply together with the name of the upstream that gave it, where one is known.\<close>

type_synonym attributed = "message \<times> string option"

definition resolve_attributed_default :: "(message \<Rightarrow> message resolved) \<Rightarrow> message \<Rightarrow> attributed resolved" where
  "resolve_attributed_default resolve q = and_then (resolve q) (\<lambda>r. Ok (r, None))"

text \<open>
  The contract every resolver of the program keeps towards its caller: a reply carries the
  identifier of the query. The composing resolvers only rely on it.
\<close>

locale id_preserving =
  fixes resolve :: "message \<Rightarrow> message resolved"
  assumes reply_id: "resolve q = Ok r \<Longrightarrow> msg_id r = msg_id q"
begin

lemma attributed_id:
  "resolve_attributed_default resolve q = Ok (r, n) \<Longrightarrow> msg_id r = msg_id q \<and> n = None"
  by (auto simp: resolve_attributed_default_def and_then_Ok_iff dest: reply_id)

end

definition servfail :: "message \<Rightarrow> message" where
  "servfail query =
     (let resp = message_new (msg_id query) Response_type (op_code query);
          resp = resp\<lparr>recursion_desired := recursion_desired query\<rparr>;
          resp = resp\<lparr>recursion_available := True\<rparr>;
          resp = resp\<lparr>rcode := ServFail\<rparr>
      in foldl (\<lambda>m q. add_query q m) resp (queries query))"

lemma foldl_add_query: "foldl (\<lambda>m q. add_query q m) m qs = m\<lparr>queries := queries m @ qs\<rparr>"
  by (induction qs arbitrary: m) (simp_all add: add_query_def)

lemma servfail_sel [simp, msg_simps]:
  "msg_id (servfail q) = msg_id q" "msg_type (servfail q) = Response_type"
  "op_code (servfail q) = op_code q" "rcode (servfail q) = ServFail"
  "recursion_desired (servfail q) = recursion_desired q" "recursion_available (servfail q)"
  "queries (servfail q) = queries q" "answers (servfail q) = []" "edns (servfail q) = None"
  by (simp_all add: servfail_def Let_def foldl_add_query)

section \<open>A concrete library\<close>

text \<open>For concrete instances: a library that keeps the documented laws of the option container.\<close>

definition sample_hickory :: hickory where
  "sample_hickory = \<lparr>to_vec = (\<lambda>m. Some []), from_vec = (\<lambda>bs. None),
     opt_insert = (\<lambda>x os. x # os), opt_remove = (\<lambda>c os. filter (\<lambda>y. code_of y \<noteq> c) os),
     edns_new = \<lparr>max_payload = 512, options = []\<rparr>, name_from_str = Some, rtype_to_string = (\<lambda>_. [])\<rparr>"

lemma sample_hickory_laws: "opt_laws sample_hickory" "edns_new_laws sample_hickory"
  by (auto simp: opt_laws_def edns_new_laws_def sample_hickory_def)

end
