(* ===== verification/Ecs.thy ===== *)
theory Ecs
  imports Dns_Message
begin

text \<open>
  \<open>src/ecs.rs\<close>: EDNS Client Subnet. Addresses are masked to a prefix at their own width;
  shifting by more than the width is the arithmetic overflow the caller must rule out, so
  \<open>mask_ip\<close> returns an option and the parser is shown never to reach \<open>None\<close>.
\<close>

unbundle bit_operations_syntax

record ecs_subnet =
  es_addr :: ip_addr
  es_prefix :: nat

datatype ecs_error = No_slash | Bad_addr | Bad_prefix | Prefix_out_of_range | Mask_overflow

definition prefix_mask :: "nat \<Rightarrow> nat \<Rightarrow> 'a::len word" where
  "prefix_mask width prefix = (if prefix = 0 then 0 else push_bit (width - prefix) (- 1))"

definition mask_ip :: "ip_addr \<Rightarrow> nat \<Rightarrow> ecs_subnet option" where
  "mask_ip ip prefix = (case ip of
     V4 v4 \<Rightarrow> if prefix \<le> 32
             then Some \<lparr>es_addr = V4 (v4 AND prefix_mask 32 prefix), es_prefix = prefix\<rparr> else None
   | V6 v6 \<Rightarrow> if prefix \<le> 128
             then Some \<lparr>es_addr = V6 (v6 AND prefix_mask 128 prefix), es_prefix = prefix\<rparr> else None)"

definition parse_subnet :: "string \<Rightarrow> (ecs_subnet, ecs_error) result" where
  "parse_subnet s =
     (case split_once (CHR ''/'') s of None \<Rightarrow> Err No_slash | Some (a, p) \<Rightarrow>
      case parse_ip a of None \<Rightarrow> Err Bad_addr | Some addr \<Rightarrow>
      case parse_u8 p of None \<Rightarrow> Err Bad_prefix | Some prefix \<Rightarrow>
      let maxp = (if is_ipv4 addr then 32 else 128) in
      if prefix > maxp then Err Prefix_out_of_range
      else ok_or Mask_overflow (mask_ip addr prefix))"

definition subnet_from_config :: "string option \<Rightarrow> ecs_subnet option" where
  "subnet_from_config fixed_subnet = (case fixed_subnet of
     None \<Rightarrow> None
   | Some s \<Rightarrow> (case parse_subnet s of Ok sub \<Rightarrow> Some sub | Err _ \<Rightarrow> None))"

definition inject :: "hickory \<Rightarrow> message \<Rightarrow> ecs_subnet \<Rightarrow> message" where
  "inject H query subnet =
     (let ecs = Opt_Subnet (es_addr subnet) (es_prefix subnet) 0;
          e = (case edns query of None \<Rightarrow> edns_new H | Some e \<Rightarrow> e);
          e = e\<lparr>max_payload := 1232\<rparr>;
          e = e\<lparr>options := opt_insert H ecs (options e)\<rparr>
      in query\<lparr>edns := Some e\<rparr>)"

section \<open>Masking\<close>

lemma bit_prefix_mask:
  "prefix \<le> LENGTH('a::len) \<Longrightarrow> n < LENGTH('a) \<Longrightarrow>
     bit (prefix_mask LENGTH('a) prefix :: 'a word) n \<longleftrightarrow> LENGTH('a) - prefix \<le> n"
  by (auto simp: prefix_mask_def bit_not_iff bit_mask_iff)

lemma bit_masked:
  fixes w :: "'a::len word"
  assumes "prefix \<le> LENGTH('a)"
  shows "bit (w AND prefix_mask LENGTH('a) prefix) n \<longleftrightarrow> bit w n \<and> LENGTH('a) - prefix \<le> n"
proof (cases "n < LENGTH('a)")
  case True
  with assms show ?thesis by (simp add: bit_and_iff bit_prefix_mask)
next
  case False
  then show ?thesis by (simp add: bit_and_iff bit_word_def)
qed

text \<open>The leading bits of an address that a subnet of the given length keeps.\<close>

definition ip_bit :: "ip_addr \<Rightarrow> nat \<Rightarrow> bool" where
  "ip_bit ip n = (case ip of V4 w \<Rightarrow> bit w n | V6 w \<Rightarrow> bit w n)"

definition ip_width :: "ip_addr \<Rightarrow> nat" where
  "ip_width ip = (case ip of V4 _ \<Rightarrow> 32 | V6 _ \<Rightarrow> 128)"

definition wf_subnet :: "ecs_subnet \<Rightarrow> bool" where
  "wf_subnet sn \<longleftrightarrow> es_prefix sn \<le> ip_width (es_addr sn) \<and>
     (\<forall>n < ip_width (es_addr sn) - es_prefix sn. \<not> ip_bit (es_addr sn) n)"

lemma mask_ip_Some:
  assumes "mask_ip ip prefix = Some sn"
  shows "es_prefix sn = prefix" and "prefix \<le> ip_width ip"
    and "ip_width (es_addr sn) = ip_width ip" and "is_ipv4 (es_addr sn) = is_ipv4 ip"
    and "ip_bit (es_addr sn) n \<longleftrightarrow> ip_bit ip n \<and> ip_width ip - prefix \<le> n"
  using assms bit_masked [where 'a = 32, of prefix] bit_masked [where 'a = 128, of prefix]
  by (auto simp: mask_ip_def ip_width_def ip_bit_def split: ip_addr.splits if_splits)

lemma mask_ip_defined: "prefix \<le> ip_width ip \<Longrightarrow> \<exists>sn. mask_ip ip prefix = Some sn"
  by (cases ip) (auto simp: mask_ip_def ip_width_def)

lemma wf_mask_ip [wf_intros]: "mask_ip ip prefix = Some sn \<Longrightarrow> wf_subnet sn"
  using mask_ip_Some [of ip prefix sn] by (auto simp: wf_subnet_def)

lemma ip_bit_ext:
  assumes "is_ipv4 a = is_ipv4 b" and "\<And>n. ip_bit a n = ip_bit b n"
  shows "a = b"
  using assms by (cases a; cases b) (auto simp: ip_bit_def intro: bit_eqI)

lemma mask_ip_idem:
  assumes "mask_ip ip prefix = Some sn"
  shows "mask_ip (es_addr sn) prefix = Some sn"
proof -
  from assms have "prefix \<le> ip_width (es_addr sn)" by (simp add: mask_ip_Some)
  then obtain sn' where sn': "mask_ip (es_addr sn) prefix = Some sn'"
    using mask_ip_defined by blast
  have "es_addr sn' = es_addr sn"
    using mask_ip_Some [OF assms] mask_ip_Some [OF sn'] by (intro ip_bit_ext) auto
  moreover have "es_prefix sn' = es_prefix sn"
    using mask_ip_Some(1) [OF assms] mask_ip_Some(1) [OF sn'] by simp
  ultimately show ?thesis using sn' by simp
qed

section \<open>What the component guarantees\<close>

text \<open>C36. Parsing a subnet never shifts out of range (the overflow branch is dead), and an
  accepted text \<open>address/length\<close> gives a subnet of the address's family and the written
  length, at most the family's width, whose leading bits are those of the address and
  whose remaining bits are all zero.\<close>

theorem parse_subnet_masks:
  "parse_subnet s \<noteq> Err Mask_overflow \<and>
   (\<forall>sn. parse_subnet s = Ok sn \<longrightarrow> wf_subnet sn \<and>
      (\<exists>a p addr. s = a @ ''/'' @ p \<and> parse_ip a = Some addr \<and> parse_u8 p = Some (es_prefix sn) \<and>
        is_ipv4 (es_addr sn) = is_ipv4 addr \<and> es_prefix sn \<le> ip_width addr \<and>
        (\<forall>n. ip_bit (es_addr sn) n \<longleftrightarrow> ip_bit addr n \<and> ip_width addr - es_prefix sn \<le> n)))"
proof -
  have "parse_subnet s \<noteq> Err Mask_overflow"
  proof
    assume "parse_subnet s = Err Mask_overflow"
    then obtain addr prefix where none: "mask_ip addr prefix = None"
      and fits: "\<not> (if is_ipv4 addr then 32 else 128) < prefix"
      by (auto simp: parse_subnet_def Let_def ok_or_def split: option.splits prod.splits if_split_asm)
    then show False by (cases addr) (auto simp: mask_ip_def)
  qed
  moreover have "wf_subnet sn \<and>
      (\<exists>a p addr. s = a @ ''/'' @ p \<and> parse_ip a = Some addr \<and> parse_u8 p = Some (es_prefix sn) \<and>
        is_ipv4 (es_addr sn) = is_ipv4 addr \<and> es_prefix sn \<le> ip_width addr \<and>
        (\<forall>n. ip_bit (es_addr sn) n \<longleftrightarrow> ip_bit addr n \<and> ip_width addr - es_prefix sn \<le> n))"
    if ok: "parse_subnet s = Ok sn" for sn
  proof -
    from ok obtain a p addr prefix where "s = a @ CHR ''/'' # p" "parse_ip a = Some addr"
      "parse_u8 p = Some prefix" and m: "mask_ip addr prefix = Some sn"
      by (auto simp: parse_subnet_def Let_def split_once_Some_iff split: option.splits prod.splits if_splits)
    with mask_ip_Some [OF m] wf_mask_ip [OF m] show ?thesis by auto
  qed
  ultimately show ?thesis by blast
qed

lemma parse_subnet_masks_witness:
  "parse_subnet ''10.1.255.7/20'' = Ok \<lparr>es_addr = V4 0x0A01F000, es_prefix = 20\<rparr> \<and>
   wf_subnet \<lparr>es_addr = V4 0x0A01F000, es_prefix = 20\<rparr>"
proof -
  have "parse_subnet ''10.1.255.7/20'' = Ok \<lparr>es_addr = V4 0x0A01F000, es_prefix = 20\<rparr>"
    by (simp add: parse_subnet_def mask_ip_def prefix_mask_def eval_simps mask_eq_exp_minus_1)
  with parse_subnet_masks [of "''10.1.255.7/20''"] show ?thesis by blast
qed

text \<open>Injecting a subnet changes only the EDNS data of a query: afterwards it announces
  a payload of 1232 bytes, carries the subnet option, keeps every option of another kind and
  holds no option that was neither there before nor the injected one.\<close>

theorem inject_subnet:
  assumes "opt_laws H" and "edns_new_laws H"
  shows "\<exists>e. inject H query sn = query\<lparr>edns := Some e\<rparr> \<and> max_payload e = 1232 \<and>
     Opt_Subnet (es_addr sn) (es_prefix sn) 0 \<in> set (options e) \<and>
     (let before = (case edns query of None \<Rightarrow> {} | Some e0 \<Rightarrow> set (options e0)) in
        {x \<in> before. code_of x \<noteq> Code_Subnet} \<subseteq> set (options e) \<and>
        set (options e) \<subseteq> insert (Opt_Subnet (es_addr sn) (es_prefix sn) 0) before)"
proof -
  let ?x = "Opt_Subnet (es_addr sn) (es_prefix sn) 0"
  let ?e0 = "case edns query of None \<Rightarrow> edns_new H | Some e \<Rightarrow> e"
  have before: "(case edns query of None \<Rightarrow> {} | Some e0 \<Rightarrow> set (options e0)) = set (options ?e0)"
    using assms(2) by (auto simp: edns_new_laws_def split: option.splits)
  have "code_of ?x = Code_Subnet" by (simp add: code_of_def)
  with assms(1) show ?thesis
    unfolding before Let_def
    by (intro exI [of _ "?e0\<lparr>max_payload := 1232, options := opt_insert H ?x (options ?e0)\<rparr>"])
      (auto simp: inject_def Let_def opt_insert_mem opt_insert_other dest: opt_insert_subset)
qed

lemma inject_subnet_witness:
  "\<exists>e. inject sample_hickory (message_new 1 Query_type 0) \<lparr>es_addr = V4 0, es_prefix = 0\<rparr> =
      (message_new 1 Query_type 0)\<lparr>edns := Some e\<rparr> \<and> Opt_Subnet (V4 0) 0 0 \<in> set (options e)"
  using inject_subnet [OF sample_hickory_laws, of "message_new 1 Query_type 0" "\<lparr>es_addr = V4 0, es_prefix = 0\<rparr>"]
  by auto

end
