(* ===== verification/F64.thy ===== *)
theory F64
  imports Complex_Main Prelude
begin

text \<open>
  Double-precision numbers as the statistics and the selector use them: a finite value, the
  infinities and NaN. Every arithmetic operation computes the exact result and then rounds
  it; the rounding is an argument (\<open>rnd\<close>), so a theorem that does not constrain it holds
  for the rounding of the hardware, and \<open>exact\<close> is the idealised arithmetic without
  rounding. The sign of zero is not represented; no comparison the sources make can see it.
\<close>

datatype f64 = Fin real | PInf | NInf | NaN

type_synonym rounding = "real \<Rightarrow> f64"

definition exact :: rounding where
  "exact = Fin"

definition is_finite :: "f64 \<Rightarrow> bool" where
  "is_finite x = (case x of Fin _ \<Rightarrow> True | _ \<Rightarrow> False)"

fun flt :: "f64 \<Rightarrow> f64 \<Rightarrow> bool" where
  "flt (Fin a) (Fin b) = (a < b)"
| "flt (Fin a) PInf = True"
| "flt NInf (Fin b) = True"
| "flt NInf PInf = True"
| "flt _ _ = False"

fun fle :: "f64 \<Rightarrow> f64 \<Rightarrow> bool" where
  "fle NaN _ = False"
| "fle _ NaN = False"
| "fle (Fin a) (Fin b) = (a \<le> b)"
| "fle _ PInf = True"
| "fle NInf _ = True"
| "fle _ _ = False"

fun fadd :: "rounding \<Rightarrow> f64 \<Rightarrow> f64 \<Rightarrow> f64" where
  "fadd rnd (Fin a) (Fin b) = rnd (a + b)"
| "fadd rnd NaN _ = NaN"
| "fadd rnd _ NaN = NaN"
| "fadd rnd PInf NInf = NaN"
| "fadd rnd NInf PInf = NaN"
| "fadd rnd PInf _ = PInf"
| "fadd rnd _ PInf = PInf"
| "fadd rnd NInf _ = NInf"
| "fadd rnd _ NInf = NInf"

definition inf_of_sign :: "real \<Rightarrow> f64" where
  "inf_of_sign s = (if s > 0 then PInf else if s < 0 then NInf else NaN)"

fun fsign :: "f64 \<Rightarrow> real" where
  "fsign (Fin a) = sgn a"
| "fsign PInf = 1"
| "fsign NInf = -1"
| "fsign NaN = 0"

definition fmul :: "rounding \<Rightarrow> f64 \<Rightarrow> f64 \<Rightarrow> f64" where
  "fmul rnd x y = (case (x, y) of
     (Fin a, Fin b) \<Rightarrow> rnd (a * b)
   | _ \<Rightarrow> if x = NaN \<or> y = NaN then NaN else inf_of_sign (fsign x * fsign y))"

definition fdiv :: "rounding \<Rightarrow> f64 \<Rightarrow> f64 \<Rightarrow> f64" where
  "fdiv rnd x y = (case (x, y) of
     (Fin a, Fin b) \<Rightarrow> if b = 0 then inf_of_sign (sgn a) else rnd (a / b)
   | (Fin a, PInf) \<Rightarrow> Fin 0
   | (Fin a, NInf) \<Rightarrow> Fin 0
   | (PInf, Fin b) \<Rightarrow> if b < 0 then NInf else PInf
   | (NInf, Fin b) \<Rightarrow> if b < 0 then PInf else NInf
   | _ \<Rightarrow> NaN)"

definition fmax :: "f64 \<Rightarrow> f64 \<Rightarrow> f64" where
  "fmax x y = (if x = NaN then y else if y = NaN then x else if fle x y then y else x)"

text \<open>Conversions: \<open>n as f64\<close> rounds, \<open>x as usize\<close> truncates and saturates.\<close>

definition f64_of_nat :: "rounding \<Rightarrow> nat \<Rightarrow> f64" where
  "f64_of_nat rnd n = rnd (real n)"

definition usize_of_f64 :: "f64 \<Rightarrow> nat" where
  "usize_of_f64 x = (case x of
     Fin a \<Rightarrow> min (nat \<lfloor>a\<rfloor>) u64_max | PInf \<Rightarrow> u64_max | NInf \<Rightarrow> 0 | NaN \<Rightarrow> 0)"

definition fsum :: "rounding \<Rightarrow> f64 list \<Rightarrow> f64" where
  "fsum rnd xs = foldl (fadd rnd) (Fin 0) xs"

lemma is_finite_iff: "is_finite x \<longleftrightarrow> (\<exists>a. x = Fin a)"
  by (cases x) (simp_all add: is_finite_def)

declare exact_def [simp]

lemma is_finite_simps [simp]: "is_finite (Fin a)" "\<not> is_finite PInf" "\<not> is_finite NInf" "\<not> is_finite NaN"
  by (simp_all add: is_finite_def)

lemma fmul_Fin [simp]: "fmul rnd (Fin a) (Fin b) = rnd (a * b)"
  by (simp add: fmul_def)

lemma fdiv_Fin [simp]: "b \<noteq> 0 \<Longrightarrow> fdiv rnd (Fin a) (Fin b) = rnd (a / b)"
  by (simp add: fdiv_def)

lemma fmax_Fin [simp]: "fmax (Fin a) (Fin b) = Fin (max a b)"
  by (simp add: fmax_def)

lemma fsum_exact: "foldl (fadd Fin) (Fin a) (map Fin xs) = Fin (a + sum_list xs)"
  by (induction xs arbitrary: a) (simp_all add: add.assoc)

end
