(* ===== verification/Config.thy ===== *)
theory Config
  imports Ip_Addr F64
begin

text \<open>
  \<open>src/config.rs\<close>: the configuration, its defaults and its validation. The TOML reader is
  the parameter \<open>toml\<close>; the serde attributes that fill in missing fields are the defaults
  below.
\<close>

section \<open>Sections and their defaults\<close>

definition default_query_timeout_ms :: nat where
  "default_query_timeout_ms = 10000"

definition default_upstream_timeout_ms :: nat where
  "default_upstream_timeout_ms = 5000"

definition default_hedged_retry_ms :: nat where
  "default_hedged_retry_ms = 1000"

record server_config =
  sc_listen :: socket_addr
  query_timeout_ms :: nat
  upstream_timeout_ms :: nat
  prefer_ipv6 :: bool
  hedged_retry_ms :: nat

definition default_log_level :: string where
  "default_log_level = ''info''"

record log_config =
  log_level :: string

definition log_config_default :: log_config where
  "log_config_default = \<lparr>log_level = default_log_level\<rparr>"

definition default_max_memory_mb :: nat where
  "default_max_memory_mb = 16"

record cache_config =
  max_memory_mb :: nat

definition cache_config_default :: cache_config where
  "cache_config_default = \<lparr>max_memory_mb = default_max_memory_mb\<rparr>"

definition default_window :: nat where
  "default_window = 32"

definition default_k :: f64 where
  "default_k = Fin 5"

record selector_config =
  sel_window :: nat
  sel_k :: f64

definition selector_config_default :: selector_config where
  "selector_config_default = \<lparr>sel_window = default_window, sel_k = default_k\<rparr>"

definition default_dashboard_listen :: socket_addr where
  "default_dashboard_listen = \<lparr>sa_ip = V4 0, sa_port = 8080\<rparr>"

definition default_database_path :: string where
  "default_database_path = ''dnsbuffer.db''"

definition default_retention_days :: nat where
  "default_retention_days = 7"

record dashboard_config =
  dc_listen :: socket_addr
  database_path :: string
  retention_days :: nat

definition dashboard_config_default :: dashboard_config where
  "dashboard_config_default = \<lparr>dc_listen = default_dashboard_listen,
     database_path = default_database_path, retention_days = default_retention_days\<rparr>"

record ecs_config =
  fixed_subnet :: "string option"

datatype block_response_kind = Zero

record rule_source =
  rs_path :: "string option"
  rs_url :: "string option"
  rs_update_interval :: "string option"

record adblock_config =
  allowlist :: "string list"
  ac_block_response :: block_response_kind
  rule_sources :: "rule_source list"

record host_entry =
  he_name :: string
  he_addrs :: "ip_addr list"

datatype upstream_config =
    Plain socket_addr
  | Doh string string bool "ip_addr option"
  | Dot ip_addr string

record config =
  server :: server_config
  log :: log_config
  cache_section :: cache_config
  ecs_section :: ecs_config
  adblock :: adblock_config
  hosts_section :: "host_entry list"
  upstream_section :: "upstream_config list"
  bootstrap_servers :: "upstream_config list"
  fallback_section :: "upstream_config list"
  selector_section :: selector_config
  dashboard :: dashboard_config

section \<open>Operations\<close>

datatype config_error =
    Invalid_port string
  | No_upstream | Empty_database_path | Retention_out_of_range
  | Bootstrap_doh_without_ip string
  | Read_failed | Parse_failed

definition split_domain_port :: "string \<Rightarrow> (string \<times> nat, config_error) result" where
  "split_domain_port domain = (case rsplit_once (CHR '':'') domain of
     Some (host, port) \<Rightarrow>
       (case parse_u16 port of None \<Rightarrow> Err (Invalid_port domain) | Some p \<Rightarrow> Ok (host, p))
   | None \<Rightarrow> Ok (domain, 853))"

fun check_bootstrap :: "upstream_config list \<Rightarrow> (unit, config_error) result" where
  "check_bootstrap [] = Ok ()"
| "check_bootstrap (b # bs) = (case b of
     Doh url _ _ None \<Rightarrow> Err (Bootstrap_doh_without_ip url)
   | _ \<Rightarrow> check_bootstrap bs)"

definition validate :: "config \<Rightarrow> (unit, config_error) result" where
  "validate c =
     (if upstream_section c = [] then Err No_upstream
      else if database_path (dashboard c) = [] then Err Empty_database_path
      else if retention_days (dashboard c) > 9999 then Err Retention_out_of_range
      else check_bootstrap (bootstrap_servers c))"

definition load :: "(string \<Rightarrow> string option) \<Rightarrow> (string \<Rightarrow> config option) \<Rightarrow> string \<Rightarrow> (config, config_error) result" where
  "load read_to_string toml path =
     and_then (ok_or Read_failed (read_to_string path)) (\<lambda>text.
     and_then (ok_or Parse_failed (toml text)) (\<lambda>cfg.
     and_then (validate cfg) (\<lambda>_. Ok cfg)))"

definition has_ip :: "upstream_config \<Rightarrow> bool" where
  "has_ip u = (case u of Doh _ _ _ None \<Rightarrow> False | _ \<Rightarrow> True)"

lemma check_bootstrap_Ok_iff: "check_bootstrap bs = Ok () \<longleftrightarrow> list_all has_ip bs"
proof (induction bs)
  case (Cons b bs)
  then show ?case by (cases b) (auto simp: has_ip_def split: option.split)
qed simp

text \<open>What a configuration that was loaded guarantees to the components built from it.\<close>

definition valid_config :: "config \<Rightarrow> bool" where
  "valid_config c \<longleftrightarrow> upstream_section c \<noteq> [] \<and> database_path (dashboard c) \<noteq> [] \<and>
     retention_days (dashboard c) \<le> 9999 \<and> list_all has_ip (bootstrap_servers c)"

lemma validate_Ok_iff: "validate c = Ok () \<longleftrightarrow> valid_config c"
  by (auto simp: validate_def valid_config_def check_bootstrap_Ok_iff)

lemma split_domain_port_no_colon: "CHR '':'' \<notin> set d \<Longrightarrow> split_domain_port d = Ok (d, 853)"
  using rsplit_once_None_iff [of "CHR '':''" d] by (simp add: split_domain_port_def)

lemma dec_string_no_colon: "CHR '':'' \<notin> set (dec_string n)"
  using dec_string_digits [of "CHR '':''" n] by (auto simp: dec_digit_def)

lemma split_domain_port_print:
  "p \<le> 65535 \<Longrightarrow> split_domain_port (host @ '':'' @ dec_string p) = Ok (host, p)"
proof -
  assume p: "p \<le> 65535"
  have "rsplit_once (CHR '':'') (host @ '':'' @ dec_string p) = Some (host, dec_string p)"
    by (simp add: rsplit_once_Some_iff dec_string_no_colon)
  with p show ?thesis
    by (simp add: split_domain_port_def parse_u16_def from_str_radix_dec_string)
qed

lemma split_domain_port_bound: "split_domain_port d = Ok (h, p) \<Longrightarrow> p \<le> 65535"
  by (auto simp: split_domain_port_def split: option.splits dest: parse_u16_bound)

section \<open>What the component guarantees\<close>

text \<open>The bootstrap check stops at the first server that lacks its address.\<close>

lemma check_bootstrap_Err_iff:
  "check_bootstrap bs = Err e \<longleftrightarrow>
     (\<exists>pre url d m post. bs = pre @ Doh url d m None # post \<and> list_all has_ip pre \<and>
        e = Bootstrap_doh_without_ip url)"
proof (induction bs)
  case (Cons b bs)
  show ?case
  proof (cases "has_ip b")
    case True
    then have "check_bootstrap (b # bs) = check_bootstrap bs"
      by (auto simp: has_ip_def split: upstream_config.splits option.splits)
    moreover have "check_bootstrap bs = Err e \<longleftrightarrow>
        (\<exists>pre url d m post. b # bs = pre @ Doh url d m None # post \<and> list_all has_ip pre \<and>
           e = Bootstrap_doh_without_ip url)"
    proof
      assume "check_bootstrap bs = Err e"
      then obtain pre url d m post where
        "b # bs = (b # pre) @ Doh url d m None # post" "list_all has_ip (b # pre)" "e = Bootstrap_doh_without_ip url"
        using True by (auto simp: Cons.IH)
      then show "\<exists>pre url d m post. b # bs = pre @ Doh url d m None # post \<and> list_all has_ip pre \<and>
           e = Bootstrap_doh_without_ip url" by blast
    next
      assume "\<exists>pre url d m post. b # bs = pre @ Doh url d m None # post \<and> list_all has_ip pre \<and>
           e = Bootstrap_doh_without_ip url"
      then obtain pre url d m post where pre: "b # bs = pre @ Doh url d m None # post" "list_all has_ip pre"
        "e = Bootstrap_doh_without_ip url" by blast
      then have "bs = tl pre @ Doh url d m None # post" "list_all has_ip (tl pre)"
        using True by (cases pre; simp add: has_ip_def)+
      with pre(3) show "check_bootstrap bs = Err e" unfolding Cons.IH by blast
    qed
    ultimately show ?thesis by simp
  next
    case False
    then obtain url d m where "b = Doh url d m None"
      by (auto simp: has_ip_def split: upstream_config.splits option.splits)
    then have "b # bs = [] @ Doh url d m None # bs" "list_all has_ip []" by simp_all
    with \<open>b = Doh url d m None\<close> show ?thesis
      by (auto simp: Cons_eq_append_conv has_ip_def intro: exI [of _ "[]"])
  qed
qed simp

lemma has_ip_iff: "has_ip u \<longleftrightarrow> (\<nexists>url d m. u = Doh url d m None)"
  by (auto simp: has_ip_def split: upstream_config.splits option.splits)

lemma load_cases:
  "load read_to_string toml path = (case read_to_string path of None \<Rightarrow> Err Read_failed
      | Some text \<Rightarrow> (case toml text of None \<Rightarrow> Err Parse_failed
      | Some c \<Rightarrow> (case validate c of Err e \<Rightarrow> Err e | Ok _ \<Rightarrow> Ok c)))"
  by (simp add: load_def and_then_def ok_or_def split: option.splits sum.splits)

text \<open>C29. Loading succeeds exactly when the file can be read, the reader accepts it and the
  configuration has an upstream, a non-empty database path, a retention of at most 9999 days
  and an address for every DNS-over-HTTPS bootstrap server; the loaded configuration is the
  one the reader returned. Every other case reports its own error, and reports it exactly
  then: an unreadable file; a text the reader rejects; no upstream; an upstream but an empty
  database path; both of them in order but a retention above 9999 days; and, all of that in
  order, the first bootstrap server of type DNS-over-HTTPS without an address, named by its
  URL. No other error is ever reported.\<close>

theorem load_validates:
  "(\<forall>c. load read_to_string toml path = Ok c \<longleftrightarrow>
      (\<exists>text. read_to_string path = Some text \<and> toml text = Some c) \<and>
      upstream_section c \<noteq> [] \<and> database_path (dashboard c) \<noteq> [] \<and>
      retention_days (dashboard c) \<le> 9999 \<and>
      (\<forall>url d m. Doh url d m None \<notin> set (bootstrap_servers c))) \<and>
   (\<forall>e. load read_to_string toml path = Err e \<longleftrightarrow>
      e = Read_failed \<and> read_to_string path = None \<or>
      (\<exists>text. read_to_string path = Some text \<and>
        (e = Parse_failed \<and> toml text = None \<or>
         (\<exists>c. toml text = Some c \<and>
           (e = No_upstream \<and> upstream_section c = [] \<or>
            upstream_section c \<noteq> [] \<and>
              (e = Empty_database_path \<and> database_path (dashboard c) = [] \<or>
               database_path (dashboard c) \<noteq> [] \<and>
                 (e = Retention_out_of_range \<and> retention_days (dashboard c) > 9999 \<or>
                  retention_days (dashboard c) \<le> 9999 \<and>
                    (\<exists>pre url d m post. e = Bootstrap_doh_without_ip url \<and>
                       bootstrap_servers c = pre @ Doh url d m None # post \<and>
                       (\<forall>url' d' m'. Doh url' d' m' None \<notin> set pre)))))))))"
  (is "?accepts \<and> (\<forall>e. ?reports e)")
proof (intro conjI allI)
  have ips: "list_all has_ip us \<longleftrightarrow> (\<forall>url d m. Doh url d m None \<notin> set us)" for us
    by (auto simp: list_all_iff has_ip_iff)
  show "load read_to_string toml path = Ok c \<longleftrightarrow>
      (\<exists>text. read_to_string path = Some text \<and> toml text = Some c) \<and>
      upstream_section c \<noteq> [] \<and> database_path (dashboard c) \<noteq> [] \<and>
      retention_days (dashboard c) \<le> 9999 \<and>
      (\<forall>url d m. Doh url d m None \<notin> set (bootstrap_servers c))" for c
    using validate_Ok_iff [of c] unfolding load_cases valid_config_def ips
    by (auto split: option.splits sum.splits)
  have bad: "validate c = Err e \<longleftrightarrow>
      e = No_upstream \<and> upstream_section c = [] \<or>
      upstream_section c \<noteq> [] \<and>
        (e = Empty_database_path \<and> database_path (dashboard c) = [] \<or>
         database_path (dashboard c) \<noteq> [] \<and>
           (e = Retention_out_of_range \<and> retention_days (dashboard c) > 9999 \<or>
            retention_days (dashboard c) \<le> 9999 \<and>
              (\<exists>pre url d m post. e = Bootstrap_doh_without_ip url \<and>
                 bootstrap_servers c = pre @ Doh url d m None # post \<and>
                 (\<forall>url' d' m'. Doh url' d' m' None \<notin> set pre))))" for c e
    unfolding ips [symmetric] validate_def by (simp add: check_bootstrap_Err_iff) blast
  show "?reports e" for e
    unfolding load_cases bad [symmetric] by (auto split: option.splits sum.splits)
qed

definition sample_config :: config where
  "sample_config = \<lparr>server = \<lparr>sc_listen = default_dashboard_listen, query_timeout_ms = default_query_timeout_ms,
       upstream_timeout_ms = default_upstream_timeout_ms, prefer_ipv6 = False, hedged_retry_ms = default_hedged_retry_ms\<rparr>,
     log = log_config_default, cache_section = cache_config_default, ecs_section = \<lparr>fixed_subnet = None\<rparr>,
     adblock = \<lparr>allowlist = [], ac_block_response = Zero, rule_sources = []\<rparr>, hosts_section = [],
     upstream_section = [Plain \<lparr>sa_ip = V4 1, sa_port = 53\<rparr>],
     bootstrap_servers = [Doh ''https://d/'' ''d'' True None], fallback_section = [],
     selector_section = selector_config_default, dashboard = dashboard_config_default\<rparr>"

lemma load_validates_witness:
  "load (\<lambda>_. Some ''t'') (\<lambda>_. Some sample_config) ''x'' = Err (Bootstrap_doh_without_ip ''https://d/'') \<and>
   load (\<lambda>_. Some ''t'') (\<lambda>_. Some (sample_config\<lparr>bootstrap_servers := []\<rparr>)) ''x'' =
     Ok (sample_config\<lparr>bootstrap_servers := []\<rparr>)"
proof
  show "load (\<lambda>_. Some ''t'') (\<lambda>_. Some sample_config) ''x'' = Err (Bootstrap_doh_without_ip ''https://d/'')"
    unfolding load_validates [THEN conjunct2, rule_format]
    by (intro disjI2 exI [of _ "''t''"]) (auto simp: sample_config_def dashboard_config_default_def
        default_database_path_def default_retention_days_def Cons_eq_append_conv)
  show "load (\<lambda>_. Some ''t'') (\<lambda>_. Some (sample_config\<lparr>bootstrap_servers := []\<rparr>)) ''x'' =
     Ok (sample_config\<lparr>bootstrap_servers := []\<rparr>)"
    unfolding load_validates [THEN conjunct1, rule_format]
    by (simp add: sample_config_def dashboard_config_default_def default_database_path_def default_retention_days_def)
qed

text \<open>A DNS-over-TLS server name round trip: a host name with an explicit port in decimal
  is split back into exactly the two, a name without a colon gets port 853, and no text is
  ever split into a port that does not fit 16 bits.\<close>

theorem split_domain_port_roundtrip:
  "(p \<le> 65535 \<longrightarrow> split_domain_port (host @ '':'' @ dec_string p) = Ok (host, p)) \<and>
   (CHR '':'' \<notin> set host \<longrightarrow> split_domain_port host = Ok (host, 853)) \<and>
   (\<forall>d h q. split_domain_port d = Ok (h, q) \<longrightarrow> q \<le> 65535)"
  using split_domain_port_print split_domain_port_no_colon split_domain_port_bound by blast

lemma split_domain_port_roundtrip_witness:
  "split_domain_port (''dns.example'' @ '':'' @ dec_string 8853) = Ok (''dns.example'', 8853) \<and>
   split_domain_port ''dns.example'' = Ok (''dns.example'', 853)"
  using split_domain_port_roundtrip [of 8853 "''dns.example''"] by simp

end
