(* ===== verification/Suffix_Walk.thy ===== *)
theory Suffix_Walk
  imports Rust_Str
begin

text \<open>
  The walk both \<open>src/hosts.rs\<close> and \<open>src/filter.rs\<close> make over a name: the name itself, then
  what follows its first dot, and so on. \<open>label_suffixes\<close> lists the candidates in the order
  of the walk; \<open>is_subdomain\<close> says the same without a walk.
\<close>

function label_suffixes :: "string \<Rightarrow> string list" where
  "label_suffixes s =
     s # (case after_char (CHR ''.'') s of None \<Rightarrow> [] | Some r \<Rightarrow> label_suffixes r)"
  by pat_completeness auto
termination
  by (relation "measure length") (auto dest: after_char_length)

declare label_suffixes.simps [simp del]

definition is_subdomain :: "string \<Rightarrow> string \<Rightarrow> bool" where
  "is_subdomain name base \<longleftrightarrow> name = base \<or> (\<exists>p. name = p @ ''.'' @ base)"

definition is_strict_subdomain :: "string \<Rightarrow> string \<Rightarrow> bool" where
  "is_strict_subdomain name base \<longleftrightarrow> (\<exists>p. name = p @ ''.'' @ base)"

lemma label_suffixes_nonempty [simp]: "label_suffixes s \<noteq> []"
  by (subst label_suffixes.simps) simp

lemma self_in_label_suffixes [simp]: "s \<in> set (label_suffixes s)"
  by (subst label_suffixes.simps) simp

lemma is_subdomain_refl [simp]: "is_subdomain s s"
  by (simp add: is_subdomain_def)

lemma is_subdomain_step:
  assumes "after_char (CHR ''.'') s = Some r"
  shows "is_subdomain s b \<longleftrightarrow> s = b \<or> is_subdomain r b"
proof -
  from assms obtain a where s: "s = a @ CHR ''.'' # r" and a: "CHR ''.'' \<notin> set a"
    by (auto simp: after_char_Some_iff)
  show ?thesis
  proof
    assume "is_subdomain s b"
    then consider "s = b" | p where "s = p @ CHR ''.'' # b" by (auto simp: is_subdomain_def)
    then show "s = b \<or> is_subdomain r b"
    proof cases
      case 2
      with s have "a @ CHR ''.'' # r = p @ CHR ''.'' # b" by simp
      then consider "a = p" "r = b" | us where "p = a @ CHR ''.'' # us" "r = us @ CHR ''.'' # b"
        | us where "a = p @ CHR ''.'' # us"
        by (auto simp: append_eq_append_conv2 Cons_eq_append_conv append_eq_Cons_conv)
      then show ?thesis using a by cases (auto simp: is_subdomain_def)
    qed simp
  next
    assume "s = b \<or> is_subdomain r b"
    with s show "is_subdomain s b" by (auto simp: is_subdomain_def)
  qed
qed

lemma is_subdomain_no_dot: "CHR ''.'' \<notin> set s \<Longrightarrow> is_subdomain s b \<longleftrightarrow> s = b"
  by (auto simp: is_subdomain_def)

lemma set_label_suffixes: "b \<in> set (label_suffixes s) \<longleftrightarrow> is_subdomain s b"
proof (induction s rule: label_suffixes.induct)
  case (1 s)
  show ?case
  proof (cases "after_char (CHR ''.'') s")
    case None
    then have "CHR ''.'' \<notin> set s" by (simp add: after_char_None_iff)
    with None show ?thesis by (auto simp: label_suffixes.simps [of s] is_subdomain_no_dot)
  next
    case (Some r)
    then have "b \<in> set (label_suffixes s) \<longleftrightarrow> s = b \<or> is_subdomain r b"
      using 1 by (auto simp: label_suffixes.simps [of s])
    with is_subdomain_step [OF Some] show ?thesis by simp
  qed
qed

lemma is_strict_subdomain_iff:
  "is_strict_subdomain s b \<longleftrightarrow>
     (case after_char (CHR ''.'') s of None \<Rightarrow> False | Some r \<Rightarrow> is_subdomain r b)"
proof (cases "after_char (CHR ''.'') s")
  case None
  then have "CHR ''.'' \<notin> set s" by (simp add: after_char_None_iff)
  with None show ?thesis by (auto simp: is_strict_subdomain_def)
next
  case (Some r)
  have "is_subdomain r b \<Longrightarrow> length b \<le> length r" by (auto simp: is_subdomain_def)
  moreover have "length r < length s" using Some by (rule after_char_length)
  moreover have "is_strict_subdomain s b \<longleftrightarrow> is_subdomain s b \<and> s \<noteq> b"
    by (auto simp: is_strict_subdomain_def is_subdomain_def)
  ultimately show ?thesis using is_subdomain_step [OF Some, of b] Some by auto
qed

text \<open>Every candidate of the walk is a normalized name when the name is one.\<close>

lemma is_subdomain_trans: "is_subdomain a b \<Longrightarrow> is_subdomain b c \<Longrightarrow> is_subdomain a c"
  unfolding is_subdomain_def by (metis append_assoc)

section \<open>A walk that stops at the first candidate that satisfies a test\<close>

text \<open>
  The contract of a suffix walk, whatever it looks up: it finds a candidate of the list,
  the first one that passes the test. Both users of the walk get their characterisation
  from it.
\<close>

locale suffix_search =
  fixes search :: "string \<Rightarrow> 'v option" and table :: "string \<Rightarrow> 'v option"
  assumes search_unfold:
    "search s = (case table s of Some v \<Rightarrow> Some v
       | None \<Rightarrow> (case after_char (CHR ''.'') s of None \<Rightarrow> None | Some r \<Rightarrow> search r))"
begin

lemma search_eq_find:
  "search s = (case List.find (\<lambda>c. table c \<noteq> None) (label_suffixes s) of
     None \<Rightarrow> None | Some c \<Rightarrow> table c)"
proof (induction s rule: label_suffixes.induct)
  case (1 s)
  show ?case
    using 1 by (subst search_unfold, subst label_suffixes.simps) (auto split: option.splits)
qed

lemma search_None_iff: "search s = None \<longleftrightarrow> (\<forall>b. is_subdomain s b \<longrightarrow> table b = None)"
proof -
  have "search s = None \<longleftrightarrow> List.find (\<lambda>c. table c \<noteq> None) (label_suffixes s) = None"
  proof (cases "List.find (\<lambda>c. table c \<noteq> None) (label_suffixes s)")
    case None
    then show ?thesis by (simp add: search_eq_find)
  next
    case (Some c)
    then have "table c \<noteq> None" by (auto simp: find_Some_iff)
    with Some show ?thesis by (simp add: search_eq_find)
  qed
  also have "\<dots> \<longleftrightarrow> (\<forall>b \<in> set (label_suffixes s). table b = None)"
    by (auto simp: find_None_iff)
  finally show ?thesis by (auto simp: set_label_suffixes)
qed

lemma search_Some_iff:
  "search s = Some v \<longleftrightarrow> (\<exists>b. is_subdomain s b \<and> table b = Some v \<and>
     (\<forall>b'. is_subdomain s b' \<and> table b' \<noteq> None \<longrightarrow> length b' \<le> length b))"
proof (induction s rule: label_suffixes.induct)
  case (1 s)
  show ?case
  proof (cases "table s")
    case (Some w)
    then have "search s = Some w" by (subst search_unfold) simp
    moreover have "is_subdomain s b \<and> length s \<le> length b \<longleftrightarrow> b = s" for b
      by (auto simp: is_subdomain_def)
    moreover have "is_subdomain s b \<Longrightarrow> length b \<le> length s" for b by (auto simp: is_subdomain_def)
    ultimately show ?thesis using Some is_subdomain_refl by (metis option.distinct(1) option.inject)
  next
    case None
    show ?thesis
    proof (cases "after_char (CHR ''.'') s")
      case no_dot: None
      then have "\<not> CHR ''.'' \<in> set s" by (simp add: after_char_None_iff)
      with None no_dot show ?thesis by (subst search_unfold) (auto simp: is_subdomain_no_dot)
    next
      case (Some r)
      with None have "search s = search r" by (subst search_unfold) simp
      with 1 Some None is_subdomain_step [OF Some] show ?thesis by (metis option.distinct(1))
    qed
  qed
qed

end

end
