(* ===== verification/Hosts.thy ===== *)
theory Hosts
  imports Config Dns_Message Suffix_Walk
begin

text \<open>
  \<open>src/hosts.rs\<close>: custom hosts, exact names and \<open>*.\<close> wildcards, answered without asking an
  upstream. The two hash maps are maps from normalized names to address lists.
\<close>

definition HOSTS_TTL :: u32 where
  "HOSTS_TTL = 300"

record hosts_map =
  hm_exact :: "string \<rightharpoonup> ip_addr list"
  hm_wildcard :: "string \<rightharpoonup> ip_addr list"

definition hosts_insert :: "hosts_map \<Rightarrow> host_entry \<Rightarrow> hosts_map" where
  "hosts_insert m e =
     (let name = norm_name (he_name e) in
      case strip_prefix ''*.'' name of
        Some base \<Rightarrow> m\<lparr>hm_wildcard := (hm_wildcard m)(base \<mapsto> he_addrs e)\<rparr>
      | None \<Rightarrow> m\<lparr>hm_exact := (hm_exact m)(name \<mapsto> he_addrs e)\<rparr>)"

definition hosts_from_entries :: "host_entry list \<Rightarrow> hosts_map" where
  "hosts_from_entries es = foldl hosts_insert \<lparr>hm_exact = Map.empty, hm_wildcard = Map.empty\<rparr> es"

text \<open>The wildcard loop: drop the leftmost label, look the rest up, repeat.\<close>

function find_wildcard :: "(string \<rightharpoonup> ip_addr list) \<Rightarrow> string \<Rightarrow> ip_addr list option" where
  "find_wildcard w rest = (case after_char (CHR ''.'') rest of
     None \<Rightarrow> None
   | Some r \<Rightarrow> (case w r of Some v \<Rightarrow> Some v | None \<Rightarrow> find_wildcard w r))"
  by pat_completeness auto
termination
  by (relation "measure (\<lambda>(w, s). length s)") (auto dest: after_char_length)

declare find_wildcard.simps [simp del]

definition hosts_find :: "hosts_map \<Rightarrow> string \<Rightarrow> ip_addr list option" where
  "hosts_find m name = (case hm_exact m name of
     Some v \<Rightarrow> Some v | None \<Rightarrow> find_wildcard (hm_wildcard m) name)"

definition host_record :: "record_type \<Rightarrow> string \<Rightarrow> ip_addr \<Rightarrow> rr option" where
  "host_record qt owner ip = (case ip of
     V4 v4 \<Rightarrow> if qt = RT_A then Some \<lparr>rr_name = owner, rr_ttl = HOSTS_TTL, rr_data = RData_A v4\<rparr> else None
   | V6 v6 \<Rightarrow> if qt = RT_AAAA then Some \<lparr>rr_name = owner, rr_ttl = HOSTS_TTL, rr_data = RData_AAAA v6\<rparr> else None)"

definition hosts_lookup :: "hosts_map \<Rightarrow> message \<Rightarrow> message option" where
  "hosts_lookup m query = (case queries query of
     [] \<Rightarrow> None
   | q # _ \<Rightarrow>
       (let name = norm_name (q_name q) in
        case hosts_find m name of
          None \<Rightarrow> None
        | Some addrs \<Rightarrow>
            (let resp = message_new (msg_id query) Response_type (op_code query);
                 resp = resp\<lparr>rcode := NoError\<rparr>;
                 resp = resp\<lparr>recursion_desired := recursion_desired query\<rparr>;
                 resp = resp\<lparr>recursion_available := True\<rparr>;
                 resp = add_query q resp;
                 owner = q_name q
             in Some (if q_type q = RT_A \<or> q_type q = RT_AAAA
                      then foldl (\<lambda>r ip. case host_record (q_type q) owner ip of
                                           None \<Rightarrow> r | Some a \<Rightarrow> add_answer a r) resp addrs
                      else resp))))"

definition hosts_is_empty :: "hosts_map \<Rightarrow> bool" where
  "hosts_is_empty m \<longleftrightarrow> hm_exact m = Map.empty \<and> hm_wildcard m = Map.empty"

section \<open>The wildcard walk\<close>

text \<open>
  One step of the walk (drop a label, then try the name and its suffixes) is a suffix search
  in the sense of the shared contract.
\<close>

definition wildcard_from :: "(string \<rightharpoonup> ip_addr list) \<Rightarrow> string \<Rightarrow> ip_addr list option" where
  "wildcard_from w s = (case w s of Some v \<Rightarrow> Some v | None \<Rightarrow> find_wildcard w s)"

interpretation hosts_walk: suffix_search "wildcard_from w" w for w
  by unfold_locales
    (simp add: wildcard_from_def find_wildcard.simps split: option.splits)

lemma find_wildcard_eq:
  "find_wildcard w s = (case after_char (CHR ''.'') s of None \<Rightarrow> None | Some r \<Rightarrow> wildcard_from w r)"
  by (simp add: find_wildcard.simps [of w s] wildcard_from_def split: option.splits)

lemma find_wildcard_None_iff:
  "find_wildcard w s = None \<longleftrightarrow> (\<forall>b. is_strict_subdomain s b \<longrightarrow> w b = None)"
  by (cases "after_char (CHR ''.'') s")
    (auto simp: find_wildcard_eq hosts_walk.search_None_iff is_strict_subdomain_iff)

lemma find_wildcard_Some_iff:
  "find_wildcard w s = Some v \<longleftrightarrow> (\<exists>b. is_strict_subdomain s b \<and> w b = Some v \<and>
     (\<forall>b'. is_strict_subdomain s b' \<and> w b' \<noteq> None \<longrightarrow> length b' \<le> length b))"
  by (cases "after_char (CHR ''.'') s")
    (auto simp: find_wildcard_eq is_strict_subdomain_iff hosts_walk.search_Some_iff)

section \<open>Entries\<close>

text \<open>The last entry for a name decides, as inserting into a hash map does.\<close>

lemma foldl_hosts_insert_exact:
  "hm_exact (foldl hosts_insert m es) n =
     (case List.find (\<lambda>e. norm_name (he_name e) = n) (rev es) of
        Some e \<Rightarrow> if strip_prefix ''*.'' n = None then Some (he_addrs e) else hm_exact m n
      | None \<Rightarrow> hm_exact m n)"
proof (induction es arbitrary: m)
  case Nil
  then show ?case by simp
next
  case (Cons e es)
  then show ?case
    by (auto simp: hosts_insert_def Let_def find_append split: option.splits)
qed

lemma hosts_from_entries_exact:
  assumes "strip_prefix ''*.'' n = None"
  shows "hm_exact (hosts_from_entries es) n =
     map_option he_addrs (List.find (\<lambda>e. norm_name (he_name e) = n) (rev es))"
  using assms by (simp add: hosts_from_entries_def foldl_hosts_insert_exact split: option.splits)

section \<open>The answer\<close>

lemma hosts_lookup_Some:
  assumes "hosts_lookup m query = Some resp"
  obtains q qs addrs where "queries query = q # qs" "hosts_find m (norm_name (q_name q)) = Some addrs"
    "msg_id resp = msg_id query" "msg_type resp = Response_type" "rcode resp = NoError"
    "op_code resp = op_code query" "recursion_desired resp = recursion_desired query"
    "recursion_available resp" "queries resp = [q]"
    "answers resp = (if q_type q = RT_A \<or> q_type q = RT_AAAA
       then List.map_filter (host_record (q_type q) (q_name q)) addrs else [])"
  using assms
  by (auto simp: hosts_lookup_def Let_def foldl_add_answer split: list.splits option.splits)

lemma host_record_Some:
  "host_record qt owner ip = Some r \<Longrightarrow>
     rr_name r = owner \<and> rr_ttl r = HOSTS_TTL \<and>
     (case ip of V4 a \<Rightarrow> qt = RT_A \<and> rr_data r = RData_A a
               | V6 b \<Rightarrow> qt = RT_AAAA \<and> rr_data r = RData_AAAA b)"
  by (auto simp: host_record_def split: ip_addr.splits if_splits)

section \<open>What the component guarantees\<close>

text \<open>C27. Name resolution of the custom hosts: an exact entry always wins; otherwise the
  address list comes from the wildcard entry with the longest base of which the name is a
  proper subdomain, and there is no answer at all exactly when the name has no exact entry
  and no wildcard base above it.\<close>

theorem hosts_find_most_specific:
  "(hosts_find m n = Some v \<longleftrightarrow> hm_exact m n = Some v \<or>
      hm_exact m n = None \<and> (\<exists>b. is_strict_subdomain n b \<and> hm_wildcard m b = Some v \<and>
        \<not> (\<exists>b'. is_strict_subdomain n b' \<and> hm_wildcard m b' \<noteq> None \<and> length b < length b'))) \<and>
   (hosts_find m n = None \<longleftrightarrow> hm_exact m n = None \<and>
      \<not> (\<exists>b. is_strict_subdomain n b \<and> hm_wildcard m b \<noteq> None))"
proof -
  have "find_wildcard w n = Some v \<longleftrightarrow> (\<exists>b. is_strict_subdomain n b \<and> w b = Some v \<and>
      \<not> (\<exists>b'. is_strict_subdomain n b' \<and> w b' \<noteq> None \<and> length b < length b'))" for w
    unfolding find_wildcard_Some_iff by (meson not_less)
  moreover have "find_wildcard w n = None \<longleftrightarrow> \<not> (\<exists>b. is_strict_subdomain n b \<and> w b \<noteq> None)" for w
    by (auto simp: find_wildcard_None_iff)
  ultimately show ?thesis by (cases "hm_exact m n") (simp_all add: hosts_find_def)
qed

text \<open>The wildcard table is filled the same way from the entries that start with \<open>*.\<close>.\<close>

lemma hosts_insert_wildcard:
  "hm_wildcard (hosts_insert m e) b =
     (if norm_name (he_name e) = ''*.'' @ b then Some (he_addrs e) else hm_wildcard m b)"
proof (cases "strip_prefix ''*.'' (norm_name (he_name e))")
  case None
  then have "norm_name (he_name e) \<noteq> ''*.'' @ b" by (auto simp: strip_prefix_def)
  with None show ?thesis by (simp add: hosts_insert_def Let_def)
next
  case (Some base)
  then have "norm_name (he_name e) = ''*.'' @ base" by (simp add: strip_prefix_Some_iff)
  with Some show ?thesis by (auto simp: hosts_insert_def Let_def)
qed

lemma foldl_hosts_insert_wildcard:
  "hm_wildcard (foldl hosts_insert m es) b =
     (case List.find (\<lambda>e. norm_name (he_name e) = ''*.'' @ b) (rev es) of
        Some e \<Rightarrow> Some (he_addrs e) | None \<Rightarrow> hm_wildcard m b)"
proof (induction es arbitrary: m)
  case (Cons e es)
  then show ?case
    by (simp add: hosts_insert_wildcard find_append split: option.split)
qed simp

lemma hosts_from_entries_wildcard:
  "hm_wildcard (hosts_from_entries es) b =
     map_option he_addrs (List.find (\<lambda>e. norm_name (he_name e) = ''*.'' @ b) (rev es))"
  by (simp add: hosts_from_entries_def foldl_hosts_insert_wildcard split: option.splits)

text \<open>The two tables hold, for every normalized name, the addresses of the last entry of
  the configuration that spells it (case and trailing dots aside): entries \<open>*.base\<close> in the
  wildcard table under the base, all others in the exact table.\<close>

theorem hosts_tables:
  "hm_wildcard (hosts_from_entries es) b =
      map_option he_addrs (List.find (\<lambda>e. norm_name (he_name e) = ''*.'' @ b) (rev es)) \<and>
   hm_exact (hosts_from_entries es) n = (if starts_with ''*.'' n then None else
      map_option he_addrs (List.find (\<lambda>e. norm_name (he_name e) = n) (rev es)))"
proof -
  have "hm_exact (hosts_from_entries es) n = None" if "strip_prefix ''*.'' n \<noteq> None"
    using that by (auto simp: hosts_from_entries_def foldl_hosts_insert_exact split: option.splits)
  moreover have "starts_with ''*.'' n \<longleftrightarrow> strip_prefix ''*.'' n \<noteq> None"
    by (simp add: starts_with_def strip_prefix_def)
  ultimately show ?thesis
    by (simp add: hosts_from_entries_wildcard hosts_from_entries_exact)
qed

text \<open>The reply to a query for a custom host: the query's identifier, opcode, recursion
  flag and first question, no error, and for an address query one record per configured
  address of the asked family, in configuration order, under the asked name with the fixed
  lifetime; a query of another type gets an empty answer section. Names outside the tables
  and queries without a question are left to the rest of the pipeline.\<close>

theorem hosts_lookup_reply:
  "(hosts_lookup m query = None \<longleftrightarrow>
      queries query = [] \<or> hosts_find m (norm_name (q_name (hd (queries query)))) = None) \<and>
   (\<forall>resp. hosts_lookup m query = Some resp \<longrightarrow>
      (let q = hd (queries query); addrs = the (hosts_find m (norm_name (q_name q))) in
       msg_id resp = msg_id query \<and> op_code resp = op_code query \<and> msg_type resp = Response_type \<and>
       rcode resp = NoError \<and> recursion_desired resp = recursion_desired query \<and>
       recursion_available resp \<and> queries resp = [q] \<and>
       map rr_data (answers resp) =
         (if q_type q = RT_A then map RData_A [a. V4 a \<leftarrow> addrs]
          else if q_type q = RT_AAAA then map RData_AAAA [a. V6 a \<leftarrow> addrs] else []) \<and>
       list_all (\<lambda>r. rr_name r = q_name q \<and> rr_ttl r = 300) (answers resp)))"
proof -
  have A: "map rr_data (List.map_filter (host_record RT_A n) xs) = map RData_A [a. V4 a \<leftarrow> xs]"
    and AAAA: "map rr_data (List.map_filter (host_record RT_AAAA n) xs) = map RData_AAAA [a. V6 a \<leftarrow> xs]" for n xs
    by (induction xs)
      (auto simp: List.map_filter_simps host_record_def RT_A_def RT_AAAA_def split: ip_addr.splits)
  have frame: "list_all (\<lambda>r. rr_name r = n \<and> rr_ttl r = 300) (List.map_filter (host_record t n) xs)" for t n xs
    by (auto simp: list_all_iff List.map_filter_def dest: host_record_Some [unfolded HOSTS_TTL_def])
  have none: "hosts_lookup m query = None \<longleftrightarrow>
      queries query = [] \<or> hosts_find m (norm_name (q_name (hd (queries query)))) = None"
    by (auto simp: hosts_lookup_def Let_def split: list.splits option.splits)
  have ne: "RT_AAAA \<noteq> RT_A" by (simp add: RT_A_def RT_AAAA_def)
  show ?thesis
    by (rule conjI [OF none], intro allI impI, erule hosts_lookup_Some)
      (auto simp: Let_def A AAAA frame ne)
qed

lemma hosts_lookup_reply_witness:
  "let m = hosts_from_entries [\<lparr>he_name = ''*.Lan.'', he_addrs = [V6 7, V4 5]\<rparr>];
       query = add_query \<lparr>q_name = ''a.LAN.'', q_type = RT_A\<rparr> (message_new 3 Query_type 0)
   in \<exists>resp. hosts_lookup m query = Some resp \<and> msg_id resp = 3 \<and> map rr_data (answers resp) = [RData_A 5]"
proof -
  let ?m = "hosts_from_entries [\<lparr>he_name = ''*.Lan.'', he_addrs = [V6 7, V4 5]\<rparr>]"
  let ?q = "add_query \<lparr>q_name = ''a.LAN.'', q_type = RT_A\<rparr> (message_new 3 Query_type 0)"
  have "hosts_find ?m (norm_name ''a.LAN.'') = Some [V6 7, V4 5]"
    by (simp add: hosts_from_entries_def hosts_insert_def hosts_find_def find_wildcard.simps eval_simps)
  then show ?thesis
    using hosts_lookup_reply [of ?m ?q] by (auto simp: Let_def)
qed

end
