(* ===== verification/Ad_Filter.thy ===== *)
theory Ad_Filter
  imports Config Dns_Message Suffix_Walk
begin

text \<open>
  \<open>src/filter.rs\<close>: the ad blocker. A rule set is two sets of normalized domains; matching
  walks the suffixes of a name. Reading a rule file and fetching a rule URL are parameters,
  as is the parser of the update interval (the humantime library).
\<close>

definition BLOCK_TTL :: u32 where
  "BLOCK_TTL = 300"

definition valid_domain :: "string \<Rightarrow> bool" where
  "valid_domain s \<longleftrightarrow> s \<noteq> [] \<and>
     (\<forall>c \<in> set s. c \<notin> {CHR ''/'', CHR ''*'', CHR ''$'', CHR ''|'', CHR ''^'', CHR '' '', CHR 0x09}) \<and>
     CHR ''.'' \<in> set s"

record rule_set =
  blocked :: "string set"
  exceptions :: "string set"

definition rule_set_empty :: rule_set where
  "rule_set_empty = \<lparr>blocked = {}, exceptions = {}\<rparr>"

definition rules_merge :: "rule_set \<Rightarrow> rule_set \<Rightarrow> rule_set" where
  "rules_merge a b = \<lparr>blocked = blocked a \<union> blocked b, exceptions = exceptions a \<union> exceptions b\<rparr>"

definition rules_len :: "rule_set \<Rightarrow> nat \<times> nat" where
  "rules_len r = (card (blocked r), card (exceptions r))"

section \<open>Parsing\<close>

definition add_blocked :: "string \<Rightarrow> rule_set \<Rightarrow> rule_set" where
  "add_blocked raw r = (let d = norm_name raw in
     if valid_domain d then r\<lparr>blocked := insert d (blocked r)\<rparr> else r)"

definition add_exception :: "string \<Rightarrow> rule_set \<Rightarrow> rule_set" where
  "add_exception raw r = (let d = norm_name raw in
     if valid_domain d then r\<lparr>exceptions := insert d (exceptions r)\<rparr> else r)"

text \<open>One line of a rule file; the cases in the order the code tries them.\<close>

definition parse_rule_line :: "rule_set \<Rightarrow> string \<Rightarrow> rule_set" where
  "parse_rule_line r raw =
     (let line = trim raw in
      if line = [] \<or> starts_with ''!'' line \<or> starts_with ''#'' line then r
      else case strip_prefix ''@@||'' line of
        Some rest \<Rightarrow> add_exception (split_first ''^$'' rest) r
      | None \<Rightarrow>
          (case strip_prefix ''||'' line of
             Some rest \<Rightarrow> add_blocked (split_first ''^$'' rest) r
           | None \<Rightarrow>
               (let line = trim (split_first ''#'' line) in
                case split_whitespace line of
                  [] \<Rightarrow> r
                | [first] \<Rightarrow> add_blocked first r
                | first # second # _ \<Rightarrow> if parse_ip first \<noteq> None then add_blocked second r else r)))"

definition parse_rules :: "string \<Rightarrow> rule_set" where
  "parse_rules text = foldl parse_rule_line rule_set_empty (lines text)"

section \<open>Matching\<close>

record ad_filter =
  rules :: rule_set
  f_allowlist :: "string set"

definition filter_new :: "string list \<Rightarrow> ad_filter" where
  "filter_new allow = \<lparr>rules = rule_set_empty, f_allowlist = set (map norm_name allow)\<rparr>"

definition filter_store :: "ad_filter \<Rightarrow> rule_set \<Rightarrow> ad_filter" where
  "filter_store f r = f\<lparr>rules := r\<rparr>"

text \<open>Both loops of \<open>is_blocked\<close>: test the candidate, else drop its leftmost label.\<close>

function suffix_hit :: "(string \<Rightarrow> bool) \<Rightarrow> string \<Rightarrow> bool" where
  "suffix_hit P candidate =
     (if P candidate then True
      else case after_char (CHR ''.'') candidate of None \<Rightarrow> False | Some r \<Rightarrow> suffix_hit P r)"
  by pat_completeness auto
termination
  by (relation "measure (\<lambda>(P, s). length s)") (auto dest: after_char_length)

declare suffix_hit.simps [simp del]

definition is_blocked :: "ad_filter \<Rightarrow> string \<Rightarrow> bool" where
  "is_blocked f raw =
     (let name = norm_name raw in
      if suffix_hit (\<lambda>c. c \<in> f_allowlist f \<or> c \<in> exceptions (rules f)) name then False
      else suffix_hit (\<lambda>c. c \<in> blocked (rules f)) name)"

definition block_response :: "message \<Rightarrow> message" where
  "block_response query =
     (let resp = message_new (msg_id query) Response_type (op_code query);
          resp = resp\<lparr>rcode := NoError\<rparr>;
          resp = resp\<lparr>recursion_desired := recursion_desired query\<rparr>;
          resp = resp\<lparr>recursion_available := True\<rparr>
      in case queries query of
           [] \<Rightarrow> resp
         | q # _ \<Rightarrow>
             (let resp = add_query q resp; owner = q_name q in
              if q_type q = RT_A
              then add_answer \<lparr>rr_name = owner, rr_ttl = BLOCK_TTL, rr_data = RData_A 0\<rparr> resp
              else if q_type q = RT_AAAA
              then add_answer \<lparr>rr_name = owner, rr_ttl = BLOCK_TTL, rr_data = RData_AAAA 0\<rparr> resp
              else resp))"

section \<open>Loading and refreshing\<close>

text \<open>What fetching a rule URL can come to; a fetched body is decoded lossily to text.\<close>

datatype fetch_outcome = Fetched string | Fetch_failed | Fetch_timed_out

definition source_text :: "(string \<Rightarrow> string option) \<Rightarrow> (string \<Rightarrow> fetch_outcome) \<Rightarrow> rule_source \<Rightarrow> string option" where
  "source_text read fetch s = (case rs_path s of
     Some path \<Rightarrow> read path
   | None \<Rightarrow> (case rs_url s of
       Some url \<Rightarrow> (case fetch url of Fetched t \<Rightarrow> Some t | Fetch_failed \<Rightarrow> None | Fetch_timed_out \<Rightarrow> None)
     | None \<Rightarrow> None))"

definition load_sources :: "(string \<Rightarrow> string option) \<Rightarrow> (string \<Rightarrow> fetch_outcome) \<Rightarrow> rule_source list \<Rightarrow> rule_set" where
  "load_sources read fetch sources =
     foldl (\<lambda>m s. case source_text read fetch s of None \<Rightarrow> m | Some t \<Rightarrow> rules_merge m (parse_rules t))
       rule_set_empty sources"

definition min_interval :: "(string \<Rightarrow> duration option) \<Rightarrow> rule_source list \<Rightarrow> duration option" where
  "min_interval parse_duration sources =
     foldl (\<lambda>acc s. case (rs_url s, rs_update_interval s) of
              (Some _, Some iv) \<Rightarrow>
                (case parse_duration iv of
                   Some d \<Rightarrow> if d = 0 then acc
                            else Some (case acc of None \<Rightarrow> d | Some m \<Rightarrow> min m d)
                 | None \<Rightarrow> acc)
            | _ \<Rightarrow> acc)
       None sources"

text \<open>One tick of the background updater: an empty reload keeps the old set.\<close>

definition updater_tick :: "ad_filter \<Rightarrow> rule_set \<Rightarrow> ad_filter" where
  "updater_tick f loaded = (if fst (rules_len loaded) = 0 then f else filter_store f loaded)"

section \<open>Matching is membership of a parent domain\<close>

interpretation filter_walk: suffix_search
  "\<lambda>s. if suffix_hit P s then Some () else None" "\<lambda>s. if P s then Some () else None" for P
  by unfold_locales (simp add: suffix_hit.simps split: option.splits)

lemma suffix_hit_iff: "suffix_hit P s \<longleftrightarrow> (\<exists>b. is_subdomain s b \<and> P b)"
  using filter_walk.search_None_iff [of P s] by (auto split: if_splits)

lemma is_blocked_iff:
  "is_blocked f raw \<longleftrightarrow>
     (\<exists>d \<in> blocked (rules f). is_subdomain (norm_name raw) d) \<and>
     \<not> (\<exists>d \<in> f_allowlist f \<union> exceptions (rules f). is_subdomain (norm_name raw) d)"
  by (auto simp: is_blocked_def Let_def suffix_hit_iff)

section \<open>What parsing produces\<close>

definition wf_rules :: "rule_set \<Rightarrow> bool" where
  "wf_rules r \<longleftrightarrow> finite (blocked r) \<and> finite (exceptions r) \<and>
     (\<forall>d \<in> blocked r \<union> exceptions r. valid_domain d \<and> norm_name d = d)"

lemma wf_rules_empty [wf_intros]: "wf_rules rule_set_empty"
  by (simp add: wf_rules_def rule_set_empty_def)

lemma wf_add_blocked [wf_intros]: "wf_rules r \<Longrightarrow> wf_rules (add_blocked raw r)"
  by (auto simp: wf_rules_def add_blocked_def Let_def)

lemma wf_add_exception [wf_intros]: "wf_rules r \<Longrightarrow> wf_rules (add_exception raw r)"
  by (auto simp: wf_rules_def add_exception_def Let_def)

lemma wf_rules_merge [wf_intros]: "wf_rules a \<Longrightarrow> wf_rules b \<Longrightarrow> wf_rules (rules_merge a b)"
  by (auto simp: wf_rules_def rules_merge_def)

lemma wf_parse_rule_line [wf_intros]: "wf_rules r \<Longrightarrow> wf_rules (parse_rule_line r raw)"
  by (auto simp: parse_rule_line_def Let_def intro: wf_intros split: option.splits list.splits)

lemma wf_foldl_parse: "wf_rules r \<Longrightarrow> wf_rules (foldl parse_rule_line r ls)"
  by (induction ls arbitrary: r) (simp_all add: wf_parse_rule_line)

lemma wf_parse_rules [wf_intros]: "wf_rules (parse_rules text)"
  unfolding parse_rules_def by (intro wf_foldl_parse wf_rules_empty)

text \<open>Parsing only ever adds rules, so a line is worth the same wherever it stands.\<close>

definition rules_le :: "rule_set \<Rightarrow> rule_set \<Rightarrow> bool" where
  "rules_le a b \<longleftrightarrow> blocked a \<subseteq> blocked b \<and> exceptions a \<subseteq> exceptions b"

lemma parse_rule_line_merge:
  "parse_rule_line r raw = rules_merge r (parse_rule_line rule_set_empty raw)"
  by (auto simp: parse_rule_line_def add_blocked_def add_exception_def rules_merge_def
      rule_set_empty_def Let_def split: option.splits list.splits)

lemma rules_merge_assoc: "rules_merge (rules_merge a b) c = rules_merge a (rules_merge b c)"
  by (simp add: rules_merge_def Un_assoc)

lemma rules_merge_empty [simp]: "rules_merge rule_set_empty r = r" "rules_merge r rule_set_empty = r"
  by (simp_all add: rules_merge_def rule_set_empty_def)

lemma foldl_parse_merge:
  "foldl parse_rule_line r ls = rules_merge r (foldl parse_rule_line rule_set_empty ls)"
proof (induction ls arbitrary: r)
  case (Cons l ls)
  have "foldl parse_rule_line r (l # ls) =
      rules_merge (parse_rule_line r l) (foldl parse_rule_line rule_set_empty ls)"
    using Cons [of "parse_rule_line r l"] by simp
  also have "\<dots> = rules_merge r (rules_merge (parse_rule_line rule_set_empty l)
      (foldl parse_rule_line rule_set_empty ls))"
    by (subst parse_rule_line_merge) (simp add: rules_merge_assoc)
  also have "\<dots> = rules_merge r (foldl parse_rule_line rule_set_empty (l # ls))"
    using Cons [of "parse_rule_line rule_set_empty l"] by simp
  finally show ?case .
qed simp

lemma blocked_parse_rules:
  "blocked (parse_rules text) = (\<Union>l \<in> set (lines text). blocked (parse_rule_line rule_set_empty l))"
  "exceptions (parse_rules text) = (\<Union>l \<in> set (lines text). exceptions (parse_rule_line rule_set_empty l))"
proof -
  have "blocked (foldl parse_rule_line rule_set_empty ls) =
        (\<Union>l \<in> set ls. blocked (parse_rule_line rule_set_empty l)) \<and>
      exceptions (foldl parse_rule_line rule_set_empty ls) =
        (\<Union>l \<in> set ls. exceptions (parse_rule_line rule_set_empty l))" for ls
  proof (induction ls)
    case (Cons l ls)
    then show ?case
      using foldl_parse_merge [of "parse_rule_line rule_set_empty l" ls]
      by (simp add: rules_merge_def)
  qed (simp add: rule_set_empty_def)
  then show "blocked (parse_rules text) = (\<Union>l \<in> set (lines text). blocked (parse_rule_line rule_set_empty l))"
    "exceptions (parse_rules text) = (\<Union>l \<in> set (lines text). exceptions (parse_rule_line rule_set_empty l))"
    by (simp_all add: parse_rules_def)
qed

section \<open>Loading\<close>

lemma load_sources_eq:
  "load_sources read fetch sources =
     \<lparr>blocked = (\<Union>t \<in> set (List.map_filter (source_text read fetch) sources). blocked (parse_rules t)),
      exceptions = (\<Union>t \<in> set (List.map_filter (source_text read fetch) sources). exceptions (parse_rules t))\<rparr>"
proof -
  let ?step = "\<lambda>m s. case source_text read fetch s of None \<Rightarrow> m | Some t \<Rightarrow> rules_merge m (parse_rules t)"
  have "foldl ?step r ss = rules_merge r
     \<lparr>blocked = (\<Union>t \<in> set (List.map_filter (source_text read fetch) ss). blocked (parse_rules t)),
      exceptions = (\<Union>t \<in> set (List.map_filter (source_text read fetch) ss). exceptions (parse_rules t))\<rparr>" for r ss
    by (induction ss arbitrary: r)
      (auto simp: rules_merge_def List.map_filter_simps split: option.splits)
  from this [of rule_set_empty sources] show ?thesis
    by (simp add: load_sources_def)
qed

lemma wf_load_sources [wf_intros]: "wf_rules (load_sources read fetch sources)"
  using wf_parse_rules by (fastforce simp: load_sources_eq wf_rules_def)

text \<open>The updater's period is the least non-zero interval among the scheduled URL sources.\<close>

definition source_interval :: "(string \<Rightarrow> duration option) \<Rightarrow> rule_source \<Rightarrow> duration option" where
  "source_interval parse_duration s = (case (rs_url s, rs_update_interval s) of
     (Some _, Some iv) \<Rightarrow> (case parse_duration iv of
        Some d \<Rightarrow> if d = 0 then None else Some d | None \<Rightarrow> None)
   | _ \<Rightarrow> None)"

lemma min_interval_fold:
  "min_interval parse_duration sources =
     (case List.map_filter (source_interval parse_duration) sources of
        [] \<Rightarrow> None | d # ds \<Rightarrow> Some (foldl min d ds))"
proof -
  let ?step = "\<lambda>acc s. case (rs_url s, rs_update_interval s) of
              (Some _, Some iv) \<Rightarrow>
                (case parse_duration iv of
                   Some d \<Rightarrow> if d = 0 then acc
                            else Some (case acc of None \<Rightarrow> d | Some m \<Rightarrow> min m d)
                 | None \<Rightarrow> acc)
            | _ \<Rightarrow> acc"
  have step: "?step acc s = (case source_interval parse_duration s of None \<Rightarrow> acc
      | Some d \<Rightarrow> Some (case acc of None \<Rightarrow> d | Some m \<Rightarrow> min m d))" for acc s
    by (auto simp: source_interval_def split: option.splits)
  have "foldl ?step acc ss = (case (acc, List.map_filter (source_interval parse_duration) ss) of
      (None, []) \<Rightarrow> None | (None, d # ds) \<Rightarrow> Some (foldl min d ds)
    | (Some m, ds) \<Rightarrow> Some (foldl min m ds))" for acc ss
    unfolding step
    by (induction ss arbitrary: acc)
      (auto simp: List.map_filter_simps split: option.splits list.splits)
  from this [of None sources] show ?thesis by (simp add: min_interval_def)
qed

section \<open>What the component guarantees\<close>

text \<open>C14. Blocking, from the rule texts to the verdict: with the rules of a set of sources
  loaded, a name (in any case, with or without trailing dots) is blocked exactly when it is
  or lies below a domain that some line of some readable source blocks, and neither it nor
  a domain above it is on the allow list or excepted by a line of a readable source.\<close>

theorem blocking_semantics:
  "is_blocked (filter_store (filter_new allow) (load_sources read fetch sources)) name \<longleftrightarrow>
     (let ls = (\<Union>t \<in> set (List.map_filter (source_text read fetch) sources). set (lines t)) in
      (\<exists>l \<in> ls. \<exists>d \<in> blocked (parse_rule_line rule_set_empty l). is_subdomain (norm_name name) d) \<and>
      \<not> (\<exists>a \<in> set allow. is_subdomain (norm_name name) (norm_name a)) \<and>
      \<not> (\<exists>l \<in> ls. \<exists>d \<in> exceptions (parse_rule_line rule_set_empty l). is_subdomain (norm_name name) d))"
proof -
  let ?B = "blocked (load_sources read fetch sources)" and ?E = "exceptions (load_sources read fetch sources)"
  have "is_blocked (filter_store (filter_new allow) (load_sources read fetch sources)) name \<longleftrightarrow>
      (\<exists>d \<in> ?B. is_subdomain (norm_name name) d) \<and>
      \<not> (\<exists>d \<in> norm_name ` set allow \<union> ?E. is_subdomain (norm_name name) d)"
    by (simp add: is_blocked_iff filter_store_def filter_new_def)
  moreover have "?B = (\<Union>t \<in> set (List.map_filter (source_text read fetch) sources).
      \<Union>l \<in> set (lines t). blocked (parse_rule_line rule_set_empty l))"
    and "?E = (\<Union>t \<in> set (List.map_filter (source_text read fetch) sources).
      \<Union>l \<in> set (lines t). exceptions (parse_rule_line rule_set_empty l))"
    by (simp_all add: load_sources_eq blocked_parse_rules)
  ultimately show ?thesis by (simp add: Let_def bex_Un)
qed

text \<open>The pieces of a rule line around a plain domain.\<close>

definition plain_domain :: "string \<Rightarrow> bool" where
  "plain_domain d \<longleftrightarrow> valid_domain d \<and> norm_name d = d \<and> hd d \<noteq> CHR ''!'' \<and>
     list_all (\<lambda>c. \<not> is_ws c \<and> c \<noteq> CHR ''#'') d"

lemma plain_domainD:
  assumes "plain_domain d"
  shows "d \<noteq> []" "\<not> is_ws (hd d)" "\<not> is_ws (last d)" "hd d \<noteq> CHR ''!''"
    "\<forall>c \<in> set d. \<not> is_ws c \<and> c \<notin> {CHR ''#'', CHR ''^'', CHR ''$'', CHR ''|''}"
  using assms by (auto simp: plain_domain_def valid_domain_def list_all_iff)

lemma trim_id: "s \<noteq> [] \<Longrightarrow> \<not> is_ws (hd s) \<Longrightarrow> \<not> is_ws (last s) \<Longrightarrow> trim s = s"
  by (simp add: trim_def dropWhile_eq_self hd_rev)

lemma split_whitespace_word:
  assumes "w \<noteq> []" and "\<forall>c \<in> set w. \<not> is_ws c"
  shows "split_whitespace w = [w]" "split_whitespace (w @ '' '' @ s) = w # split_whitespace ('' '' @ s)"
proof -
  have d: "dropWhile is_ws (w @ t) = w @ t" for t using assms by (cases w) auto
  have t: "takeWhile (\<lambda>c. \<not> is_ws c) (w @ '' '' @ s) = w" "dropWhile (\<lambda>c. \<not> is_ws c) (w @ '' '' @ s) = '' '' @ s"
    using assms(2) by (simp_all add: is_ws_def takeWhile_append2 dropWhile_append2)
  have "split_whitespace [] = []" by (simp add: split_whitespace.simps)
  moreover have "takeWhile (\<lambda>c. \<not> is_ws c) w = w" "dropWhile (\<lambda>c. \<not> is_ws c) w = []"
    using assms(2) by (simp_all add: takeWhile_eq_all_conv dropWhile_eq_Nil_conv)
  ultimately show "split_whitespace w = [w]"
    using d [of "[]"] assms(1)
    by (subst split_whitespace.simps) (simp only: Let_def append_Nil2 if_False)
  show "split_whitespace (w @ '' '' @ s) = w # split_whitespace ('' '' @ s)"
    using d [of "'' '' @ s"] t assms(1) by (subst split_whitespace.simps) (simp add: Let_def)
qed

lemma split_whitespace_space: "split_whitespace (CHR '' '' # s) = split_whitespace s"
  by (simp add: split_whitespace.simps [of "CHR '' '' # s"] split_whitespace.simps [of s] is_ws_def)

lemma takeWhile_prefix: "\<forall>c \<in> set a. P c \<Longrightarrow> \<not> P x \<Longrightarrow> takeWhile P (a @ x # b) = a"
  by (induction a) auto

text \<open>The rule formats: for an ordinary domain, \<open>||domain^\<close> and the bare domain and a
  hosts-file line block exactly that domain, \<open>@@||domain^\<close> excepts exactly that domain, and
  a comment line adds nothing.\<close>

theorem rule_formats:
  assumes "plain_domain d"
  shows "parse_rule_line r (''||'' @ d @ ''^'') = r\<lparr>blocked := insert d (blocked r)\<rparr> \<and>
    parse_rule_line r d = r\<lparr>blocked := insert d (blocked r)\<rparr> \<and>
    parse_rule_line r (''0.0.0.0 '' @ d) = r\<lparr>blocked := insert d (blocked r)\<rparr> \<and>
    parse_rule_line r (''@@||'' @ d @ ''^'') = r\<lparr>exceptions := insert d (exceptions r)\<rparr> \<and>
    parse_rule_line r (''! '' @ d) = r \<and> parse_rule_line r (''# '' @ d) = r"
proof -
  note D = plain_domainD [OF assms]
  have cut: "split_first ''^$'' (d @ ''^'') = d"
    using D(5) by (auto simp: split_first_def intro: takeWhile_prefix)
  have block: "add_blocked d r = r\<lparr>blocked := insert d (blocked r)\<rparr>"
      "add_exception d r = r\<lparr>exceptions := insert d (exceptions r)\<rparr>"
    using assms by (simp_all add: add_blocked_def add_exception_def plain_domain_def)
  have edge: "\<not> is_ws c" if "c \<in> {CHR ''|'', CHR ''@'', CHR ''!'', CHR ''#'', CHR ''^'', CHR ''0''}" for c
    using that by (auto simp: is_ws_def)
  have p1: "parse_rule_line r (''||'' @ d @ ''^'') = r\<lparr>blocked := insert d (blocked r)\<rparr>"
    and p2: "parse_rule_line r (''@@||'' @ d @ ''^'') = r\<lparr>exceptions := insert d (exceptions r)\<rparr>"
    using trim_id [of "''||'' @ d @ ''^''"] trim_id [of "''@@||'' @ d @ ''^''"] cut block
    by (simp_all add: parse_rule_line_def Let_def edge starts_with_def strip_prefix_def)
  have c: "parse_rule_line r (''! '' @ d) = r" "parse_rule_line r (''# '' @ d) = r"
    using D(1,3) trim_id [of "''! '' @ d"] trim_id [of "''# '' @ d"]
    by (simp_all add: parse_rule_line_def edge starts_with_def)
  have no_hash: "split_first ''#'' d = d" "split_first ''#'' (''0.0.0.0 '' @ d) = ''0.0.0.0 '' @ d"
    using D(5) by (auto simp: split_first_def takeWhile_eq_all_conv)
  have "strip_prefix p d = None" if "CHR ''|'' \<in> set p" for p
  proof (rule ccontr)
    assume "strip_prefix p d \<noteq> None"
    then obtain t where "d = p @ t" using strip_prefix_Some_iff by blast
    with that D(5) show False by auto
  qed
  then have prefix: "strip_prefix ''||'' d = None" "strip_prefix ''@@||'' d = None"
    by simp_all
  have comment: "\<not> starts_with ''!'' d" "\<not> starts_with ''#'' d"
    using D(1,5) assms by (cases d; auto simp: starts_with_def plain_domain_def)+
  have p3: "parse_rule_line r d = r\<lparr>blocked := insert d (blocked r)\<rparr>"
    using D(1-3) prefix comment no_hash split_whitespace_word(1) [of d] D(5) block
    by (simp add: parse_rule_line_def Let_def trim_id)
  have ip: "parse_ip ''0.0.0.0'' \<noteq> None" by (simp add: eval_simps)
  have "split_whitespace (''0.0.0.0'' @ '' '' @ d) = [''0.0.0.0'', d]"
    using D(1,5) by (subst split_whitespace_word(2)) (simp_all add: is_ws_def split_whitespace_space split_whitespace_word)
  with D(1,3) no_hash(2) ip block trim_id [of "''0.0.0.0 '' @ d"]
  have p4: "parse_rule_line r (''0.0.0.0 '' @ d) = r\<lparr>blocked := insert d (blocked r)\<rparr>"
    by (simp add: parse_rule_line_def Let_def edge starts_with_def strip_prefix_def)
  from p1 p2 p3 p4 c show ?thesis by blast
qed

lemma rule_formats_witness:
  "parse_rule_line rule_set_empty ''||ads.example^'' = \<lparr>blocked = {''ads.example''}, exceptions = {}\<rparr>"
proof -
  have "plain_domain ''ads.example''" by (simp add: plain_domain_def valid_domain_def eval_simps)
  then show ?thesis using rule_formats [of "''ads.example''" rule_set_empty] by (simp add: rule_set_empty_def)
qed

text \<open>
  The background updater: the environment supplies what the sources hold at each tick.
\<close>

definition updater_run ::
  "rule_source list \<Rightarrow> ad_filter \<Rightarrow> ((string \<Rightarrow> string option) \<times> (string \<Rightarrow> fetch_outcome)) list \<Rightarrow> ad_filter" where
  "updater_run sources f ticks = foldl (\<lambda>f (read, fetch). updater_tick f (load_sources read fetch sources)) f ticks"

lemma updater_run_simps [simp]:
  "updater_run sources f [] = f"
  "updater_run sources f ((read, fetch) # ticks) =
     updater_run sources (updater_tick f (load_sources read fetch sources)) ticks"
  by (simp_all add: updater_run_def)

lemma updater_tick_cases:
  "updater_tick f loaded = f \<or> updater_tick f loaded = f\<lparr>rules := loaded\<rparr>"
  by (auto simp: updater_tick_def filter_store_def)

lemma updater_tick_nonempty:
  "finite (blocked loaded) \<Longrightarrow> blocked (rules f) \<noteq> {} \<Longrightarrow> blocked (rules (updater_tick f loaded)) \<noteq> {}"
  by (auto simp: updater_tick_def filter_store_def rules_len_def)

text \<open>C28. Refreshing: whatever the sources return over any number of ticks (unreadable files,
  failed or timed-out downloads, empty texts), the active rules stay well-formed, the allow
  list is untouched, a filter that blocks something never loses all its rules, and the
  active set is always the initial one or one complete load, never a mixture.\<close>

theorem updater_never_disarms:
  assumes "wf_rules (rules f)"
  shows "let f' = updater_run sources f ticks in
     wf_rules (rules f') \<and> f_allowlist f' = f_allowlist f \<and>
     (blocked (rules f) \<noteq> {} \<longrightarrow> blocked (rules f') \<noteq> {}) \<and>
     rules f' \<in> insert (rules f) ((\<lambda>(read, fetch). load_sources read fetch sources) ` set ticks)"
  using assms unfolding Let_def
proof (induction ticks arbitrary: f)
  case (Cons tick ticks)
  obtain read fetch where tick: "tick = (read, fetch)" by (cases tick)
  let ?l = "load_sources read fetch sources" and ?f = "updater_tick f (load_sources read fetch sources)"
  have l: "wf_rules ?l" by (rule wf_load_sources)
  then have f: "wf_rules (rules ?f)" "f_allowlist ?f = f_allowlist f" "rules ?f \<in> {rules f, ?l}"
    using updater_tick_cases [of f ?l] Cons.prems by auto
  moreover have "blocked (rules f) \<noteq> {} \<Longrightarrow> blocked (rules ?f) \<noteq> {}"
    using l by (auto simp: wf_rules_def dest: updater_tick_nonempty)
  ultimately show ?case using Cons.IH [OF f(1)] by (auto simp: tick)
qed simp

lemma updater_never_disarms_witness:
  "rules (updater_run [\<lparr>rs_path = Some ''r'', rs_url = None, rs_update_interval = None\<rparr>]
      \<lparr>rules = \<lparr>blocked = {''a.b''}, exceptions = {}\<rparr>, f_allowlist = {}\<rparr>
      [(\<lambda>_. None, \<lambda>_. Fetch_failed)]) = \<lparr>blocked = {''a.b''}, exceptions = {}\<rparr>"
proof -
  let ?f = "\<lparr>rules = \<lparr>blocked = {''a.b''}, exceptions = {}\<rparr>, f_allowlist = {}\<rparr>"
  have "wf_rules (rules ?f)" by (simp add: wf_rules_def valid_domain_def eval_simps)
  from updater_never_disarms [OF this, of "[\<lparr>rs_path = Some ''r'', rs_url = None, rs_update_interval = None\<rparr>]"
      "[(\<lambda>_. None, \<lambda>_. Fetch_failed)]"]
  show ?thesis by (auto simp: Let_def load_sources_def source_text_def rule_set_empty_def)
qed

end
