(* ===== verification/Cache.thy ===== *)
theory Cache
  imports Dns_Message
begin

text \<open>
  \<open>src/cache.rs\<close>: the in-memory LRU cache with an approximate memory budget.

  The linked hash map is the list of its entries from the least to the most recently used,
  with distinct keys. The clock reading of an operation and the answers of the allocator
  (\<open>alloc n\<close>: does the \<open>n\<close>-th reservation of this insertion succeed?) are arguments. A
  poisoned lock, which every operation treats as an absent cache, is the flag \<open>c_poisoned\<close>.
  The two counters are 64-bit and wrap; byte counts are natural numbers, and
  \<open>cache_inv\<close> shows that no subtraction on them can go below zero.
\<close>

section \<open>State\<close>

record cache_key =
  ck_name :: string
  ck_qtype :: u16

definition key_from_query :: "message \<Rightarrow> cache_key option" where
  "key_from_query query = (case queries query of
     [] \<Rightarrow> None
   | q # _ \<Rightarrow> Some \<lparr>ck_name = norm_name (q_name q), ck_qtype = q_type q\<rparr>)"

record cache_entry =
  ce_message :: message
  ce_expires_at :: instant
  ce_cost :: nat

type_synonym entries = "(cache_key \<times> cache_entry) list"

record cache_map =
  cm_entries :: entries
  used_bytes :: nat

record cache =
  c_map :: cache_map
  c_poisoned :: bool
  max_bytes :: nat
  lookups :: u64
  hits :: u64

definition ENTRY_OVERHEAD :: nat where
  "ENTRY_OVERHEAD = 128"

definition entry_cost :: "hickory \<Rightarrow> cache_key \<Rightarrow> message \<Rightarrow> nat" where
  "entry_cost H key m =
     (let wire_len = (case to_vec H m of None \<Rightarrow> 512 | Some bytes \<Rightarrow> length bytes) in
      ENTRY_OVERHEAD + length (ck_name key) + wire_len * 3)"

section \<open>Operations\<close>

definition with_max_bytes :: "nat \<Rightarrow> cache" where
  "with_max_bytes n = \<lparr>c_map = \<lparr>cm_entries = [], used_bytes = 0\<rparr>, c_poisoned = False,
     max_bytes = n, lookups = 0, hits = 0\<rparr>"

definition cache_new :: "nat \<Rightarrow> cache" where
  "cache_new max_memory_mb = with_max_bytes (min (max max_memory_mb 1 * (1024 * 1024)) u64_max)"

definition to_back :: "cache_key \<Rightarrow> entries \<Rightarrow> (cache_entry \<times> entries) option" where
  "to_back key es = (case map_of es key of
     None \<Rightarrow> None
   | Some e \<Rightarrow> Some (e, filter (\<lambda>x. fst x \<noteq> key) es @ [(key, e)]))"

definition cache_get :: "instant \<Rightarrow> cache \<Rightarrow> cache_key \<Rightarrow> u16 \<Rightarrow> (message \<times> bool) option \<times> cache" where
  "cache_get now c key query_id =
     (let c = c\<lparr>lookups := lookups c + 1\<rparr> in
      if c_poisoned c then (None, c)
      else case to_back key (cm_entries (c_map c)) of
        None \<Rightarrow> (None, c)
      | Some (entry, es) \<Rightarrow>
          (let c = c\<lparr>c_map := (c_map c)\<lparr>cm_entries := es\<rparr>, hits := hits c + 1\<rparr>;
               msg = (ce_message entry)\<lparr>msg_id := query_id\<rparr>;
               expired = (now \<ge> ce_expires_at entry)
           in (Some (msg, expired), c)))"

text \<open>Reserve room for one entry; evict the least recently used one after each refusal.\<close>

fun reserve_or_evict :: "(nat \<Rightarrow> bool) \<Rightarrow> nat \<Rightarrow> entries \<Rightarrow> nat \<Rightarrow> bool \<times> entries \<times> nat" where
  "reserve_or_evict alloc n [] used = (alloc n, [], used)"
| "reserve_or_evict alloc n ((k, evicted) # es) used =
     (if alloc n then (True, (k, evicted) # es, used)
      else reserve_or_evict alloc (Suc n) es (used - ce_cost evicted))"

text \<open>The eviction loop after an insertion.\<close>

fun evict_while_over :: "nat \<Rightarrow> entries \<Rightarrow> nat \<Rightarrow> entries \<times> nat" where
  "evict_while_over budget [] used = ([], used)"
| "evict_while_over budget ((k, evicted) # es) used =
     (if used > budget then evict_while_over budget es (used - ce_cost evicted)
      else ((k, evicted) # es, used))"

definition min_ttl :: "message \<Rightarrow> nat" where
  "min_ttl m = (case map (unat \<circ> rr_ttl) (answers m) of [] \<Rightarrow> 60 | t # ts \<Rightarrow> foldl min t ts)"

definition cache_put :: "hickory \<Rightarrow> (nat \<Rightarrow> bool) \<Rightarrow> instant \<Rightarrow> cache \<Rightarrow> cache_key \<Rightarrow> message \<Rightarrow> cache" where
  "cache_put H alloc now c key m =
     (let ttl = min_ttl m; cost = entry_cost H key m in
      if cost > max_bytes c then c
      else let entry = \<lparr>ce_message = m, ce_expires_at = now + from_secs ttl, ce_cost = cost\<rparr> in
        if c_poisoned c then c
        else let es = cm_entries (c_map c); used = used_bytes (c_map c);
                 used = (case map_of es key of None \<Rightarrow> used | Some old \<Rightarrow> used - ce_cost old);
                 es = filter (\<lambda>x. fst x \<noteq> key) es
             in case reserve_or_evict alloc 0 es used of (reserved, es, used) \<Rightarrow>
               if \<not> reserved then c\<lparr>c_map := \<lparr>cm_entries = es, used_bytes = used\<rparr>\<rparr>
               else case evict_while_over (max_bytes c) (es @ [(key, entry)]) (used + cost) of (es, used) \<Rightarrow>
                 c\<lparr>c_map := \<lparr>cm_entries = es, used_bytes = used\<rparr>\<rparr>)"

definition cache_len :: "cache \<Rightarrow> nat" where
  "cache_len c = (if c_poisoned c then 0 else length (cm_entries (c_map c)))"

definition hit_stats :: "cache \<Rightarrow> u64 \<times> u64" where
  "hit_stats c = (lookups c, hits c)"

definition memory_stats :: "cache \<Rightarrow> nat \<times> nat" where
  "memory_stats c = (if c_poisoned c then 0 else used_bytes (c_map c), max_bytes c)"

definition cache_is_empty :: "cache \<Rightarrow> bool" where
  "cache_is_empty c \<longleftrightarrow> cache_len c = 0"

section \<open>The budget invariant\<close>

definition total_cost :: "entries \<Rightarrow> nat" where
  "total_cost es = sum_list (map (ce_cost \<circ> snd) es)"

definition cache_inv :: "cache \<Rightarrow> bool" where
  "cache_inv c \<longleftrightarrow> distinct (map fst (cm_entries (c_map c))) \<and>
     used_bytes (c_map c) = total_cost (cm_entries (c_map c)) \<and>
     used_bytes (c_map c) \<le> max_bytes c"

lemma total_cost_simps [simp]:
  "total_cost [] = 0" "total_cost (x # xs) = ce_cost (snd x) + total_cost xs"
  "total_cost (xs @ ys) = total_cost xs + total_cost ys"
  by (simp_all add: total_cost_def)

lemma total_cost_filter_key:
  assumes "distinct (map fst es)"
  shows "total_cost (filter (\<lambda>x. fst x \<noteq> key) es) =
     (case map_of es key of None \<Rightarrow> total_cost es | Some e \<Rightarrow> total_cost es - ce_cost e)"
    and "map_of es key = Some e \<Longrightarrow> ce_cost e \<le> total_cost es"
proof -
  have notin: "filter (\<lambda>x. fst x \<noteq> key) xs = xs" if "key \<notin> fst ` set xs" for xs :: entries
    using that by (induction xs) auto
  have "total_cost (filter (\<lambda>x. fst x \<noteq> key) es) =
     (case map_of es key of None \<Rightarrow> total_cost es | Some e \<Rightarrow> total_cost es - ce_cost e) \<and>
     (\<forall>e. map_of es key = Some e \<longrightarrow> ce_cost e \<le> total_cost es)"
    using assms
  proof (induction es)
    case (Cons x es)
    then show ?case
      by (cases x) (auto simp: notin split: option.splits)
  qed simp
  then show "total_cost (filter (\<lambda>x. fst x \<noteq> key) es) =
     (case map_of es key of None \<Rightarrow> total_cost es | Some e \<Rightarrow> total_cost es - ce_cost e)"
    and "map_of es key = Some e \<Longrightarrow> ce_cost e \<le> total_cost es"
    by auto
qed

lemma distinct_fst_filter: "distinct (map fst es) \<Longrightarrow> distinct (map fst (filter P es))"
  by (rule distinct_map_filter)

lemma to_back_Some:
  assumes "to_back key es = Some (e, es')" and "distinct (map fst es)"
  shows "map_of es key = Some e" "distinct (map fst es')" "total_cost es' = total_cost es"
    "map_of es' = map_of es" "length es' = length es"
proof -
  from assms(1) have e: "map_of es key = Some e"
    and es': "es' = filter (\<lambda>x. fst x \<noteq> key) es @ [(key, e)]"
    by (auto simp: to_back_def split: option.splits)
  show "map_of es key = Some e" by (rule e)
  show "distinct (map fst es')" using assms(2) es' by (auto simp: distinct_fst_filter)
  show "total_cost es' = total_cost es"
    using total_cost_filter_key [OF assms(2), of key] e es' by simp
  have "map_of (filter (\<lambda>x. fst x \<noteq> key) es) k = (if k = key then None else map_of es k)" for k
    by (induction es) auto
  then show "map_of es' = map_of es" using e es' by (auto simp: map_add_def split: option.splits)
  have "set es' = set es"
    using e es' assms(2) by (auto dest: map_of_SomeD intro: eq_key_imp_eq_value)
  moreover have "distinct es" "distinct es'"
    using assms(2) \<open>distinct (map fst es')\<close> by (simp_all add: distinct_map)
  ultimately show "length es' = length es" by (metis distinct_card)
qed

lemma reserve_or_evict_suffix:
  "reserve_or_evict alloc n es used = (b, es', used') \<Longrightarrow> total_cost es \<le> used \<Longrightarrow>
     \<exists>k \<le> length es. es' = drop k es \<and> used' + total_cost es = used + total_cost es' \<and>
       b = alloc (n + k) \<and> (\<forall>j < k. \<not> alloc (n + j)) \<and> (\<not> b \<longrightarrow> es' = [])"
proof (induction alloc n es used rule: reserve_or_evict.induct)
  case (1 alloc n used)
  then show ?case by (intro exI [of _ 0]) auto
next
  case (2 alloc n key e es used)
  show ?case
  proof (cases "alloc n")
    case True
    with 2 show ?thesis by (intro exI [of _ 0]) auto
  next
    case False
    then have "reserve_or_evict alloc (Suc n) es (used - ce_cost e) = (b, es', used')"
      and "total_cost es \<le> used - ce_cost e"
      using "2.prems" by simp_all
    with "2.IH" [OF False] obtain k where k: "k \<le> length es" "es' = drop k es"
      "used' + total_cost es = (used - ce_cost e) + total_cost es'" "b = alloc (Suc n + k)"
      "\<forall>j<k. \<not> alloc (Suc n + j)" "\<not> b \<longrightarrow> es' = []"
      by blast
    have "\<forall>j<Suc k. \<not> alloc (n + j)"
    proof (intro allI impI)
      fix j
      assume "j < Suc k"
      with k(5) False show "\<not> alloc (n + j)" by (cases j) auto
    qed
    moreover have "used' + total_cost ((key, e) # es) = used + total_cost es'"
      using k(3) "2.prems"(2) by simp
    ultimately show ?thesis
      using k by (intro exI [of _ "Suc k"]) auto
  qed
qed

text \<open>
  The reference for eviction: of all suffixes whose cost fits the budget, the longest one.
\<close>

definition longest_fit :: "nat \<Rightarrow> entries \<Rightarrow> entries" where
  "longest_fit budget es = drop (LEAST n. total_cost (drop n es) \<le> budget) es"

lemma evict_while_over_longest_fit:
  "evict_while_over budget es (total_cost es) = (longest_fit budget es, total_cost (longest_fit budget es))"
proof (induction es)
  case Nil
  then show ?case by (simp add: longest_fit_def)
next
  case (Cons x es)
  obtain k e where x: "x = (k, e)" by (cases x)
  show ?case
  proof (cases "total_cost (x # es) > budget")
    case True
    have "(LEAST n. total_cost (drop n (x # es)) \<le> budget) =
        Suc (LEAST n. total_cost (drop (Suc n) (x # es)) \<le> budget)"
    proof (rule Least_Suc [where n = "Suc (length es)"])
      show "total_cost (drop (Suc (length es)) (x # es)) \<le> budget" by simp
      show "\<not> total_cost (drop 0 (x # es)) \<le> budget" using True by simp
    qed
    then have "longest_fit budget (x # es) = longest_fit budget es"
      by (simp add: longest_fit_def)
    with True Cons x show ?thesis by simp
  next
    case False
    then have "(LEAST n. total_cost (drop n (x # es)) \<le> budget) = 0"
      by (intro Least_equality) auto
    then have "longest_fit budget (x # es) = x # es" by (simp add: longest_fit_def)
    with False x show ?thesis by simp
  qed
qed

lemma longest_fit_fits: "total_cost (longest_fit budget es) \<le> budget"
proof -
  have "total_cost (drop (length es) es) \<le> budget" by simp
  then show ?thesis unfolding longest_fit_def by (rule LeastI)
qed

lemma longest_fit_suffix: "\<exists>n. longest_fit budget es = drop n es"
  by (auto simp: longest_fit_def)

lemma longest_fit_maximal: "total_cost (drop n es) \<le> budget \<Longrightarrow> length (drop n es) \<le> length (longest_fit budget es)"
  unfolding longest_fit_def by (simp add: Least_le diff_le_mono2)

text \<open>The last entry survives when it fits on its own.\<close>

lemma longest_fit_keeps_last:
  assumes "ce_cost (snd x) \<le> budget"
  shows "\<exists>n \<le> length es. longest_fit budget (es @ [x]) = drop n es @ [x]"
proof -
  have fits: "total_cost (drop (length es) (es @ [x])) \<le> budget" using assms by simp
  have "(LEAST n. total_cost (drop n (es @ [x])) \<le> budget) \<le> length es"
    using fits by (rule Least_le)
  then show ?thesis by (auto simp: longest_fit_def)
qed

section \<open>What an insertion does\<close>

definition cacheable :: "hickory \<Rightarrow> cache \<Rightarrow> cache_key \<Rightarrow> message \<Rightarrow> bool" where
  "cacheable H c key m \<longleftrightarrow> entry_cost H key m \<le> max_bytes c \<and> \<not> c_poisoned c"

definition new_entry :: "hickory \<Rightarrow> instant \<Rightarrow> cache_key \<Rightarrow> message \<Rightarrow> cache_entry" where
  "new_entry H now key m = \<lparr>ce_message = m, ce_expires_at = now + from_secs (min_ttl m),
     ce_cost = entry_cost H key m\<rparr>"

lemma cache_put_noop: "\<not> cacheable H c key m \<Longrightarrow> cache_put H alloc now c key m = c"
  by (auto simp: cacheable_def cache_put_def Let_def)

lemma cache_put_frame [simp]:
  "max_bytes (cache_put H alloc now c key m) = max_bytes c"
  "c_poisoned (cache_put H alloc now c key m) = c_poisoned c"
  "lookups (cache_put H alloc now c key m) = lookups c"
  "hits (cache_put H alloc now c key m) = hits c"
  by (auto simp: cache_put_def Let_def split: prod.splits)

lemma cache_put_entries:
  assumes inv: "cache_inv c" and can: "cacheable H c key m"
  defines "others \<equiv> filter (\<lambda>x. fst x \<noteq> key) (cm_entries (c_map c))"
  obtains k where "k \<le> length others" "\<forall>j < k. \<not> alloc j" "alloc k"
      "cm_entries (c_map (cache_put H alloc now c key m)) =
         longest_fit (max_bytes c) (drop k others @ [(key, new_entry H now key m)])"
      "used_bytes (c_map (cache_put H alloc now c key m)) =
         total_cost (cm_entries (c_map (cache_put H alloc now c key m)))"
  | "\<forall>j \<le> length others. \<not> alloc j" "cm_entries (c_map (cache_put H alloc now c key m)) = []"
      "used_bytes (c_map (cache_put H alloc now c key m)) = 0"
proof -
  let ?es = "cm_entries (c_map c)"
  let ?used = "case map_of ?es key of None \<Rightarrow> used_bytes (c_map c) | Some old \<Rightarrow> used_bytes (c_map c) - ce_cost old"
  obtain b es' used' where r: "reserve_or_evict alloc 0 others ?used = (b, es', used')"
    by (cases "reserve_or_evict alloc 0 others ?used")
  have used: "?used = total_cost others"
    using inv total_cost_filter_key(1) [of ?es key]
    by (simp add: cache_inv_def others_def split: option.splits)
  from reserve_or_evict_suffix [OF r] used obtain k where k: "k \<le> length others" "es' = drop k others"
      "used' = total_cost es'" "b = alloc k" "\<forall>j<k. \<not> alloc j" "\<not> b \<longrightarrow> es' = []"
    by auto
  show thesis
  proof (cases b)
    case True
    have "cache_put H alloc now c key m = c\<lparr>c_map := \<lparr>
        cm_entries = longest_fit (max_bytes c) (es' @ [(key, new_entry H now key m)]),
        used_bytes = total_cost (longest_fit (max_bytes c) (es' @ [(key, new_entry H now key m)]))\<rparr>\<rparr>"
      using can True r k(3) evict_while_over_longest_fit [of "max_bytes c" "es' @ [(key, new_entry H now key m)]"]
      by (simp add: cache_put_def Let_def cacheable_def new_entry_def others_def)
    with True k that(1) show thesis by simp
  next
    case False
    with k have "es' = []" "used' = 0" by auto
    with can False r have eq: "cache_put H alloc now c key m = c\<lparr>c_map := \<lparr>cm_entries = [], used_bytes = 0\<rparr>\<rparr>"
      by (simp add: cache_put_def Let_def cacheable_def others_def)
    have "k = length others" using k \<open>es' = []\<close> by simp
    then have "\<forall>j \<le> length others. \<not> alloc j" using k False by (auto simp: le_less)
    with eq that(2) show thesis by simp
  qed
qed

text \<open>The usual case: the first reservation succeeds.\<close>

lemma cache_put_alloc:
  assumes "cache_inv c" and "cacheable H c key m" and "alloc 0"
  shows "cm_entries (c_map (cache_put H alloc now c key m)) = longest_fit (max_bytes c)
     (filter (\<lambda>x. fst x \<noteq> key) (cm_entries (c_map c)) @ [(key, new_entry H now key m)])"
  using cache_put_entries [OF assms(1,2), of alloc now]
proof cases
  case (1 k)
  with assms(3) have "k = 0" by (metis gr0I)
  with 1 show ?thesis by simp
qed (use assms(3) in auto)

lemma distinct_longest_fit:
  "distinct (map fst es) \<Longrightarrow> distinct (map fst (longest_fit budget es))"
  using longest_fit_suffix [of budget es] by (auto simp: drop_map [symmetric] distinct_drop)

lemma cache_inv_put [wf_intros]:
  assumes "cache_inv c"
  shows "cache_inv (cache_put H alloc now c key m)"
proof (cases "cacheable H c key m")
  case True
  have d: "distinct (map fst (drop k (filter (\<lambda>x. fst x \<noteq> key) (cm_entries (c_map c))) @ [(key, e)]))" for k e
    using assms by (auto simp: cache_inv_def drop_map [symmetric] distinct_fst_filter distinct_drop
        dest: in_set_dropD)
  show ?thesis
    using cache_put_entries [OF assms True, of alloc now]
    by cases (auto simp: cache_inv_def distinct_longest_fit [OF d] longest_fit_fits)
next
  case False
  then show ?thesis using assms by (simp add: cache_put_noop)
qed

lemma cache_get_frame [simp]:
  "max_bytes (snd (cache_get now c key i)) = max_bytes c"
  "c_poisoned (snd (cache_get now c key i)) = c_poisoned c"
  "lookups (snd (cache_get now c key i)) = lookups c + 1"
  by (auto simp: cache_get_def Let_def split: option.splits)

lemma cache_inv_get [wf_intros]: "cache_inv c \<Longrightarrow> cache_inv (snd (cache_get now c key i))"
  by (auto simp: cache_inv_def cache_get_def Let_def to_back_Some split: option.splits prod.splits)

lemma cache_inv_new [wf_intros]: "cache_inv (with_max_bytes n)"
  by (simp add: cache_inv_def with_max_bytes_def)

section \<open>The interface the query pipeline relies on\<close>

text \<open>
  A client only needs to know what is stored: a lookup returns a stored message under the
  query's identifier, does not change what is stored, and an insertion stores nothing but
  the message it is given. Every property of stored messages that the client establishes
  when it inserts then holds for whatever a lookup returns.
\<close>

locale response_cache =
  fixes get :: "instant \<Rightarrow> 'c \<Rightarrow> cache_key \<Rightarrow> u16 \<Rightarrow> (message \<times> bool) option \<times> 'c"
    and put :: "instant \<Rightarrow> 'c \<Rightarrow> cache_key \<Rightarrow> message \<Rightarrow> 'c"
    and stored :: "'c \<Rightarrow> cache_key \<Rightarrow> message option"
    and inv :: "'c \<Rightarrow> bool"
  assumes get_stored: "inv c \<Longrightarrow> stored (snd (get now c k i)) = stored c"
    and get_hit: "fst (get now c k i) = Some (m, x) \<Longrightarrow> \<exists>m0. stored c k = Some m0 \<and> m = m0\<lparr>msg_id := i\<rparr>"
    and put_stored: "inv c \<Longrightarrow> stored (put now c k m) k' = Some m' \<Longrightarrow>
      (k' = k \<and> m' = m) \<or> stored c k' = Some m'"
    and inv_get: "inv c \<Longrightarrow> inv (snd (get now c k i))"
    and inv_put: "inv c \<Longrightarrow> inv (put now c k m)"
begin

definition all_stored :: "(cache_key \<Rightarrow> message \<Rightarrow> bool) \<Rightarrow> 'c \<Rightarrow> bool" where
  "all_stored P c \<longleftrightarrow> inv c \<and> (\<forall>k m. stored c k = Some m \<longrightarrow> P k m)"

lemma all_stored_get: "all_stored P c \<Longrightarrow> all_stored P (snd (get now c k i))"
  by (simp add: all_stored_def get_stored inv_get)

lemma all_stored_put: "all_stored P c \<Longrightarrow> P k m \<Longrightarrow> all_stored P (put now c k m)"
  unfolding all_stored_def using put_stored inv_put by blast

lemma get_hit_P:
  "all_stored P c \<Longrightarrow> fst (get now c k i) = Some (m, x) \<Longrightarrow> \<exists>m0. P k m0 \<and> m = m0\<lparr>msg_id := i\<rparr>"
  unfolding all_stored_def using get_hit by blast

lemma get_hit_id: "fst (get now c k i) = Some (m, x) \<Longrightarrow> msg_id m = i"
  using get_hit by fastforce

end

definition cache_stored :: "cache \<Rightarrow> cache_key \<Rightarrow> message option" where
  "cache_stored c k = map_option ce_message (map_of (cm_entries (c_map c)) k)"

lemma map_of_drop_subset: "distinct (map fst es) \<Longrightarrow> map_of (drop n es) k = Some e \<Longrightarrow> map_of es k = Some e"
  by (metis (no_types, lifting) in_set_dropD map_of_SomeD map_of_is_SomeI)

lemma map_of_filter_key: "map_of (filter (\<lambda>x. fst x \<noteq> key) es) k = (if k = key then None else map_of es k)"
  by (induction es) auto

lemma put_stored_cases:
  assumes inv: "cache_inv c" and s: "map_of (cm_entries (c_map (cache_put H alloc now c key m))) k = Some e"
  shows "k = key \<and> e = new_entry H now key m \<or> map_of (cm_entries (c_map c)) k = Some e"
proof (cases "cacheable H c key m")
  case False
  with s show ?thesis by (simp add: cache_put_noop)
next
  case True
  let ?others = "filter (\<lambda>x. fst x \<noteq> key) (cm_entries (c_map c))"
  have others: "distinct (map fst ?others)" using inv by (simp add: cache_inv_def distinct_fst_filter)
  show ?thesis
    using cache_put_entries [OF inv True, of alloc now]
  proof cases
    case (1 j)
    from longest_fit_suffix [of "max_bytes c" "drop j ?others @ [(key, new_entry H now key m)]"] 1 s
    obtain n where "map_of (drop n (drop j ?others @ [(key, new_entry H now key m)])) k = Some e" by auto
    then have "(k, e) \<in> set (drop j ?others @ [(key, new_entry H now key m)])"
      by (meson in_set_dropD map_of_SomeD)
    then consider "(k, e) = (key, new_entry H now key m)" | "(k, e) \<in> set ?others"
      by (auto dest: in_set_dropD)
    then show ?thesis
    proof cases
      assume "(k, e) \<in> set ?others"
      then show ?thesis using others inv by (auto simp: cache_inv_def map_of_filter_key)
    qed auto
  qed (use s in simp)
qed

interpretation lru: response_cache cache_get "cache_put H alloc" cache_stored cache_inv for H alloc
proof (unfold_locales, goal_cases)
  case (1 c now k i)
  then show ?case
    by (auto simp: cache_stored_def cache_get_def cache_inv_def Let_def to_back_Some
        split: option.splits prod.splits)
next
  case (2 now c k i m x)
  then show ?case
    by (auto simp: cache_stored_def cache_get_def Let_def to_back_def split: option.splits if_splits)
next
  case (3 c now k m k' m')
  then show ?case
    using put_stored_cases [OF 3(1), of H alloc now k m k']
    by (auto simp: cache_stored_def new_entry_def)
qed (simp_all add: cache_inv_get cache_inv_put)

section \<open>Sequences of operations\<close>

text \<open>
  The cache is shared by every request; an execution is the sequence in which the lock
  serialises the calls.
\<close>

datatype cache_op =
    Op_get instant cache_key u16
  | Op_put "nat \<Rightarrow> bool" instant cache_key message

fun cache_step :: "hickory \<Rightarrow> cache \<Rightarrow> cache_op \<Rightarrow> cache" where
  "cache_step H c (Op_get now key i) = snd (cache_get now c key i)"
| "cache_step H c (Op_put alloc now key m) = cache_put H alloc now c key m"

definition cache_run :: "hickory \<Rightarrow> cache \<Rightarrow> cache_op list \<Rightarrow> cache" where
  "cache_run H = foldl (cache_step H)"

definition is_get :: "cache_op \<Rightarrow> bool" where
  "is_get op = (case op of Op_get _ _ _ \<Rightarrow> True | Op_put _ _ _ _ \<Rightarrow> False)"

lemma cache_run_simps [simp]:
  "cache_run H c [] = c" "cache_run H c (op # ops) = cache_run H (cache_step H c op) ops"
  by (simp_all add: cache_run_def)

lemma cache_step_inv [wf_intros]: "cache_inv c \<Longrightarrow> cache_inv (cache_step H c op)"
  by (cases op) (simp_all add: cache_inv_get cache_inv_put)

lemma cache_run_inv [wf_intros]: "cache_inv c \<Longrightarrow> cache_inv (cache_run H c ops)"
  by (induction ops arbitrary: c) (simp_all add: cache_step_inv)

lemma cache_run_frame [simp]:
  "max_bytes (cache_run H c ops) = max_bytes c \<and> c_poisoned (cache_run H c ops) = c_poisoned c"
proof (induction ops arbitrary: c)
  case (Cons op ops)
  then show ?case by (cases op) simp_all
qed simp

lemma cache_new_budget: "max_bytes (cache_new mb) = min (max mb 1 * (1024 * 1024)) u64_max"
  by (simp add: cache_new_def with_max_bytes_def)

lemma hits_get: "hits (snd (cache_get now c key i)) = hits c + (if fst (cache_get now c key i) = None then 0 else 1)"
  by (auto simp: cache_get_def Let_def split: option.splits)

text \<open>The number of lookups of a sequence that return a message.\<close>

fun hit_count :: "hickory \<Rightarrow> cache \<Rightarrow> cache_op list \<Rightarrow> nat" where
  "hit_count H c [] = 0"
| "hit_count H c (Op_get now key i # ops) =
     (if fst (cache_get now c key i) = None then 0 else 1) + hit_count H (cache_step H c (Op_get now key i)) ops"
| "hit_count H c (op # ops) = hit_count H (cache_step H c op) ops"

lemma hit_count_le: "hit_count H c ops \<le> length (filter is_get ops)"
  by (induction H c ops rule: hit_count.induct) (simp_all add: is_get_def)

lemma counters_run:
  "lookups (cache_run H c ops) = lookups c + of_nat (length (filter is_get ops)) \<and>
   hits (cache_run H c ops) = hits c + of_nat (hit_count H c ops)"
proof (induction ops arbitrary: c)
  case (Cons op ops)
  then show ?case by (cases op) (simp_all add: is_get_def hits_get)
qed simp

section \<open>What the cache guarantees\<close>

text \<open>C4. Budget: whatever sequence of lookups and insertions the requests make on a fresh
  cache, with whatever allocation failures, the keys are distinct, the byte counter is the
  exact sum of the costs of the entries that are present, and it never exceeds the configured
  budget of at least one mebibyte.\<close>

theorem cache_budget_invariant:
  "let c = cache_run H (cache_new mb) ops in
     cache_inv c \<and> memory_stats c = (total_cost (cm_entries (c_map c)), max_bytes c) \<and>
     total_cost (cm_entries (c_map c)) \<le> min (max mb 1 * (1024 * 1024)) u64_max"
proof -
  let ?c = "cache_run H (cache_new mb) ops"
  have inv: "cache_inv ?c" by (intro wf_intros) (simp add: cache_new_def cache_inv_new)
  have "\<not> c_poisoned ?c" by (simp add: cache_new_def with_max_bytes_def)
  with inv have "memory_stats ?c = (total_cost (cm_entries (c_map ?c)), max_bytes ?c)"
    by (simp add: memory_stats_def cache_inv_def)
  moreover have "total_cost (cm_entries (c_map ?c)) \<le> max_bytes ?c" using inv by (simp add: cache_inv_def)
  ultimately show ?thesis using inv by (simp add: Let_def cache_new_budget)
qed

text \<open>C5. Insertion against its reference: when the allocator does not refuse, the entries
  after an insertion are the longest suffix, in order of last use, of the other entries
  followed by the new one whose total cost fits the budget; so exactly the least recently
  used entries go, no more than needed, and the new one is the most recently used.\<close>

theorem cache_put_is_lru:
  assumes "cache_inv c" and "cacheable H c key m" and "alloc 0"
  shows "let all = filter (\<lambda>x. fst x \<noteq> key) (cm_entries (c_map c)) @ [(key, new_entry H now key m)];
      es = cm_entries (c_map (cache_put H alloc now c key m))
    in (\<exists>n < length all. es = drop n all) \<and> total_cost es \<le> max_bytes c \<and>
       (\<forall>n. total_cost (drop n all) \<le> max_bytes c \<longrightarrow> length (drop n all) \<le> length es)"
proof -
  let ?others = "filter (\<lambda>x. fst x \<noteq> key) (cm_entries (c_map c))" and ?new = "(key, new_entry H now key m)"
  let ?es = "cm_entries (c_map (cache_put H alloc now c key m))"
  have es: "?es = longest_fit (max_bytes c) (?others @ [?new])"
    using assms by (rule cache_put_alloc)
  have "ce_cost (snd ?new) \<le> max_bytes c"
    using assms(2) by (simp add: cacheable_def new_entry_def)
  from longest_fit_keeps_last [OF this, of ?others] obtain n
    where "n \<le> length ?others" "?es = drop n ?others @ [?new]" by (auto simp: es)
  then have "\<exists>n < length (?others @ [?new]). ?es = drop n (?others @ [?new])"
    by (intro exI [of _ n]) auto
  moreover have "\<forall>n. total_cost (drop n (?others @ [?new])) \<le> max_bytes c \<longrightarrow>
      length (drop n (?others @ [?new])) \<le> length ?es"
    unfolding es using longest_fit_maximal by blast
  moreover have "total_cost ?es \<le> max_bytes c" by (simp add: es longest_fit_fits)
  ultimately show ?thesis unfolding Let_def by blast
qed

text \<open>A small cache for the concrete instances: two messages of cost 131 each.\<close>

definition sample_key :: "string \<Rightarrow> cache_key" where
  "sample_key n = \<lparr>ck_name = n, ck_qtype = 1\<rparr>"

definition sample_cache :: cache where
  "sample_cache = cache_put sample_hickory (\<lambda>_. True) 0 (with_max_bytes 300) (sample_key ''a.b'')
     (message_new 1 Response_type 0)"

lemma sample_cache_eval [eval_simps]:
  "sample_cache = \<lparr>c_map = \<lparr>cm_entries = [(sample_key ''a.b'',
      \<lparr>ce_message = message_new 1 Response_type 0, ce_expires_at = 60000000000, ce_cost = 131\<rparr>)],
      used_bytes = 131\<rparr>, c_poisoned = False, max_bytes = 300, lookups = 0, hits = 0\<rparr>"
  by (simp add: sample_cache_def cache_put_def with_max_bytes_def sample_hickory_def sample_key_def
      entry_cost_def ENTRY_OVERHEAD_def min_ttl_def from_secs_def Let_def)

lemma sample_cache_ok:
  "cache_inv sample_cache" "cacheable sample_hickory sample_cache (sample_key ''c.d'') (message_new 2 Response_type 0)"
  by (simp_all add: sample_cache_eval cache_inv_def cacheable_def entry_cost_def sample_hickory_def
      sample_key_def ENTRY_OVERHEAD_def)

lemma cache_put_is_lru_witness:
  "let all = filter (\<lambda>x. fst x \<noteq> sample_key ''c.d'') (cm_entries (c_map sample_cache)) @
      [(sample_key ''c.d'', new_entry sample_hickory 7 (sample_key ''c.d'') (message_new 2 Response_type 0))];
      es = cm_entries (c_map (cache_put sample_hickory (\<lambda>_. True) 7 sample_cache (sample_key ''c.d'')
        (message_new 2 Response_type 0)))
    in (\<exists>n < length all. es = drop n all) \<and> total_cost es \<le> max_bytes sample_cache \<and>
       (\<forall>n. total_cost (drop n all) \<le> max_bytes sample_cache \<longrightarrow> length (drop n all) \<le> length es)"
  by (rule cache_put_is_lru [OF sample_cache_ok]) simp

text \<open>The lifetime of an entry: it is over as soon as one of the answers is.\<close>

lemma foldl_min_le: "foldl min t ts \<le> (x :: nat) \<longleftrightarrow> (\<exists>y \<in> set (t # ts). y \<le> x)"
  by (induction ts arbitrary: t) (auto simp: min_le_iff_disj)

lemma min_ttl_over:
  "now + from_secs (min_ttl m) \<le> later \<longleftrightarrow>
     (if answers m = [] then now + 60 * 1000000000 \<le> later
      else \<exists>rr \<in> set (answers m). now + unat (rr_ttl rr) * 1000000000 \<le> later)"
proof -
  have "now + t * 1000000000 \<le> later \<longleftrightarrow> now \<le> later \<and> t \<le> (later - now) div 1000000000" for t
    by (auto simp: less_eq_div_iff_mult_less_eq)
  then show ?thesis
    by (auto simp: min_ttl_def from_secs_def foldl_min_le split: list.splits)
qed

lemma cache_get_put:
  assumes "cache_inv c" and "cacheable H c key m" and "alloc 0"
  shows "fst (cache_get later (cache_put H alloc now c key m) key i) =
      Some (m\<lparr>msg_id := i\<rparr>, now + from_secs (min_ttl m) \<le> later) \<and>
    cache_stored (snd (cache_get later (cache_put H alloc now c key m) key i)) key = Some m"
proof -
  let ?others = "filter (\<lambda>x. fst x \<noteq> key) (cm_entries (c_map c))" and ?new = "(key, new_entry H now key m)"
  let ?c = "cache_put H alloc now c key m"
  have "ce_cost (snd ?new) \<le> max_bytes c"
    using assms(2) by (simp add: cacheable_def new_entry_def)
  moreover have "cm_entries (c_map ?c) = longest_fit (max_bytes c) (?others @ [?new])"
    using assms by (rule cache_put_alloc)
  ultimately obtain n where n: "cm_entries (c_map ?c) = drop n ?others @ [?new]"
    using longest_fit_keeps_last by metis
  have "key \<notin> fst ` set (drop n ?others)" by (auto dest: in_set_dropD)
  then have e: "map_of (cm_entries (c_map ?c)) key = Some (new_entry H now key m)"
    by (auto simp: n map_add_def map_of_eq_None_iff [symmetric] split: option.splits)
  then have "fst (cache_get later ?c key i) = Some (m\<lparr>msg_id := i\<rparr>, now + from_secs (min_ttl m) \<le> later)"
    using assms(2) by (simp add: cache_get_def to_back_def Let_def new_entry_def cacheable_def)
  moreover have "cache_stored (snd (cache_get later ?c key i)) key = Some m"
    using e assms(1) by (simp add: lru.get_stored cache_inv_put cache_stored_def new_entry_def)
  ultimately show ?thesis by simp
qed

text \<open>C26. An inserted message is served: if the message costs no more than the budget, the lock is
  not poisoned and the first memory reservation of the insertion is granted, the next lookup of its
  key returns the message with the identifier of that lookup, marked expired from the moment on at
  which the lifetime of one of its answers, counted in seconds from the insertion, is over (and,
  without any answer, after sixty seconds), not before; the entry itself stays whether expired or
  not.\<close>

theorem cache_hit_after_put:
  assumes "cache_inv c" and "cacheable H c key m" and "alloc 0"
  shows "fst (cache_get later (cache_put H alloc now c key m) key i) =
      Some (m\<lparr>msg_id := i\<rparr>, if answers m = [] then now + 60 * 1000000000 \<le> later
        else \<exists>rr \<in> set (answers m). now + unat (rr_ttl rr) * 1000000000 \<le> later) \<and>
    cache_stored (snd (cache_get later (cache_put H alloc now c key m) key i)) key = Some m"
  using cache_get_put [where alloc = alloc, OF assms] by (simp add: min_ttl_over)

lemma cache_hit_after_put_witness:
  "fst (cache_get 70000000000 (cache_put sample_hickory (\<lambda>_. True) 7 sample_cache (sample_key ''c.d'')
      (message_new 2 Response_type 0)) (sample_key ''c.d'') 9) =
    Some ((message_new 2 Response_type 0)\<lparr>msg_id := 9\<rparr>, True)"
  using cache_hit_after_put [OF sample_cache_ok, of "\<lambda>_. True" 70000000000 7 9] by simp

text \<open>Frame: a lookup changes neither what is stored nor the expiry times, only the order
  (the entry found becomes the most recently used, the others keep their relative order) and
  the counters; an entry just looked up survives the next insertion whenever the two fit
  the budget together.\<close>

theorem cache_get_touches:
  assumes "cache_inv c" and "fst (cache_get now c key i) = Some r"
  shows "let c' = snd (cache_get now c key i) in
      map_of (cm_entries (c_map c')) = map_of (cm_entries (c_map c)) \<and>
      used_bytes (c_map c') = used_bytes (c_map c) \<and>
      (\<exists>e. map_of (cm_entries (c_map c)) key = Some e \<and>
        cm_entries (c_map c') = filter (\<lambda>x. fst x \<noteq> key) (cm_entries (c_map c)) @ [(key, e)] \<and>
        (\<forall>H alloc later key2 m. cacheable H c' key2 m \<and> alloc 0 \<and> key2 \<noteq> key \<and>
           ce_cost e + entry_cost H key2 m \<le> max_bytes c \<longrightarrow>
           map_of (cm_entries (c_map (cache_put H alloc later c' key2 m))) key = Some e))"
proof -
  let ?c' = "snd (cache_get now c key i)"
  from assms(2) obtain e where e: "map_of (cm_entries (c_map c)) key = Some e"
    and np: "\<not> c_poisoned c"
    by (auto simp: cache_get_def Let_def to_back_def split: option.splits if_splits)
  then have es: "cm_entries (c_map ?c') = filter (\<lambda>x. fst x \<noteq> key) (cm_entries (c_map c)) @ [(key, e)]"
    and used: "used_bytes (c_map ?c') = used_bytes (c_map c)"
    by (simp_all add: cache_get_def Let_def to_back_def)
  have m: "map_of (cm_entries (c_map ?c')) = map_of (cm_entries (c_map c))"
    using to_back_Some(4) [of key "cm_entries (c_map c)" e] assms(1) e es
    by (simp add: to_back_def cache_inv_def)
  have "map_of (cm_entries (c_map (cache_put H alloc later ?c' key2 m))) key = Some e"
    if can: "cacheable H ?c' key2 m" and "alloc 0" and ne: "key2 \<noteq> key"
      and fit: "ce_cost e + entry_cost H key2 m \<le> max_bytes c" for H alloc later key2 m
  proof -
    let ?pre = "filter (\<lambda>x. fst x \<noteq> key2) (filter (\<lambda>x. fst x \<noteq> key) (cm_entries (c_map c)))"
    let ?all = "?pre @ [(key, e), (key2, new_entry H later key2 m)]"
    have inv: "cache_inv ?c'" using assms(1) by (rule cache_inv_get)
    have put: "cm_entries (c_map (cache_put H alloc later ?c' key2 m)) = longest_fit (max_bytes c) ?all"
      using cache_put_alloc [OF inv can, of alloc later] \<open>alloc 0\<close> ne by (simp add: es)
    obtain n where n: "longest_fit (max_bytes c) ?all = drop n ?all" using longest_fit_suffix by blast
    have "length (drop (length ?pre) ?all) \<le> length (longest_fit (max_bytes c) ?all)"
      using fit by (intro longest_fit_maximal) (simp add: new_entry_def)
    then have "n \<le> length ?pre" using n by simp
    then have "(key, e) \<in> set (longest_fit (max_bytes c) ?all)" unfolding n by simp
    moreover have "distinct (map fst (longest_fit (max_bytes c) ?all))"
      using cache_inv_put [OF inv, of H alloc later key2 m] by (simp add: cache_inv_def put)
    ultimately show ?thesis by (simp add: put)
  qed
  with e es used m show ?thesis by (auto simp: Let_def)
qed

lemma cache_get_touches_witness:
  "cm_entries (c_map (snd (cache_get 5 sample_cache (sample_key ''a.b'') 3))) = cm_entries (c_map sample_cache)"
  using cache_get_touches [OF sample_cache_ok(1), of 5 "sample_key ''a.b''" 3
      "((message_new 1 Response_type 0)\<lparr>msg_id := 3\<rparr>, False)"]
  by (simp add: sample_cache_eval cache_get_def to_back_def Let_def sample_key_def)

text \<open>Counters: over any sequence of operations the two statistics count, modulo
  \<open>2^64\<close>, the lookups and the lookups that returned a message, so that the hit rate never
  exceeds one.\<close>

theorem cache_counters:
  "hit_stats (cache_run H (cache_new mb) ops) =
     (of_nat (length (filter is_get ops)), of_nat (hit_count H (cache_new mb) ops)) \<and>
   hit_count H (cache_new mb) ops \<le> length (filter is_get ops)"
  using counters_run [of H "cache_new mb" ops] hit_count_le [of H "cache_new mb" ops]
  by (simp add: hit_stats_def cache_new_def with_max_bytes_def)

end
