(* ===== verification/Stats.thy ===== *)
theory Stats
  imports F64
begin

text \<open>
  \<open>src/stats.rs\<close>: the call statistics of one upstream: a sliding window of the most recent
  calls, which drives the selection, and a history in hourly buckets, which the dashboard
  shows. Times are signed 64-bit milliseconds with the saturating operations of the code
  written out; the wall clock is an argument. The rounding of the floating-point
  operations is an argument (\<open>rnd\<close>).
\<close>

definition HOUR_MS :: int where
  "HOUR_MS = 3600000"

definition DAY_MS :: int where
  "DAY_MS = 86400000"

record stats_snapshot =
  ss_samples :: nat
  ss_successes :: nat
  ss_failure_rate :: f64
  ss_avg_latency_ms :: "f64 option"

datatype sample = Success f64 | Failure

record hour_bucket =
  hour_ms :: int
  hb_samples :: nat
  hb_successes :: nat
  latency_sum_ms :: f64

record upstream_stats =
  window :: nat
  samples :: "sample list"
  retention_ms :: "int option"
  history :: "hour_bucket list"

section \<open>Operations\<close>

definition with_retention :: "nat \<Rightarrow> nat \<Rightarrow> upstream_stats" where
  "with_retention w retention_days = \<lparr>window = max w 1, samples = [],
     retention_ms = (case i64_try_from_u64 retention_days of
        None \<Rightarrow> None
      | Some days \<Rightarrow> if days > 0 then checked_i64 (days * DAY_MS) else None),
     history = []\<rparr>"

definition stats_new :: "nat \<Rightarrow> upstream_stats" where
  "stats_new w = with_retention w 0"

definition push :: "sample \<Rightarrow> upstream_stats \<Rightarrow> upstream_stats" where
  "push x s = s\<lparr>samples := (if length (samples s) = window s then tl (samples s) else samples s) @ [x]\<rparr>"

definition retention_cutoff :: "upstream_stats \<Rightarrow> int \<Rightarrow> int option" where
  "retention_cutoff s now_ms = map_option (\<lambda>r. saturating_i64 (now_ms - r)) (retention_ms s)"

definition hour_of :: "int \<Rightarrow> int" where
  "hour_of now_ms = saturating_i64 (now_ms div HOUR_MS * HOUR_MS)"

definition bucket_end :: "hour_bucket \<Rightarrow> int" where
  "bucket_end b = saturating_i64 (hour_ms b + HOUR_MS)"

text \<open>The new sample joins the latest bucket unless its hour is later than that bucket's.\<close>

definition add_to_history :: "rounding \<Rightarrow> int \<Rightarrow> f64 option \<Rightarrow> hour_bucket list \<Rightarrow> hour_bucket list" where
  "add_to_history rnd h success_latency bs =
     (if bs \<noteq> [] \<and> hour_ms (last bs) \<ge> h
      then butlast bs @ [(let b = (last bs)\<lparr>hb_samples := hb_samples (last bs) + 1\<rparr> in
        case success_latency of None \<Rightarrow> b
        | Some l \<Rightarrow> b\<lparr>hb_successes := hb_successes b + 1, latency_sum_ms := fadd rnd (latency_sum_ms b) l\<rparr>)]
      else bs @ [\<lparr>hour_ms = h, hb_samples = 1,
                  hb_successes = (if success_latency = None then 0 else 1),
                  latency_sum_ms = (case success_latency of None \<Rightarrow> Fin 0 | Some l \<Rightarrow> l)\<rparr>])"

definition record_history :: "rounding \<Rightarrow> int \<Rightarrow> f64 option \<Rightarrow> upstream_stats \<Rightarrow> upstream_stats" where
  "record_history rnd now_ms success_latency s =
     (let bs = add_to_history rnd (hour_of now_ms) success_latency (history s) in
      s\<lparr>history := (case retention_cutoff s now_ms of
         None \<Rightarrow> bs | Some cutoff \<Rightarrow> dropWhile (\<lambda>b. bucket_end b \<le> cutoff) bs)\<rparr>)"

text \<open>\<open>latency.as_secs_f64() * 1000.0\<close>\<close>

definition latency_millis :: "rounding \<Rightarrow> duration \<Rightarrow> f64" where
  "latency_millis rnd latency =
     fmul rnd (fadd rnd (f64_of_nat rnd (latency div 1000000000))
                 (fdiv rnd (f64_of_nat rnd (latency mod 1000000000)) (Fin 1000000000))) (Fin 1000)"

definition record_success_at :: "rounding \<Rightarrow> duration \<Rightarrow> int \<Rightarrow> upstream_stats \<Rightarrow> upstream_stats" where
  "record_success_at rnd latency now_ms s =
     (let l = latency_millis rnd latency in record_history rnd now_ms (Some l) (push (Success l) s))"

definition record_soft_fail :: "upstream_stats \<Rightarrow> upstream_stats" where
  "record_soft_fail s = push Failure s"

definition record_timeout_at :: "rounding \<Rightarrow> int \<Rightarrow> upstream_stats \<Rightarrow> upstream_stats" where
  "record_timeout_at rnd now_ms s = record_history rnd now_ms None (push Failure s)"

definition failure_rate :: "rounding \<Rightarrow> upstream_stats \<Rightarrow> f64" where
  "failure_rate rnd s = (if samples s = [] then Fin 0
     else fdiv rnd (f64_of_nat rnd (length (filter (\<lambda>x. x = Failure) (samples s))))
                   (f64_of_nat rnd (length (samples s))))"

definition avg_latency_ms :: "rounding \<Rightarrow> upstream_stats \<Rightarrow> f64" where
  "avg_latency_ms rnd s =
     (case foldl (\<lambda>(tot, n) x. case x of Success l \<Rightarrow> (fadd rnd tot l, n + 1) | Failure \<Rightarrow> (tot, n))
        (Fin 0, 0::nat) (samples s) of (tot, n) \<Rightarrow>
      if n = 0 then Fin 100 else fdiv rnd tot (f64_of_nat rnd n))"

definition snapshot_at :: "rounding \<Rightarrow> int \<Rightarrow> upstream_stats \<Rightarrow> stats_snapshot" where
  "snapshot_at rnd now_ms s =
     (let cutoff = retention_cutoff s now_ms in
      case foldl (\<lambda>(n, k, l) b. (n + hb_samples b, k + hb_successes b, fadd rnd l (latency_sum_ms b)))
        (0, 0, Fin 0)
        (filter (\<lambda>b. case cutoff of None \<Rightarrow> True | Some c \<Rightarrow> bucket_end b > c) (history s)) of
      (n, k, l) \<Rightarrow>
        \<lparr>ss_samples = n, ss_successes = k,
         ss_failure_rate = (if n = 0 then Fin 0 else fdiv rnd (f64_of_nat rnd (n - k)) (f64_of_nat rnd n)),
         ss_avg_latency_ms = (if k > 0 then Some (fdiv rnd l (f64_of_nat rnd k)) else None)\<rparr>)"

definition weight :: "rounding \<Rightarrow> upstream_stats \<Rightarrow> f64 \<Rightarrow> f64" where
  "weight rnd s k =
     (let k = fmax k (Fin 0) in
      fdiv rnd (Fin 1) (fmul rnd (fadd rnd (avg_latency_ms rnd s) (Fin 1))
                                 (fadd rnd (Fin 1) (fmul rnd k (failure_rate rnd s)))))"

text \<open>
  The system clock is a number of nanoseconds since the epoch, negative before it. Its reading in
  milliseconds saturates at both ends.
\<close>

definition unix_millis :: "int \<Rightarrow> int" where
  "unix_millis clock =
     (if clock < 0 then 0
      else case checked_i64 (clock div 1000000) of None \<Rightarrow> i64_max | Some ms \<Rightarrow> ms)"

definition record_success :: "rounding \<Rightarrow> duration \<Rightarrow> int \<Rightarrow> upstream_stats \<Rightarrow> upstream_stats" where
  "record_success rnd latency clock s = record_success_at rnd latency (unix_millis clock) s"

definition record_timeout :: "rounding \<Rightarrow> int \<Rightarrow> upstream_stats \<Rightarrow> upstream_stats" where
  "record_timeout rnd clock s = record_timeout_at rnd (unix_millis clock) s"

definition snapshot_now :: "rounding \<Rightarrow> int \<Rightarrow> upstream_stats \<Rightarrow> stats_snapshot" where
  "snapshot_now rnd clock s = snapshot_at rnd (unix_millis clock) s"

lemma unix_millis_range: "0 \<le> unix_millis clock" "in_i64 (unix_millis clock)"
  by (auto simp: unix_millis_def in_i64_def i64_min_def i64_max_def checked_i64_def)

lemma unix_millis_mono: "a \<le> b \<Longrightarrow> unix_millis a \<le> unix_millis b"
  using zdiv_mono1 [of a b 1000000]
  by (auto simp: unix_millis_def in_i64_def i64_min_def i64_max_def checked_i64_def pos_imp_zdiv_nonneg_iff)

section \<open>Well-formed statistics\<close>

definition stats_inv :: "upstream_stats \<Rightarrow> bool" where
  "stats_inv s \<longleftrightarrow> 1 \<le> window s \<and> length (samples s) \<le> window s \<and>
     (\<forall>r. retention_ms s = Some r \<longrightarrow> DAY_MS \<le> r \<and> in_i64 r) \<and>
     sorted_wrt (<) (map hour_ms (history s)) \<and>
     (\<forall>b \<in> set (history s). 1 \<le> hb_samples b \<and> hb_successes b \<le> hb_samples b \<and> in_i64 (hour_ms b))"

lemma with_retention_inv [wf_intros]: "stats_inv (with_retention w d)"
proof -
  have "DAY_MS \<le> days * DAY_MS" if "0 < days" for days
    using that by (simp add: DAY_MS_def)
  then show ?thesis
    by (auto simp: stats_inv_def with_retention_def checked_i64_def split: option.splits if_splits)
qed

lemma push_frame [simp]:
  "window (push x s) = window s" "retention_ms (push x s) = retention_ms s" "history (push x s) = history s"
  by (simp_all add: push_def)

lemma push_inv [wf_intros]: "stats_inv s \<Longrightarrow> stats_inv (push x s)"
  by (auto simp: stats_inv_def) (auto simp: push_def)

lemma record_history_frame [simp]:
  "window (record_history rnd t l s) = window s" "retention_ms (record_history rnd t l s) = retention_ms s"
  "samples (record_history rnd t l s) = samples s"
  by (simp_all add: record_history_def Let_def)

lemma in_i64_hour_of [simp]: "in_i64 (hour_of t)"
  by (simp add: hour_of_def)

definition bucket_ok :: "hour_bucket \<Rightarrow> bool" where
  "bucket_ok b \<longleftrightarrow> 1 \<le> hb_samples b \<and> hb_successes b \<le> hb_samples b \<and> in_i64 (hour_ms b)"

lemma add_to_history_hours:
  "map hour_ms (add_to_history rnd h l bs) =
     (if bs \<noteq> [] \<and> hour_ms (last bs) \<ge> h then map hour_ms bs else map hour_ms bs @ [h])"
  by (cases bs rule: rev_cases) (auto simp: add_to_history_def Let_def split: option.splits)

lemma add_to_history_ok:
  assumes "in_i64 h" and "\<forall>b \<in> set bs. bucket_ok b"
  shows "\<forall>b \<in> set (add_to_history rnd h l bs). bucket_ok b"
  using assms by (cases bs rule: rev_cases)
    (auto simp: add_to_history_def bucket_ok_def Let_def split: option.splits)

lemma sorted_add_to_history:
  assumes "sorted_wrt (<) (map hour_ms bs)"
  shows "sorted_wrt (<) (map hour_ms (add_to_history rnd h l bs))"
  using assms by (cases bs rule: rev_cases)
    (force simp: add_to_history_hours sorted_wrt_append)+

lemma sorted_wrt_dropWhile: "sorted_wrt P xs \<Longrightarrow> sorted_wrt P (dropWhile Q xs)"
  by (induction xs) auto

lemma record_history_inv [wf_intros]:
  assumes "stats_inv s"
  shows "stats_inv (record_history rnd now_ms l s)"
proof -
  let ?bs = "add_to_history rnd (hour_of now_ms) l (history s)"
  have sorted: "sorted_wrt (<) (map hour_ms ?bs)"
    using assms by (intro sorted_add_to_history) (simp add: stats_inv_def)
  have ok: "\<forall>b \<in> set ?bs. bucket_ok b"
    using assms by (intro add_to_history_ok) (simp_all add: stats_inv_def bucket_ok_def)
  have "sorted_wrt (<) (map hour_ms (dropWhile P ?bs))" for P
    using sorted_wrt_dropWhile [of "\<lambda>x y. hour_ms x < hour_ms y"] sorted by (simp add: sorted_wrt_map)
  with sorted ok assms show ?thesis
    by (auto simp: stats_inv_def record_history_def Let_def bucket_ok_def split: option.splits
        dest: set_dropWhileD)
qed

section \<open>Sequences of recordings\<close>

datatype stats_op = Rec_success duration int | Rec_soft_fail | Rec_timeout int

fun stats_step :: "rounding \<Rightarrow> upstream_stats \<Rightarrow> stats_op \<Rightarrow> upstream_stats" where
  "stats_step rnd s (Rec_success l now) = record_success_at rnd l now s"
| "stats_step rnd s Rec_soft_fail = record_soft_fail s"
| "stats_step rnd s (Rec_timeout now) = record_timeout_at rnd now s"

definition stats_run :: "rounding \<Rightarrow> upstream_stats \<Rightarrow> stats_op list \<Rightarrow> upstream_stats" where
  "stats_run rnd = foldl (stats_step rnd)"

lemma stats_run_snoc [simp]:
  "stats_run rnd s [] = s" "stats_run rnd s (ops @ [op]) = stats_step rnd (stats_run rnd s ops) op"
  by (simp_all add: stats_run_def)

lemma stats_step_inv [wf_intros]: "stats_inv s \<Longrightarrow> stats_inv (stats_step rnd s op)"
  by (cases op) (simp_all add: record_success_at_def record_soft_fail_def record_timeout_at_def Let_def
      push_inv record_history_inv)

lemma stats_run_inv [wf_intros]: "stats_inv s \<Longrightarrow> stats_inv (stats_run rnd s ops)"
  by (induction ops rule: rev_induct) (simp_all add: stats_step_inv)

lemma stats_step_frame [simp]:
  "window (stats_step rnd s op) = window s" "retention_ms (stats_step rnd s op) = retention_ms s"
  by (cases op; simp add: record_success_at_def record_soft_fail_def record_timeout_at_def Let_def)+

lemma stats_run_frame [simp]:
  "window (stats_run rnd s ops) = window s" "retention_ms (stats_run rnd s ops) = retention_ms s"
  by (induction ops rule: rev_induct) simp_all

definition sample_of :: "rounding \<Rightarrow> stats_op \<Rightarrow> sample" where
  "sample_of rnd op = (case op of Rec_success l _ \<Rightarrow> Success (latency_millis rnd l) | _ \<Rightarrow> Failure)"

lemma stats_step_samples: "samples (stats_step rnd s op) = samples (push (sample_of rnd op) s)"
  by (cases op) (simp_all add: record_success_at_def record_soft_fail_def record_timeout_at_def Let_def sample_of_def)

section \<open>The window\<close>

definition recent :: "nat \<Rightarrow> 'a list \<Rightarrow> 'a list" where
  "recent n xs = drop (length xs - n) xs"

lemma recent_snoc:
  "1 \<le> n \<Longrightarrow> (if length (recent n xs) = n then tl (recent n xs) else recent n xs) @ [x] = recent n (xs @ [x])"
  by (cases "n \<le> length xs") (simp_all add: recent_def tl_drop Suc_diff_le drop_Suc [symmetric] drop_tl)

lemma recent_map: "recent n (map f xs) = map f (recent n xs)"
  by (simp add: recent_def drop_map)

lemma samples_run:
  "samples (stats_run rnd (with_retention w d) ops) = map (sample_of rnd) (recent (max w 1) ops)"
proof (induction ops rule: rev_induct)
  case Nil
  then show ?case by (simp add: with_retention_def recent_def)
next
  case (snoc op ops)
  have "window (stats_run rnd (with_retention w d) ops) = max w 1" by (simp add: with_retention_def)
  with snoc have "samples (stats_run rnd (with_retention w d) (ops @ [op])) =
      (if length (recent (max w 1) (map (sample_of rnd) ops)) = max w 1
       then tl (recent (max w 1) (map (sample_of rnd) ops)) else recent (max w 1) (map (sample_of rnd) ops)) @
      [sample_of rnd op]"
    unfolding stats_run_snoc stats_step_samples push_def by (simp add: recent_map del: One_nat_def)
  also have "\<dots> = recent (max w 1) (map (sample_of rnd) ops @ [sample_of rnd op])"
    by (rule recent_snoc) simp
  finally show ?case by (simp add: recent_map [symmetric])
qed

text \<open>Shape of the statistics after any sequence of recordings with any clock readings,
  rollbacks included: the window holds exactly the outcomes of the most recent calls, at most
  the configured number (at least one); the hourly buckets are in strictly increasing order
  of their hour, none is empty and none counts more successes than samples.\<close>

theorem stats_shape:
  "let s = stats_run rnd (with_retention w d) ops in
     samples s = map (sample_of rnd) (recent (max w 1) ops) \<and> length (samples s) \<le> max w 1 \<and>
     sorted_wrt (<) (map hour_ms (history s)) \<and> list_all bucket_ok (history s)"
proof -
  let ?s = "stats_run rnd (with_retention w d) ops"
  have inv: "stats_inv ?s" by (intro wf_intros)
  moreover have "window ?s = max w 1" by (simp add: with_retention_def)
  ultimately show ?thesis by (simp add: Let_def samples_run stats_inv_def bucket_ok_def list_all_iff)
qed

section \<open>The history\<close>

definition clock_of :: "stats_op \<Rightarrow> (int \<times> bool) option" where
  "clock_of op = (case op of Rec_success _ t \<Rightarrow> Some (t, True) | Rec_soft_fail \<Rightarrow> None | Rec_timeout t \<Rightarrow> Some (t, False))"

text \<open>
  The reference: every counted call with the hour it is booked under (its own, or the
  latest hour seen so far after a clock rollback) and whether it succeeded.
\<close>

definition log_add :: "(int \<times> bool) list \<Rightarrow> stats_op \<Rightarrow> (int \<times> bool) list" where
  "log_add L op = (case clock_of op of None \<Rightarrow> L
     | Some (t, ok) \<Rightarrow> L @ [(if L = [] then hour_of t else max (fst (last L)) (hour_of t), ok)])"

definition call_log :: "stats_op list \<Rightarrow> (int \<times> bool) list" where
  "call_log ops = foldl log_add [] ops"









lemma add_to_history_nonempty [simp]: "add_to_history rnd h l bs \<noteq> []"
  by (auto simp: add_to_history_def)




lemma call_log_snoc [simp]: "call_log [] = []" "call_log (ops @ [op]) = log_add (call_log ops) op"
  by (simp_all add: call_log_def)








section \<open>The selection weight\<close>

lemma latency_millis_exact: "latency_millis exact l = Fin (real l / 1000000)"
proof -
  have "real l = real (l div 1000000000) * 1000000000 + real (l mod 1000000000)"
    by (metis div_mult_mod_eq of_nat_add of_nat_mult of_nat_numeral)
  then show ?thesis by (simp add: latency_millis_def f64_of_nat_def field_simps)
qed

definition latencies :: "stats_op list \<Rightarrow> real list" where
  "latencies ops = [real l / 1000000. Rec_success l _ \<leftarrow> ops]"

definition failures :: "stats_op list \<Rightarrow> nat" where
  "failures ops = length (filter (\<lambda>op. case op of Rec_success _ _ \<Rightarrow> False | _ \<Rightarrow> True) ops)"

definition mean_latency :: "stats_op list \<Rightarrow> real" where
  "mean_latency ops = (if latencies ops = [] then 100 else sum_list (latencies ops) / real (length (latencies ops)))"

definition failed_share :: "stats_op list \<Rightarrow> real" where
  "failed_share ops = (if ops = [] then 0 else real (failures ops) / real (length ops))"

lemma avg_fold:
  "foldl (\<lambda>(tot, n) x. case x of Success l \<Rightarrow> (fadd exact tot l, n + 1) | Failure \<Rightarrow> (tot, n))
     (Fin a, m) (map (sample_of exact) ops) =
   (Fin (a + sum_list (latencies ops)), m + length (latencies ops))"
proof (induction ops arbitrary: a m)
  case (Cons op ops)
  then show ?case
    using latency_millis_exact by (cases op) (simp_all add: sample_of_def latencies_def add.assoc)
qed (simp add: latencies_def)

lemma failures_filter: "length (filter (\<lambda>x. x = Failure) (map (sample_of rnd) ops)) = failures ops"
proof (induction ops)
  case (Cons op ops)
  then show ?case by (cases op) (simp_all add: failures_def sample_of_def)
qed (simp add: failures_def)

lemma mean_latency_nonneg: "0 \<le> mean_latency ops"
proof -
  have "0 \<le> sum_list (latencies ops)" by (intro sum_list_nonneg) (auto simp: latencies_def split: stats_op.splits)
  then show ?thesis by (simp add: mean_latency_def)
qed

text \<open>The selection weight, in exact arithmetic, after any sequence of recordings: it is
  \<open>1 / ((t + 1) (1 + max k 0 f))\<close> for the mean success latency \<open>t\<close> in milliseconds and the share
  of failures \<open>f\<close> among the calls of the window (100 and 0 where there are none), and it lies
  above zero and at most one: no history makes a member unselectable.\<close>

theorem weight_formula:
  "let r = recent (max w 1) ops; x = 1 / ((mean_latency r + 1) * (1 + max k 0 * failed_share r)) in
     weight exact (stats_run exact (with_retention w d) ops) (Fin k) = Fin x \<and> 0 < x \<and> x \<le> 1"
proof -
  let ?s = "stats_run exact (with_retention w d) ops" and ?r = "recent (max w 1) ops"
  have avg: "avg_latency_ms exact ?s = Fin (mean_latency ?r)"
    unfolding avg_latency_ms_def samples_run avg_fold
    by (simp add: mean_latency_def f64_of_nat_def)
  have fail: "failure_rate exact ?s = Fin (failed_share ?r)"
    unfolding failure_rate_def samples_run failures_filter
    by (simp add: failed_share_def f64_of_nat_def)
  have f: "0 \<le> failed_share ?r" by (simp add: failed_share_def)
  have t: "1 \<le> mean_latency ?r + 1" using mean_latency_nonneg [of ?r] by simp
  have g: "1 \<le> 1 + max k 0 * failed_share ?r" using f by simp
  have "1 \<le> (mean_latency ?r + 1) * (1 + max k 0 * failed_share ?r)"
    using mult_mono [OF t g] t by simp
  moreover from this have "(mean_latency ?r + 1) * (1 + max k 0 * failed_share ?r) \<noteq> 0" by linarith
  ultimately show ?thesis by (simp add: Let_def weight_def avg [simplified] fail [simplified] fdiv_def)
qed

end
