(* ===== verification/Upstream_Metrics.thy ===== *)
theory Upstream_Metrics
  imports Stats Rust_Str
begin

text \<open>
  \<open>src/dashboard/upstreams.rs\<close>: the registry through which the dashboard sees the
  statistics of the upstream members. The statistics are shared between a group and the
  registry, so they live in an explicit store: a list of cells, addressed by position, each a
  mutex with its poison flag.
\<close>

record stats_cell =
  cell_stats :: upstream_stats
  cell_poisoned :: bool

type_synonym stats_heap = "stats_cell list"

definition locked :: "stats_heap \<Rightarrow> nat \<Rightarrow> upstream_stats option" where
  "locked h r = (if r < length h \<and> \<not> cell_poisoned (h ! r) then Some (cell_stats (h ! r)) else None)"

text \<open>\<open>if let Ok(mut s) = stats.lock() { f(&mut s) }\<close>\<close>

definition with_lock :: "nat \<Rightarrow> (upstream_stats \<Rightarrow> upstream_stats) \<Rightarrow> stats_heap \<Rightarrow> stats_heap" where
  "with_lock r f h = (case locked h r of None \<Rightarrow> h | Some s \<Rightarrow> h[r := (h ! r)\<lparr>cell_stats := f s\<rparr>])"

record metric_member =
  mm_id :: string
  mm_name :: string
  mm_group :: string
  mm_stats :: nat

record upstream_snapshot =
  us_id :: string
  us_name :: string
  us_group :: string
  us_samples :: nat
  us_successes :: nat
  us_failure_rate :: f64
  us_avg_latency_ms :: "f64 option"

definition metrics_snapshot :: "rounding \<Rightarrow> int \<Rightarrow> stats_heap \<Rightarrow> metric_member list \<Rightarrow> upstream_snapshot list" where
  "metrics_snapshot rnd now h ms = List.map_filter (\<lambda>m. case locked h (mm_stats m) of
     None \<Rightarrow> None
   | Some s \<Rightarrow> (let snap = snapshot_now rnd now s in
       Some \<lparr>us_id = mm_id m, us_name = mm_name m, us_group = mm_group m,
             us_samples = ss_samples snap, us_successes = ss_successes snap,
             us_failure_rate = ss_failure_rate snap, us_avg_latency_ms = ss_avg_latency_ms snap\<rparr>)) ms"

definition register :: "string \<Rightarrow> string \<Rightarrow> nat \<Rightarrow> metric_member list \<Rightarrow> metric_member list" where
  "register name grp stats b =
     (let group_index = length (filter (\<lambda>m. mm_group m = grp) b) in
      b @ [\<lparr>mm_id = grp @ ''-'' @ dec_string group_index, mm_name = name, mm_group = grp, mm_stats = stats\<rparr>])"

section \<open>The store\<close>

lemma length_with_lock [simp]: "length (with_lock r f h) = length h"
  by (simp add: with_lock_def split: option.splits)

lemma locked_with_lock:
  "locked (with_lock r f h) r' = (if r' = r then map_option f (locked h r) else locked h r')"
  by (auto simp: with_lock_def locked_def nth_list_update split: option.splits if_splits)

lemma with_lock_poison [simp]: "r' < length h \<Longrightarrow> cell_poisoned (with_lock r f h ! r') = cell_poisoned (h ! r')"
  by (cases "r = r'") (auto simp: with_lock_def locked_def split: option.splits)

section \<open>Registration\<close>

lemma dec_string_inject: "dec_string a = dec_string b \<longleftrightarrow> a = b"
  using digits_value_dec_string by (metis option.inject)

lemma dec_string_no_dash: "CHR ''-'' \<notin> set (dec_string n)"
  using dec_string_digits [of "CHR ''-''" n] by (auto simp: dec_digit_def)

lemma id_inject: "g @ ''-'' @ dec_string i = g' @ ''-'' @ dec_string j \<longleftrightarrow> g = g' \<and> i = j"
proof
  assume "g @ ''-'' @ dec_string i = g' @ ''-'' @ dec_string j"
  then have "rsplit_once (CHR ''-'') (g @ CHR ''-'' # dec_string i) = rsplit_once (CHR ''-'') (g' @ CHR ''-'' # dec_string j)"
    by simp
  moreover have "rsplit_once (CHR ''-'') (x @ CHR ''-'' # dec_string n) = Some (x, dec_string n)" for x n
    by (simp add: rsplit_once_Some_iff dec_string_no_dash)
  ultimately show "g = g' \<and> i = j" by (simp add: dec_string_inject)
qed simp

text \<open>Members of one group are numbered from zero in the order of registration.\<close>

definition numbered :: "metric_member list \<Rightarrow> bool" where
  "numbered b \<longleftrightarrow> (\<forall>i < length b. mm_id (b ! i) =
     mm_group (b ! i) @ ''-'' @ dec_string (length (filter (\<lambda>m. mm_group m = mm_group (b ! i)) (take i b))))"

lemma numbered_register [wf_intros]: "numbered b \<Longrightarrow> numbered (register name grp r b)"
  by (auto simp: numbered_def register_def Let_def nth_append)

lemma numbered_empty [wf_intros]: "numbered []"
  by (simp add: numbered_def)

lemma numbered_distinct:
  assumes "numbered b"
  shows "distinct (map mm_id b)"
proof -
  have "mm_id (b ! i) \<noteq> mm_id (b ! j)" if "i < j" "j < length b" for i j
  proof
    assume eq: "mm_id (b ! i) = mm_id (b ! j)"
    let ?n = "\<lambda>k. length (filter (\<lambda>m. mm_group m = mm_group (b ! j)) (take k b))"
    from eq assms that have g: "mm_group (b ! i) = mm_group (b ! j)" and n: "?n i = ?n j"
      by (auto simp: numbered_def id_inject simp del: append.simps)
    have split: "take j b = take i b @ b ! i # drop (Suc i) (take j b)"
      using that id_take_nth_drop [of i "take j b"] by (simp add: min_def)
    have "?n j = ?n i + Suc (length (filter (\<lambda>m. mm_group m = mm_group (b ! j)) (drop (Suc i) (take j b))))"
      using g by (subst split) simp
    with n show False by simp
  qed
  then show ?thesis
    by (simp add: distinct_conv_nth) (metis linorder_neqE_nat)
qed

text \<open>The identifiers the dashboard shows are unique: however many members of whatever
  groups are registered, in any order and under any names, no two get the same identifier,
  and the snapshot lists each registered member at most once, in registration order, leaving
  out exactly those whose lock is poisoned.\<close>

theorem metric_ids_distinct:
  "let b = foldl (\<lambda>b (name, grp, r). register name grp r b) [] regs in
     distinct (map mm_id b) \<and> map mm_name b = map fst regs \<and>
     map us_id (metrics_snapshot rnd now h b) = map mm_id (filter (\<lambda>m. locked h (mm_stats m) \<noteq> None) b)"
proof -
  let ?reg = "\<lambda>b (name, grp, r). register name grp r b"
  have "numbered (foldl ?reg b regs) \<and> map mm_name (foldl ?reg b regs) = map mm_name b @ map fst regs"
    if "numbered b" for b
    using that
  proof (induction regs arbitrary: b)
    case (Cons x regs)
    obtain name grp r where x: "x = (name, grp, r)" by (cases x)
    have "map mm_name (register name grp r b) = map mm_name b @ [name]" by (simp add: register_def Let_def)
    with Cons.IH [OF numbered_register [OF Cons.prems]] show ?case by (simp add: x)
  qed simp
  from this [OF numbered_empty] have "numbered (foldl ?reg [] regs)" "map mm_name (foldl ?reg [] regs) = map fst regs"
    by simp_all
  moreover have "map us_id (metrics_snapshot rnd now h b) = map mm_id (filter (\<lambda>m. locked h (mm_stats m) \<noteq> None) b)" for b
    by (induction b) (auto simp: metrics_snapshot_def List.map_filter_simps Let_def split: option.splits)
  ultimately show ?thesis by (simp add: Let_def numbered_distinct)
qed

end
