(* ===== verification/Selector.thy ===== *)
theory Selector
  imports F64
begin

text \<open>
  \<open>src/upstream/selector.rs\<close>: the weighted pick. The random roll is an argument, as in the
  code; the rounding of the arithmetic is an argument too. Safety is shown for every rounding,
  proportionality for exact arithmetic.
\<close>

definition usable :: "f64 \<Rightarrow> bool" where
  "usable w \<longleftrightarrow> is_finite w \<and> flt (Fin 0) w"

text \<open>The accumulation loop, with the index it has reached.\<close>

fun pick_loop :: "rounding \<Rightarrow> f64 \<Rightarrow> f64 \<Rightarrow> nat \<Rightarrow> f64 list \<Rightarrow> nat option" where
  "pick_loop rnd target acc i [] = None"
| "pick_loop rnd target acc i (w # ws) =
     (if usable w
      then let acc = fadd rnd acc w in
           if flt target acc then Some i else pick_loop rnd target acc (Suc i) ws
      else pick_loop rnd target acc (Suc i) ws)"

fun rposition :: "('a \<Rightarrow> bool) \<Rightarrow> 'a list \<Rightarrow> nat option" where
  "rposition P [] = None"
| "rposition P (x # xs) =
     (case rposition P xs of Some i \<Rightarrow> Some (Suc i) | None \<Rightarrow> if P x then Some 0 else None)"

definition pick_weighted :: "rounding \<Rightarrow> f64 list \<Rightarrow> f64 \<Rightarrow> nat option" where
  "pick_weighted rnd weights roll =
     (if weights = [] then None
      else let total = fsum rnd (filter usable weights) in
        if fle total (Fin 0)
        then Some (min (usize_of_f64 (fmul rnd roll (f64_of_nat rnd (length weights)))) (length weights - 1))
        else let target = fmul rnd roll total in
          case pick_loop rnd target (Fin 0) 0 weights of
            Some i \<Rightarrow> Some i
          | None \<Rightarrow> rposition usable weights)"

section \<open>The loops\<close>

lemma pick_loop_usable:
  "pick_loop rnd target acc i ws = Some j \<Longrightarrow> i \<le> j \<and> j < i + length ws \<and> usable (ws ! (j - i))"
proof (induction rnd target acc i ws rule: pick_loop.induct)
  case (2 rnd target acc i w ws)
  show ?case
  proof (cases "usable w \<and> flt target (fadd rnd acc w)")
    case True
    with "2.prems" show ?thesis by (auto simp: Let_def)
  next
    case False
    then have "\<exists>acc'. pick_loop rnd target acc' (Suc i) ws = Some j \<and>
        (Suc i \<le> j \<and> j < Suc i + length ws \<and> usable (ws ! (j - Suc i)))"
      using 2 by (cases "usable w") (auto simp: Let_def)
    then show ?thesis by (auto simp: nth_Cons' Suc_le_eq)
  qed
qed simp

lemma rposition_Some: "rposition P xs = Some i \<Longrightarrow> i < length xs \<and> P (xs ! i)"
  by (induction xs arbitrary: i) (auto split: option.splits if_splits)

lemma rposition_None_iff: "rposition P xs = None \<longleftrightarrow> list_all (\<lambda>x. \<not> P x) xs"
  by (induction xs) (auto split: option.splits)

lemma fsum_pos_nonempty: "\<not> fle (fsum rnd (filter usable ws)) (Fin 0) \<Longrightarrow> \<not> list_all (\<lambda>x. \<not> usable x) ws"
  by (auto simp: fsum_def list_all_iff [symmetric] filter_False)

section \<open>Safety for every rounding\<close>

text \<open>
  What is used of the rounding of the hardware: it is monotone, and the weights, being
  machine numbers, are left alone by it.
\<close>

definition rounds :: "rounding \<Rightarrow> f64 list \<Rightarrow> bool" where
  "rounds rnd ws \<longleftrightarrow> (\<forall>a b. a \<le> b \<longrightarrow> fle (rnd a) (rnd b)) \<and> (\<forall>w. Fin w \<in> set ws \<longrightarrow> rnd w = Fin w)"

lemma fadd_usable:
  assumes "rounds rnd ws" and "w \<in> set ws" and "usable w" and "fle (Fin 0) acc"
  shows "flt (Fin 0) (fadd rnd acc w)"
proof -
  from assms(3) obtain x where w: "w = Fin x" "0 < x" by (auto simp: usable_def is_finite_iff)
  show ?thesis
  proof (cases acc)
    case (Fin a)
    with assms(4) have "0 \<le> a" by simp
    then have "fle (rnd x) (rnd (a + x))" using assms(1) by (simp add: rounds_def)
    moreover have "rnd x = Fin x" using assms(1,2) w by (simp add: rounds_def)
    ultimately have "fle (Fin x) (rnd (a + x))" by simp
    with w(2) Fin w(1) show ?thesis by (cases "rnd (a + x)") auto
  qed (use assms(4) w in auto)
qed

lemma flt_fle: "flt (Fin 0) x \<Longrightarrow> fle (Fin 0) x" "flt (Fin 0) x \<Longrightarrow> \<not> fle x (Fin 0)"
  by (cases x; simp)+

lemma fsum_usable:
  assumes "rounds rnd ws" and "set us \<subseteq> set ws" and "\<forall>u \<in> set us. usable u"
  shows "fle (Fin 0) acc \<Longrightarrow> us \<noteq> [] \<Longrightarrow> flt (Fin 0) (foldl (fadd rnd) acc us)"
  using assms(2,3)
proof (induction us arbitrary: acc)
  case (Cons u us)
  have u: "flt (Fin 0) (fadd rnd acc u)" using Cons.prems by (intro fadd_usable [OF assms(1)]) auto
  show ?case
  proof (cases "us = []")
    case False
    then show ?thesis using Cons.IH [of "fadd rnd acc u"] Cons.prems flt_fle(1) [OF u] by simp
  qed (use u in simp)
qed simp

text \<open>C24. The pick is safe for every roll, NaN and out-of-range values included, and every
  monotone rounding: a non-empty list of weights always yields an index inside the list, and
  whenever some weight is finite and positive the picked weight is finite and positive, so an
  excluded member (weight zero) is never picked while another one can be.\<close>

theorem pick_weighted_safe:
  assumes "weights \<noteq> []" and "rounds rnd weights"
  shows "\<exists>i < length weights. pick_weighted rnd weights roll = Some i \<and>
    ((\<exists>w \<in> set weights. usable w) \<longrightarrow> usable (weights ! i))"
proof (cases "\<exists>w \<in> set weights. usable w")
  case True
  then have "filter usable weights \<noteq> []" by (auto simp: filter_empty_conv)
  then have "flt (Fin 0) (fsum rnd (filter usable weights))"
    unfolding fsum_def by (intro fsum_usable [OF assms(2)]) auto
  then have total: "\<not> fle (fsum rnd (filter usable weights)) (Fin 0)" by (rule flt_fle)
  show ?thesis
  proof (cases "pick_loop rnd (fmul rnd roll (fsum rnd (filter usable weights))) (Fin 0) 0 weights")
    case None
    obtain i where i: "rposition usable weights = Some i"
      using fsum_pos_nonempty [OF total] rposition_None_iff by blast
    with rposition_Some [OF i] None total assms(1) show ?thesis by (simp add: pick_weighted_def Let_def)
  next
    case (Some i)
    with pick_loop_usable [OF Some] total assms(1) show ?thesis by (simp add: pick_weighted_def Let_def)
  qed
next
  case False
  then have "filter usable weights = []" by (auto simp: filter_empty_conv)
  then show ?thesis using assms(1) False by (simp add: pick_weighted_def fsum_def min_less_iff_disj)
qed

lemma exact_rounds: "rounds exact ws"
  by (simp add: rounds_def)

lemma pick_weighted_safe_witness:
  "\<exists>i < 3. pick_weighted exact [Fin 0, Fin 3, NaN] (Fin (1/2)) = Some i \<and> usable ([Fin 0, Fin 3, NaN] ! i)"
  using pick_weighted_safe [OF _ exact_rounds, of "[Fin 0, Fin 3, NaN]" "Fin (1/2)"]
  by (simp add: usable_def numeral_3_eq_3)

section \<open>Proportionality\<close>

lemma pick_loop_exact:
  assumes "\<forall>w \<in> set ws. 0 \<le> w" and "a \<le> t"
  shows "pick_loop exact (Fin t) (Fin a) i (map Fin ws) = Some j \<longleftrightarrow>
    (\<exists>k < length ws. j = i + k \<and> a + sum_list (take k ws) \<le> t \<and> t < a + sum_list (take (Suc k) ws))"
  using assms
proof (induction ws arbitrary: a i)
  case (Cons w ws)
  have split: "(\<exists>k < length (w # ws). P k) \<longleftrightarrow> P 0 \<or> (\<exists>k < length ws. P (Suc k))" for P
    by (simp add: Ex_less_Suc2)
  show ?case
  proof (cases "w > 0 \<and> t < a + w")
    case True
    have "\<not> (a + (w + sum_list (take k ws)) \<le> t)" for k
    proof -
      have "0 \<le> sum_list (take k ws)" using Cons.prems(1) by (intro sum_list_nonneg) (auto dest: in_set_takeD)
      with True show ?thesis by simp
    qed
    with True Cons.prems(2) show ?thesis unfolding split by (auto simp: usable_def Let_def)
  next
    case False
    have rec: "pick_loop exact (Fin t) (Fin a) i (map Fin (w # ws)) =
        pick_loop exact (Fin t) (Fin (a + w)) (Suc i) (map Fin ws)"
      using False Cons.prems(1) by (cases "w = 0") (auto simp: usable_def Let_def)
    have "a + w \<le> t" using False Cons.prems by (cases "w = 0") auto
    with Cons.IH [of "a + w" "Suc i"] Cons.prems(1)
    have "pick_loop exact (Fin t) (Fin (a + w)) (Suc i) (map Fin ws) = Some j \<longleftrightarrow>
      (\<exists>k<length ws. j = i + Suc k \<and> a + sum_list (take (Suc k) (w # ws)) \<le> t \<and>
         t < a + sum_list (take (Suc (Suc k)) (w # ws)))"
      by (simp add: add.assoc)
    then show ?thesis unfolding split rec using \<open>a + w \<le> t\<close> by auto
  qed
qed simp

text \<open>Proportionality: in exact arithmetic, with non-negative weights of positive total,
  member \<open>i\<close> is picked exactly for the rolls in an interval of length \<open>w i / total\<close>, and the
  intervals follow each other in member order; a uniform roll therefore picks every member
  with probability proportional to its weight.\<close>

theorem pick_weighted_proportional:
  assumes "\<forall>w \<in> set ws. 0 \<le> w" and "0 < sum_list ws" and "0 \<le> roll" and "roll < 1" and "i < length ws"
  shows "pick_weighted exact (map Fin ws) (Fin roll) = Some i \<longleftrightarrow>
    roll \<in> {sum_list (take i ws) / sum_list ws ..< sum_list (take i ws) / sum_list ws + ws ! i / sum_list ws}"
proof -
  have sum: "fsum exact (filter usable (map Fin us)) = Fin (sum_list us)" if "\<forall>w \<in> set us. 0 \<le> w" for us
  proof -
    have "filter usable (map Fin us) = map Fin (filter (\<lambda>w. 0 < w) us)"
      by (induction us) (auto simp: usable_def)
    moreover have "sum_list (filter (\<lambda>w. 0 < w) us) = sum_list us"
      using that by (induction us) (auto simp: le_less)
    ultimately show ?thesis by (simp add: fsum_def fsum_exact)
  qed
  let ?T = "sum_list ws" and ?t = "roll * sum_list ws"
  have t: "0 \<le> ?t" "?t < ?T" using assms(2-4) by auto
  have suc: "sum_list (take (Suc i) ws) = sum_list (take i ws) + ws ! i"
    using assms(5) by (simp add: take_Suc_conv_app_nth)
  have "\<exists>k < length ws. sum_list (take k ws) \<le> ?t \<and> ?t < sum_list (take (Suc k) ws)"
  proof -
    define k where "k = (LEAST n. ?t < sum_list (take n ws))"
    have ex: "?t < sum_list (take (length ws) ws)" using t by simp
    then have k: "?t < sum_list (take k ws)" "k \<le> length ws"
      unfolding k_def by (rule LeastI, rule Least_le)
    with t have "k \<noteq> 0" by (metis leD sum_list.Nil take0)
    then obtain m where m: "k = Suc m" by (metis not0_implies_Suc)
    then have "sum_list (take m ws) \<le> ?t" unfolding k_def by (metis Suc_n_not_le_n not_less Least_le)
    with k m show ?thesis by (intro exI [of _ m]) simp
  qed
  then obtain j where "pick_loop exact (Fin ?t) (Fin 0) 0 (map Fin ws) = Some j"
    using pick_loop_exact [OF assms(1) t(1), of 0] by auto
  then have "pick_weighted exact (map Fin ws) (Fin roll) = pick_loop exact (Fin ?t) (Fin 0) 0 (map Fin ws)"
    using assms(2) sum [OF assms(1)] assms(5) by (auto simp: pick_weighted_def Let_def)
  moreover have "pick_loop exact (Fin ?t) (Fin 0) 0 (map Fin ws) = Some i \<longleftrightarrow>
      sum_list (take i ws) \<le> ?t \<and> ?t < sum_list (take i ws) + ws ! i"
    using pick_loop_exact [OF assms(1) t(1), of 0 i] assms(5) suc by auto
  ultimately show ?thesis
    using assms(2) by (simp add: field_simps)
qed

lemma pick_weighted_proportional_witness:
  "pick_weighted exact (map Fin [1, 3]) (Fin (1/2)) = Some 1"
  using pick_weighted_proportional [of "[1, 3]" "1/2" 1] by simp

end
