(* ===== verification/Upstream_Group.thy ===== *)
theory Upstream_Group
  imports Upstream_Metrics Selector Dns_Message
begin

text \<open>
  \<open>src/upstream/group.rs\<close>: a group of upstream members, weighted selection with one
  reselection after a failure, the accounting of every attempt, and the fallback chain.

  An attempt is asynchronous. What its member does is supplied by the environment as an
  outcome: a reply (with the elapsed time and the wall clock at that moment), an error, or
  cancellation, where the future is dropped while it waits. While an attempt waits, other
  queries use the same statistics; \<open>others\<close> is what they do to the store meanwhile.
\<close>

definition MAX_ATTEMPTS :: nat where
  "MAX_ATTEMPTS = 2"

record group_member =
  gm_name :: string
  gm_stats :: nat

record upstream_group =
  gr_members :: "group_member list"
  gr_k :: f64

section \<open>Construction\<close>

definition add_member ::
  "nat \<Rightarrow> nat \<Rightarrow> string \<Rightarrow> group_member list \<times> metric_member list \<times> stats_heap \<Rightarrow> string \<Rightarrow>
   group_member list \<times> metric_member list \<times> stats_heap" where
  "add_member w retention_days kind st name = (case st of (ms, b, h) \<Rightarrow>
     let r = length h in
     (ms @ [\<lparr>gm_name = name, gm_stats = r\<rparr>], register name kind r b,
      h @ [\<lparr>cell_stats = with_retention w retention_days, cell_poisoned = False\<rparr>]))"

definition group_new ::
  "string list \<Rightarrow> nat \<Rightarrow> f64 \<Rightarrow> nat \<Rightarrow> metric_member list \<Rightarrow> string \<Rightarrow> stats_heap \<Rightarrow>
   upstream_group \<times> metric_member list \<times> stats_heap" where
  "group_new names w k retention_days b kind h =
     (case foldl (add_member w retention_days kind) ([], b, h) names of
        (ms, b, h) \<Rightarrow> (\<lparr>gr_members = ms, gr_k = k\<rparr>, b, h))"

section \<open>One attempt\<close>

datatype attempt_outcome =
    Replied message duration int
  | Failed resolve_error
  | Cancelled "bool option" int

datatype 'a future = Done 'a | Dropped

record attempt_guard =
  ag_stats :: nat
  ag_succeeded :: "bool option"
  armed :: bool

definition guard_new :: "nat \<Rightarrow> bool option \<Rightarrow> attempt_guard" where
  "guard_new r flag = \<lparr>ag_stats = r, ag_succeeded = flag, armed = True\<rparr>"

definition disarm :: "attempt_guard \<Rightarrow> attempt_guard" where
  "disarm g = g\<lparr>armed := False\<rparr>"

text \<open>Dropping the guard; the flag is read at that moment (\<open>None\<close> outside the retry engine).\<close>

definition guard_drop :: "rounding \<Rightarrow> int \<Rightarrow> attempt_guard \<Rightarrow> stats_heap \<Rightarrow> stats_heap" where
  "guard_drop rnd now g h =
     (if \<not> armed g then h
      else if ag_succeeded g = Some True then h
      else with_lock (ag_stats g) (record_timeout rnd now) h)"

definition try_member ::
  "rounding \<Rightarrow> attempt_outcome \<Rightarrow> group_member \<Rightarrow> stats_heap \<Rightarrow> message resolved future \<times> stats_heap" where
  "try_member rnd out m h = (case out of
     Replied resp latency now \<Rightarrow>
       (let guard = disarm (guard_new (gm_stats m) None);
            h = with_lock (gm_stats m) (record_success rnd latency now) h
        in (Done (Ok resp), guard_drop rnd now guard h))
   | Failed e \<Rightarrow>
       (let guard = disarm (guard_new (gm_stats m) None);
            h = with_lock (gm_stats m) record_soft_fail h
        in (Done (Err e), guard_drop rnd 0 guard h))
   | Cancelled flag now \<Rightarrow> (Dropped, guard_drop rnd now (guard_new (gm_stats m) flag) h))"

section \<open>Selection and reselection\<close>

definition group_weights :: "rounding \<Rightarrow> upstream_group \<Rightarrow> stats_heap \<Rightarrow> nat list \<Rightarrow> f64 list" where
  "group_weights rnd g h exclude = map (\<lambda>i.
     if i \<in> set exclude then Fin 0
     else case locked h (gm_stats (gr_members g ! i)) of None \<Rightarrow> Fin 0 | Some s \<Rightarrow> weight rnd s (gr_k g))
     [0..<length (gr_members g)]"

record group_env =
  roll :: "nat \<Rightarrow> f64"
  outcome :: "nat \<Rightarrow> nat \<Rightarrow> attempt_outcome"
  others :: "nat \<Rightarrow> stats_heap \<Rightarrow> stats_heap"

type_synonym group_result = "(message \<times> string) resolved future \<times> nat list \<times> stats_heap"

definition give_up :: "resolve_error option \<Rightarrow> nat list \<Rightarrow> stats_heap \<Rightarrow> group_result" where
  "give_up last_err tried h = (Done (Err (case last_err of None \<Rightarrow> Group_exhausted | Some e \<Rightarrow> e)), tried, h)"

text \<open>The loop of \<open>resolve_member\<close>: attempts left, the number of the attempt, the members tried.\<close>

fun member_loop ::
  "rounding \<Rightarrow> upstream_group \<Rightarrow> group_env \<Rightarrow> nat \<Rightarrow> nat \<Rightarrow> nat list \<Rightarrow> resolve_error option \<Rightarrow> stats_heap \<Rightarrow> group_result" where
  "member_loop rnd g env 0 n tried last_err h = give_up last_err tried h"
| "member_loop rnd g env (Suc left) n tried last_err h =
     (case pick_weighted rnd (group_weights rnd g h tried) (roll env n) of
        None \<Rightarrow> give_up last_err tried h
      | Some idx \<Rightarrow>
          (case (if idx \<in> set tried
                 then List.find (\<lambda>i. i \<notin> set tried) [0..<length (gr_members g)] else Some idx) of
             None \<Rightarrow> give_up last_err tried h
           | Some i \<Rightarrow>
               (let m = gr_members g ! i in
                case try_member rnd (outcome env n i) m (others env n h) of
                  (Done (Ok resp), h) \<Rightarrow> (Done (Ok (resp, gm_name m)), tried @ [i], h)
                | (Done (Err e), h) \<Rightarrow> member_loop rnd g env left (Suc n) (tried @ [i]) (Some e) h
                | (Dropped, h) \<Rightarrow> (Dropped, tried @ [i], h))))"

definition resolve_member :: "rounding \<Rightarrow> upstream_group \<Rightarrow> group_env \<Rightarrow> stats_heap \<Rightarrow> group_result" where
  "resolve_member rnd g env h =
     (if gr_members g = [] then (Done (Err Group_empty), [], h)
      else member_loop rnd g env (min (length (gr_members g)) MAX_ATTEMPTS) 0 [] None h)"

definition group_resolve_attributed ::
  "rounding \<Rightarrow> upstream_group \<Rightarrow> group_env \<Rightarrow> stats_heap \<Rightarrow> attributed resolved future \<times> stats_heap" where
  "group_resolve_attributed rnd g env h = (case resolve_member rnd g env h of
     (Done r, _, h) \<Rightarrow> (Done (and_then r (\<lambda>(resp, name). Ok (resp, Some name))), h)
   | (Dropped, _, h) \<Rightarrow> (Dropped, h))"

definition group_resolve ::
  "rounding \<Rightarrow> upstream_group \<Rightarrow> group_env \<Rightarrow> stats_heap \<Rightarrow> message resolved future \<times> stats_heap" where
  "group_resolve rnd g env h = (case resolve_member rnd g env h of
     (Done r, _, h) \<Rightarrow> (Done (and_then r (\<lambda>(resp, name). Ok resp)), h)
   | (Dropped, _, h) \<Rightarrow> (Dropped, h))"

section \<open>The fallback chain\<close>

definition fallback_resolve_attributed ::
  "('s \<Rightarrow> message \<Rightarrow> attributed resolved \<times> 's) \<Rightarrow> ('s \<Rightarrow> message \<Rightarrow> attributed resolved \<times> 's) \<Rightarrow>
   's \<Rightarrow> message \<Rightarrow> attributed resolved \<times> 's" where
  "fallback_resolve_attributed primary fallback s query = (case primary s query of
     (Ok resp, s) \<Rightarrow> (Ok resp, s)
   | (Err e, s) \<Rightarrow> fallback s query)"

definition fallback_resolve ::
  "('s \<Rightarrow> message \<Rightarrow> attributed resolved \<times> 's) \<Rightarrow> ('s \<Rightarrow> message \<Rightarrow> attributed resolved \<times> 's) \<Rightarrow>
   's \<Rightarrow> message \<Rightarrow> message resolved \<times> 's" where
  "fallback_resolve primary fallback s query =
     (case fallback_resolve_attributed primary fallback s query of (r, s) \<Rightarrow> (and_then r (\<lambda>x. Ok (fst x)), s))"

section \<open>The loop\<close>

text \<open>The statistics that one attempt leaves behind.\<close>

definition account :: "rounding \<Rightarrow> attempt_outcome \<Rightarrow> upstream_stats \<Rightarrow> upstream_stats" where
  "account rnd out s = (case out of
     Replied _ latency now \<Rightarrow> record_success rnd latency now s
   | Failed _ \<Rightarrow> record_soft_fail s
   | Cancelled flag now \<Rightarrow> if flag = Some True then s else record_timeout rnd now s)"

definition outcome_result :: "attempt_outcome \<Rightarrow> message resolved future" where
  "outcome_result out = (case out of Replied m _ _ \<Rightarrow> Done (Ok m) | Failed e \<Rightarrow> Done (Err e) | Cancelled _ _ \<Rightarrow> Dropped)"

lemma with_lock_id: "with_lock r (\<lambda>s. s) h = h"
  by (auto simp: with_lock_def locked_def split: option.splits)

lemma try_member_eq:
  "try_member rnd out m h = (outcome_result out, with_lock (gm_stats m) (account rnd out) h)"
  by (cases out)
    (auto simp: try_member_def account_def [abs_def] outcome_result_def Let_def guard_drop_def disarm_def
      guard_new_def with_lock_id)

lemma length_group_weights [simp]: "length (group_weights rnd g h ex) = length (gr_members g)"
  by (simp add: group_weights_def)

lemma pick_weighted_index: "ws \<noteq> [] \<Longrightarrow> \<exists>i < length ws. pick_weighted rnd ws r = Some i"
proof -
  assume ws: "ws \<noteq> []"
  show ?thesis
  proof (cases "fle (fsum rnd (filter usable ws)) (Fin 0)")
    case True
    with ws show ?thesis by (simp add: pick_weighted_def min_less_iff_disj)
  next
    case False
    then obtain i where "rposition usable ws = Some i"
      using fsum_pos_nonempty rposition_None_iff by blast
    with False ws show ?thesis
      using rposition_Some pick_loop_usable [of rnd _ "Fin 0" 0 ws]
      by (fastforce simp: pick_weighted_def Let_def split: option.splits)
  qed
qed

text \<open>As long as a member is left to try, an attempt is made, at a member not yet tried.\<close>

lemma choose_untried:
  assumes "length tried < length (gr_members g)" and "set tried \<subseteq> {..<length (gr_members g)}"
  obtains i where "i < length (gr_members g)" "i \<notin> set tried"
    "\<exists>idx. pick_weighted rnd (group_weights rnd g h tried) r = Some idx \<and>
      (if idx \<in> set tried then List.find (\<lambda>i. i \<notin> set tried) [0..<length (gr_members g)] else Some idx) = Some i"
proof -
  let ?n = "length (gr_members g)"
  have "group_weights rnd g h tried \<noteq> []" using assms(1) by (auto simp: group_weights_def)
  then obtain idx where idx: "idx < ?n" "pick_weighted rnd (group_weights rnd g h tried) r = Some idx"
    using pick_weighted_index [of "group_weights rnd g h tried" rnd r] by auto
  show thesis
  proof (cases "idx \<in> set tried")
    case True
    have "card (set tried) < card {..<?n}" using assms(1) card_length [of tried] by simp
    then have "\<not> {..<?n} \<subseteq> set tried" by (meson card_mono finite_set not_less)
    then have "List.find (\<lambda>i. i \<notin> set tried) [0..<?n] \<noteq> None" by (auto simp: find_None_iff)
    then obtain i where i: "List.find (\<lambda>i. i \<notin> set tried) [0..<?n] = Some i" by blast
    then have "i < ?n" "i \<notin> set tried" by (auto simp: find_Some_iff)
    with that i idx True show thesis by simp
  next
    case False
    with that idx show thesis by simp
  qed
qed

text \<open>What a sequence of tried members explains: the result, and the state of the store.\<close>

fun explains :: "upstream_group \<Rightarrow> group_env \<Rightarrow> nat \<Rightarrow> nat list \<Rightarrow> resolve_error option \<Rightarrow> (message \<times> string) resolved future \<Rightarrow> bool" where
  "explains g env n [] err r \<longleftrightarrow> r = Done (Err (case err of None \<Rightarrow> Group_exhausted | Some e \<Rightarrow> e))"
| "explains g env n (i # is) err r \<longleftrightarrow> (case outcome env n i of
     Replied m _ _ \<Rightarrow> is = [] \<and> r = Done (Ok (m, gm_name (gr_members g ! i)))
   | Failed e \<Rightarrow> explains g env (Suc n) is (Some e) r
   | Cancelled _ _ \<Rightarrow> is = [] \<and> r = Dropped)"

fun replay :: "rounding \<Rightarrow> upstream_group \<Rightarrow> group_env \<Rightarrow> nat \<Rightarrow> nat list \<Rightarrow> stats_heap \<Rightarrow> stats_heap" where
  "replay rnd g env n [] h = h"
| "replay rnd g env n (i # is) h = replay rnd g env (Suc n) is
     (with_lock (gm_stats (gr_members g ! i)) (account rnd (outcome env n i)) (others env n h))"

lemma member_loop_spec:
  assumes "distinct tried" and "set tried \<subseteq> {..<length (gr_members g)}"
    and "length tried + left \<le> length (gr_members g)"
    and "member_loop rnd g env left n tried err h = (r, tried', h')"
  shows "\<exists>new. tried' = tried @ new \<and> distinct tried' \<and> set tried' \<subseteq> {..<length (gr_members g)} \<and>
     length new \<le> left \<and> (left \<noteq> 0 \<longrightarrow> new \<noteq> []) \<and> ((\<exists>e. r = Done (Err e)) \<longrightarrow> length new = left) \<and>
     explains g env n new err r \<and> h' = replay rnd g env n new h"
  using assms
proof (induction left arbitrary: n tried err h)
  case 0
  then show ?case by (auto simp: give_up_def)
next
  case (Suc left)
  have "length tried < length (gr_members g)" using Suc.prems(3) by simp
  then obtain i idx where i: "i < length (gr_members g)" "i \<notin> set tried"
    and idx: "pick_weighted rnd (group_weights rnd g h tried) (roll env n) = Some idx"
    and sel: "(if idx \<in> set tried then List.find (\<lambda>i. i \<notin> set tried) [0..<length (gr_members g)] else Some idx) = Some i"
    using choose_untried [OF _ Suc.prems(2), of rnd h "roll env n"] by blast
  let ?h = "with_lock (gm_stats (gr_members g ! i)) (account rnd (outcome env n i)) (others env n h)"
  have tried: "distinct (tried @ [i])" "set (tried @ [i]) \<subseteq> {..<length (gr_members g)}"
    using Suc.prems(1,2) i by auto
  note step = Suc.prems(4) [unfolded member_loop.simps idx option.case sel Let_def try_member_eq]
  show ?case
  proof (cases "outcome env n i")
    case (Failed e)
    with step have "member_loop rnd g env left (Suc n) (tried @ [i]) (Some e) ?h = (r, tried', h')"
      by (simp add: outcome_result_def)
    from Suc.IH [OF tried _ this] Suc.prems(3) obtain new where "tried' = (tried @ [i]) @ new"
        "distinct tried'" "set tried' \<subseteq> {..<length (gr_members g)}" "length new \<le> left"
        "(\<exists>e. r = Done (Err e)) \<longrightarrow> length new = left"
        "explains g env (Suc n) new (Some e) r" "h' = replay rnd g env (Suc n) new ?h"
      by auto
    with Failed show ?thesis by (intro exI [of _ "i # new"]) auto
  qed (use step tried in \<open>auto simp: outcome_result_def intro!: exI [of _ "[i]"]\<close>)
qed

lemma explains_iff:
  "new \<noteq> [] \<Longrightarrow> explains g env n new err r \<longleftrightarrow>
     (\<forall>j. Suc j < length new \<longrightarrow> (\<exists>e. outcome env (n + j) (new ! j) = Failed e)) \<and>
     r = (case outcome env (n + length new - 1) (last new) of
       Replied m _ _ \<Rightarrow> Done (Ok (m, gm_name (gr_members g ! last new)))
     | Failed e \<Rightarrow> Done (Err e) | Cancelled _ _ \<Rightarrow> Dropped)"
proof (induction new arbitrary: n err)
  case (Cons i new)
  show ?case
  proof (cases "new = []")
    case True
    then show ?thesis by (auto split: attempt_outcome.splits)
  next
    case False
    have all: "(\<forall>j. Suc j < length (i # new) \<longrightarrow> (\<exists>e. outcome env (n + j) ((i # new) ! j) = Failed e)) \<longleftrightarrow>
        (\<exists>e. outcome env n i = Failed e) \<and>
        (\<forall>j. Suc j < length new \<longrightarrow> (\<exists>e. outcome env (Suc n + j) (new ! j) = Failed e))"
      using False by (auto simp: less_Suc_eq_0_disj nth_Cons split: nat.splits)
    show ?thesis unfolding all using Cons.IH [OF False, of "Suc n"] False
      by (auto split: attempt_outcome.splits)
  qed
qed simp

text \<open>C9. A query to a group of members: it tries at least one and at most two members, never
  the same one twice, whatever the weights (all zero, NaN or infinite), the rolls and the
  concurrent changes of the statistics are. Every attempt but the last failed; the result is
  what the last attempt gave, with the name of its member; and an error comes back only
  after every attempt the limit allows was made.\<close>

theorem resolve_member_attempts:
  assumes "gr_members g \<noteq> []" and "resolve_member rnd g env h = (r, tried, h')"
  shows "1 \<le> length tried \<and> length tried \<le> min (length (gr_members g)) 2 \<and> distinct tried \<and>
    set tried \<subseteq> {..<length (gr_members g)} \<and>
    (\<forall>j. Suc j < length tried \<longrightarrow> (\<exists>e. outcome env j (tried ! j) = Failed e)) \<and>
    r = (case outcome env (length tried - 1) (last tried) of
       Replied m _ _ \<Rightarrow> Done (Ok (m, gm_name (gr_members g ! last tried)))
     | Failed e \<Rightarrow> Done (Err e) | Cancelled _ _ \<Rightarrow> Dropped) \<and>
    ((\<exists>e. r = Done (Err e)) \<longrightarrow> length tried = min (length (gr_members g)) 2)"
proof -
  let ?left = "min (length (gr_members g)) MAX_ATTEMPTS"
  have "member_loop rnd g env ?left 0 [] None h = (r, tried, h')"
    using assms by (simp add: resolve_member_def)
  from member_loop_spec [OF _ _ _ this] assms(1)
  have t: "distinct tried" "set tried \<subseteq> {..<length (gr_members g)}" "length tried \<le> ?left" "tried \<noteq> []"
      "(\<exists>e. r = Done (Err e)) \<longrightarrow> length tried = ?left" "explains g env 0 tried None r"
    by (auto simp: MAX_ATTEMPTS_def)
  have "1 \<le> length tried" using t(4) by (simp add: Suc_le_eq)
  moreover have "length tried \<le> min (length (gr_members g)) 2"
      "(\<exists>e. r = Done (Err e)) \<longrightarrow> length tried = min (length (gr_members g)) 2"
    using t(3,5) by (simp_all add: MAX_ATTEMPTS_def)
  moreover note t(1,2) explains_iff [THEN iffD1, OF t(4,6), unfolded add_0]
  ultimately show ?thesis by blast
qed

section \<open>Sharing with the dashboard\<close>

lemma group_new_fold:
  "foldl (add_member w d kind) (ms, b, h) names =
     (ms @ map2 (\<lambda>n r. \<lparr>gm_name = n, gm_stats = r\<rparr>) names [length h..<length h + length names],
      foldl (\<lambda>b (n, r). register n kind r b) b (zip names [length h..<length h + length names]),
      h @ replicate (length names) \<lparr>cell_stats = with_retention w d, cell_poisoned = False\<rparr>)"
proof (induction names arbitrary: ms b h)
  case (Cons n names)
  have "[length h..<length h + length (n # names)] = length h # [Suc (length h)..<Suc (length h) + length names]"
    by (simp add: upt_rec)
  with Cons show ?case by (simp add: add_member_def Let_def)
qed simp

lemma group_new_members:
  assumes "group_new names w k d b kind h = (g, b', h')"
  shows "map gm_name (gr_members g) = names" "map gm_stats (gr_members g) = [length h..<length h + length names]"
    "length h' = length h + length names" "take (length h) h' = h"
  using assms by (auto simp: group_new_def group_new_fold comp_def map2_map_map [symmetric]
      simp flip: map_map intro: nth_equalityI)

text \<open>The registry: the entries of the group come last, in the order of its members, each with the
  cell of its own member.\<close>

lemma registered_entries:
  "\<exists>new. foldl (\<lambda>b (n, r). register n kind r b) b regs = b @ new \<and> map mm_name new = map fst regs \<and>
     map mm_stats new = map snd regs \<and> map mm_group new = map (\<lambda>_. kind) regs"
proof (induction regs arbitrary: b)
  case (Cons x regs)
  obtain n r where x: "x = (n, r)" by (cases x)
  obtain e where e: "register n kind r b = b @ [e]" "mm_name e = n" "mm_stats e = r" "mm_group e = kind"
    by (simp add: register_def Let_def)
  obtain new where "foldl (\<lambda>b (n, r). register n kind r b) (b @ [e]) regs = (b @ [e]) @ new"
      "map mm_name new = map fst regs" "map mm_stats new = map snd regs" "map mm_group new = map (\<lambda>_. kind) regs"
    using Cons.IH by blast
  with e x show ?case by (intro exI [of _ "e # new"]) simp
qed simp

lemma group_new_registry:
  assumes "group_new names w k d b kind h = (g, b', h')"
  shows "\<exists>new. b' = b @ new \<and> map mm_name new = names \<and> map mm_stats new = map gm_stats (gr_members g) \<and>
    (\<forall>m \<in> set new. mm_group m = kind)"
proof -
  let ?regs = "zip names [length h..<length h + length names]"
  have "b' = foldl (\<lambda>b (n, r). register n kind r b) b ?regs" using assms by (auto simp: group_new_def group_new_fold)
  then obtain new where new: "b' = b @ new" "map mm_name new = map fst ?regs" "map mm_stats new = map snd ?regs"
      "map mm_group new = map (\<lambda>_. kind) ?regs"
    using registered_entries [of kind b ?regs] by auto
  have "\<forall>m \<in> set new. mm_group m = kind"
  proof
    fix m assume "m \<in> set new"
    then have "mm_group m \<in> set (map mm_group new)" by simp
    then show "mm_group m = kind" unfolding new(4) by auto
  qed
  with new group_new_members(2) [OF assms] show ?thesis by simp
qed

lemma metrics_snapshot_shows:
  assumes "m \<in> set ms" and "locked h (mm_stats m) = Some s"
  shows "\<exists>u \<in> set (metrics_snapshot rnd now h ms). us_name u = mm_name m \<and> us_group u = mm_group m \<and>
    us_samples u = ss_samples (snapshot_now rnd now s) \<and> us_successes u = ss_successes (snapshot_now rnd now s) \<and>
    us_failure_rate u = ss_failure_rate (snapshot_now rnd now s) \<and>
    us_avg_latency_ms u = ss_avg_latency_ms (snapshot_now rnd now s)"
proof -
  have "metrics_snapshot rnd now h [m] = [\<lparr>us_id = mm_id m, us_name = mm_name m, us_group = mm_group m,
      us_samples = ss_samples (snapshot_now rnd now s), us_successes = ss_successes (snapshot_now rnd now s),
      us_failure_rate = ss_failure_rate (snapshot_now rnd now s), us_avg_latency_ms = ss_avg_latency_ms (snapshot_now rnd now s)\<rparr>]"
    using assms(2) by (simp add: metrics_snapshot_def List.map_filter_simps Let_def)
  moreover obtain xs ys where "ms = xs @ m # ys" using assms(1) by (auto simp: in_set_conv_decomp)
  then have "set (metrics_snapshot rnd now h [m]) \<subseteq> set (metrics_snapshot rnd now h ms)"
    by (auto simp: metrics_snapshot_def List.map_filter_def)
  ultimately show ?thesis by (metis (no_types, lifting) insert_subset list.set(2) upstream_snapshot.select_convs(2-7))
qed

text \<open>The stores before the first and after every attempt.\<close>

lemma replay_trace:
  "\<exists>hs. length hs = Suc (length is) \<and> hs ! 0 = h \<and> hs ! length is = replay rnd g env n is h \<and>
     (\<forall>j < length is. hs ! Suc j = with_lock (gm_stats (gr_members g ! (is ! j)))
        (account rnd (outcome env (n + j) (is ! j))) (others env (n + j) (hs ! j)))"
proof (induction "is" arbitrary: n h)
  case Nil
  show ?case by (intro exI [of _ "[h]"]) simp
next
  case (Cons i "is")
  let ?h = "with_lock (gm_stats (gr_members g ! i)) (account rnd (outcome env n i)) (others env n h)"
  obtain hs where "length hs = Suc (length is)" "hs ! 0 = ?h" "hs ! length is = replay rnd g env (Suc n) is ?h"
      "\<forall>j < length is. hs ! Suc j = with_lock (gm_stats (gr_members g ! (is ! j)))
        (account rnd (outcome env (Suc n + j) (is ! j))) (others env (Suc n + j) (hs ! j))"
    using Cons.IH by blast
  then show ?case by (intro exI [of _ "h # hs"]) (auto simp: less_Suc_eq_0_disj)
qed

text \<open>C23. Accounting, and that the dashboard sees it. Building a group appends one entry per member
  to the dashboard's registry, under the member's name and the group's, and each entry refers to
  the statistics of that very member, which it shares with no other and with nothing built before.
  A query to the group then books, for each attempt, one outcome with the member of that attempt and
  with nobody else: a success for the member that answered, a soft failure for one that returned
  an error, a timeout for one whose attempt was cancelled, and nothing when a sibling attempt had
  already won at the cancellation. No member is tried twice. Whatever other queries do to the
  statistics while an attempt waits comes first and is kept. What the dashboard then shows under
  the name of a member is the snapshot of that member's statistics.\<close>

theorem group_accounting:
  assumes "group_new names w k d b kind h0 = (g, b', h)" and "resolve_member rnd g env h = (r, tried, h')"
    and "cell = (\<lambda>i. mm_stats (b' ! (length b + i)))"
  shows "length b' = length b + length names \<and> take (length b) b' = b \<and>
    (\<forall>i < length names. mm_name (b' ! (length b + i)) = names ! i \<and> mm_group (b' ! (length b + i)) = kind \<and>
       cell i = gm_stats (gr_members g ! i) \<and> gm_name (gr_members g ! i) = names ! i \<and> length h0 \<le> cell i) \<and>
    inj_on cell {..<length names} \<and> distinct tried \<and> set tried \<subseteq> {..<length names} \<and>
    (\<exists>hs. length hs = Suc (length tried) \<and> hs ! 0 = h \<and> hs ! length tried = h' \<and>
      (\<forall>j < length tried. \<forall>c. locked (hs ! Suc j) c =
        (if c = cell (tried ! j)
         then map_option (\<lambda>s. case outcome env j (tried ! j) of
             Replied _ latency now \<Rightarrow> record_success rnd latency now s
           | Failed _ \<Rightarrow> record_soft_fail s
           | Cancelled flag now \<Rightarrow> if flag = Some True then s else record_timeout rnd now s)
           (locked (others env j (hs ! j)) c)
         else locked (others env j (hs ! j)) c))) \<and>
    (\<forall>i < length names. \<forall>now s. locked h' (gm_stats (gr_members g ! i)) = Some s \<longrightarrow>
      (\<exists>u \<in> set (metrics_snapshot rnd now h' b'). us_name u = names ! i \<and> us_group u = kind \<and>
         us_samples u = ss_samples (snapshot_now rnd now s) \<and> us_successes u = ss_successes (snapshot_now rnd now s) \<and>
         us_failure_rate u = ss_failure_rate (snapshot_now rnd now s) \<and>
         us_avg_latency_ms u = ss_avg_latency_ms (snapshot_now rnd now s)))"
  (is "?registry \<and> ?before \<and> ?entries \<and> ?own \<and> ?distinct \<and> ?range \<and> ?trace \<and> ?shown")
proof -
  note new = group_new_members [OF assms(1)]
  have len: "length (gr_members g) = length names" using new(1) by (metis length_map)
  obtain es where es: "b' = b @ es" "map mm_name es = names" "map mm_stats es = map gm_stats (gr_members g)"
      "\<forall>m \<in> set es. mm_group m = kind"
    using group_new_registry [OF assms(1)] by blast
  have len_es: "length es = length names" using es(2) by (metis length_map)
  have entry: "b' ! (length b + i) = es ! i" for i using es(1) by simp
  have cell: "cell i = gm_stats (gr_members g ! i)" "cell i = length h0 + i" if "i < length names" for i
  proof -
    show "cell i = gm_stats (gr_members g ! i)"
      using that es(3) len len_es unfolding assms(3) entry by (metis nth_map)
    then show "cell i = length h0 + i" using that new(2) len by (metis add_less_cancel_left nth_map nth_upt)
  qed
  have member: "mm_name (es ! i) = names ! i" "mm_group (es ! i) = kind" "gm_name (gr_members g ! i) = names ! i" "es ! i \<in> set b'"
    if "i < length names" for i
    using that es(1,4) len len_es nth_map [of i es mm_name] nth_map [of i "gr_members g" gm_name] by (simp_all add: es(2) new(1))
  have run: "gr_members g \<noteq> [] \<Longrightarrow> member_loop rnd g env (min (length (gr_members g)) MAX_ATTEMPTS) 0 [] None h = (r, tried, h')"
    using assms(2) by (simp add: resolve_member_def)
  have t: "distinct tried" "set tried \<subseteq> {..<length names}" and h': "h' = replay rnd g env 0 tried h"
    using member_loop_spec [OF _ _ _ run] assms(2) len
    by (cases "gr_members g = []"; force simp: resolve_member_def)+
  have ?registry ?before using es(1) len_es by simp_all
  moreover have ?entries
    unfolding entry using cell member le_add1 [of "length h0"] by metis
  moreover have ?own by (auto simp: inj_on_def cell(2))
  moreover have ?trace
  proof -
    have "tried ! j < length names" if "j < length tried" for j using t(2) that nth_mem by blast
    with replay_trace [of tried h rnd g env 0] show ?thesis
      unfolding h' [symmetric] add_0 by (fastforce simp: locked_with_lock cell(1) account_def [abs_def])
  qed
  moreover have ?shown
  proof (intro allI impI)
    fix i now s assume i: "i < length names" and s: "locked h' (gm_stats (gr_members g ! i)) = Some s"
    have "locked h' (mm_stats (es ! i)) = Some s"
      using s cell(1) [OF i] by (simp add: assms(3) entry)
    with member [OF i] show "\<exists>u \<in> set (metrics_snapshot rnd now h' b'). us_name u = names ! i \<and> us_group u = kind \<and>
         us_samples u = ss_samples (snapshot_now rnd now s) \<and> us_successes u = ss_successes (snapshot_now rnd now s) \<and>
         us_failure_rate u = ss_failure_rate (snapshot_now rnd now s) \<and>
         us_avg_latency_ms u = ss_avg_latency_ms (snapshot_now rnd now s)"
      using metrics_snapshot_shows [of "es ! i" b' h' s rnd now] by metis
  qed
  ultimately show ?thesis using t by blast
qed

definition sample_env :: group_env where
  "sample_env = \<lparr>roll = (\<lambda>_. Fin 0),
     outcome = (\<lambda>n i. if n = 0 then Failed Connect_failed else Replied (message_new 5 Response_type 0) 1000000 0),
     others = (\<lambda>_ h. h)\<rparr>"

definition sample_group :: "upstream_group \<times> metric_member list \<times> stats_heap" where
  "sample_group = group_new [''a'', ''b''] 4 (Fin 5) 0 [] ''g'' []"

lemma sample_group_new: "group_new [''a'', ''b''] 4 (Fin 5) 0 [] ''g'' [] =
    (fst sample_group, fst (snd sample_group), snd (snd sample_group))"
  by (simp add: sample_group_def)

lemma fresh_weight: "weight exact (with_retention w d) (Fin 5) = Fin (1 / 101)"
  by (simp add: weight_def avg_latency_ms_def failure_rate_def with_retention_def Let_def)

text \<open>Member \<open>a\<close> is picked and fails, then \<open>b\<close> is picked and answers.\<close>

lemma sample_run:
  "\<exists>h. resolve_member exact (fst sample_group) sample_env (snd (snd sample_group)) =
     (Done (Ok (message_new 5 Response_type 0, ''b'')), [0, 1], h)"
proof -
  have g: "gr_members (fst sample_group) = [\<lparr>gm_name = ''a'', gm_stats = 0\<rparr>, \<lparr>gm_name = ''b'', gm_stats = 1\<rparr>]"
      "gr_k (fst sample_group) = Fin 5"
      "snd (snd sample_group) = replicate 2 \<lparr>cell_stats = with_retention 4 0, cell_poisoned = False\<rparr>"
    by (simp_all add: sample_group_def group_new_def add_member_def Let_def numeral_2_eq_2)
  show ?thesis
    by (simp add: resolve_member_def MAX_ATTEMPTS_def g numeral_2_eq_2 group_weights_def sample_env_def
        locked_def fresh_weight [simplified] pick_weighted_def usable_def fsum_def try_member_eq outcome_result_def
        with_lock_def account_def)
qed

lemma resolve_member_attempts_witness:
  "\<exists>h. resolve_member exact (fst sample_group) sample_env (snd (snd sample_group)) =
     (Done (Ok (message_new 5 Response_type 0, ''b'')), [0, 1], h) \<and> distinct [0, 1 :: nat]"
proof -
  obtain h where run: "resolve_member exact (fst sample_group) sample_env (snd (snd sample_group)) =
     (Done (Ok (message_new 5 Response_type 0, ''b'')), [0, 1], h)"
    using sample_run by blast
  have "gr_members (fst sample_group) \<noteq> []" using group_new_members(1) [OF sample_group_new] by auto
  from resolve_member_attempts [OF this run] run show ?thesis by blast
qed

lemma group_accounting_witness:
  "\<exists>h. locked h 0 = map_option record_soft_fail (locked (snd (snd sample_group)) 0) \<and>
     snd (snd (resolve_member exact (fst sample_group) sample_env (snd (snd sample_group)))) = h \<and>
     mm_stats (fst (snd sample_group) ! 1) = 1"
proof -
  obtain h where run: "resolve_member exact (fst sample_group) sample_env (snd (snd sample_group)) =
     (Done (Ok (message_new 5 Response_type 0, ''b'')), [0, 1], h)"
    using sample_run by blast
  have cells: "gm_stats (gr_members (fst sample_group) ! 0) = 0" "gm_stats (gr_members (fst sample_group) ! 1) = 1"
    by (simp_all add: sample_group_def group_new_def add_member_def Let_def)
  note acc = group_accounting [OF sample_group_new run refl]
  then have regs: "\<forall>i < 2. mm_stats (fst (snd sample_group) ! i) = gm_stats (gr_members (fst sample_group) ! i)"
    by simp
  then have reg: "mm_stats (fst (snd sample_group) ! 0) = 0" "mm_stats (fst (snd sample_group) ! 1) = 1"
    using cells by (simp_all add: less_2_cases_iff)
  from acc obtain hs where hs: "hs ! 0 = snd (snd sample_group)" "hs ! 2 = h"
    "\<forall>j < 2. \<forall>c. locked (hs ! Suc j) c =
        (if c = mm_stats (fst (snd sample_group) ! ([0, 1 :: nat] ! j))
         then map_option (\<lambda>s. case outcome sample_env j ([0, 1] ! j) of
             Replied _ latency now \<Rightarrow> record_success exact latency now s
           | Failed _ \<Rightarrow> record_soft_fail s
           | Cancelled flag now \<Rightarrow> if flag = Some True then s else record_timeout exact now s)
           (locked (others sample_env j (hs ! j)) c)
         else locked (others sample_env j (hs ! j)) c)"
    by (auto simp: numeral_2_eq_2)
  have "locked (hs ! 1) 0 = map_option record_soft_fail (locked (hs ! 0) 0)"
    using hs(3) [rule_format, of 0 0] reg by (simp add: sample_env_def)
  moreover have "locked (hs ! 2) 0 = locked (hs ! 1) 0"
    using hs(3) [rule_format, of 1 0] reg by (simp add: sample_env_def numeral_2_eq_2)
  ultimately show ?thesis using run reg(2) hs(1,2) by simp
qed

end
