(* ===== verification/Hedged.thy ===== *)
theory Hedged
  imports Upstream_Group
begin

text \<open>
  \<open>src/upstream/hedged.rs\<close>: the retry engine with a time budget. The engine is a loop around
  a biased \<open>select!\<close>; one iteration is the function \<open>hedged_poll\<close>. The environment decides when
  the loop is woken (the clock reading of the wake-up), which finished attempt, if any, is
  ready to be joined, and what the clock shows when the chosen branch reads it again. An
  execution is the sequence of these wake-ups with a clock that does not go back.
\<close>

definition MAX_IN_FLIGHT :: nat where
  "MAX_IN_FLIGHT = 8"

definition RETRY_FLOOR :: duration where
  "RETRY_FLOOR = from_millis 50"

record hedged_resolver =
  hr_interval :: duration
  hr_max_wait :: duration

datatype task_result = Task_ok attributed | Task_err resolve_error | Task_failed_join

record hedged_state =
  attempts :: nat
  succeeded :: bool
  max_in_flight :: nat
  deadline :: instant
  next_hedge :: instant
  last_spawn :: instant
  retry_at :: instant
  in_flight :: nat
  last_error :: "resolve_error option"
  spawned :: nat

text \<open>\<open>attempts\<close> is the size of the join set; \<open>spawned\<close> counts every attempt ever started.\<close>

definition spawn_attempt :: "hedged_state \<Rightarrow> hedged_state" where
  "spawn_attempt st = st\<lparr>attempts := attempts st + 1, spawned := spawned st + 1\<rparr>"

definition hedged_init :: "hedged_resolver \<Rightarrow> instant \<Rightarrow> instant \<Rightarrow> instant \<Rightarrow> hedged_state" where
  "hedged_init cfg t0 t1 t2 =
     spawn_attempt \<lparr>attempts = 0, succeeded = False,
       max_in_flight = (if hr_interval cfg = 0 then 1 else MAX_IN_FLIGHT),
       deadline = t0 + hr_max_wait cfg, next_hedge = t1 + hr_interval cfg, last_spawn = t2,
       retry_at = t2, in_flight = 1, last_error = None, spawned = 0\<rparr>"

text \<open>
  A loop iteration ends with the loop going on, with a return (its result, the success flag
  the cancelled attempts see, and how many are cancelled), with no branch ready, or with the
  panic of \<open>expect\<close> and of the unsigned subtraction.
\<close>

datatype poll_result =
    Continue hedged_state
  | Return "attributed resolved" bool nat
  | Pending
  | Panic

definition budget_error :: "hedged_resolver \<Rightarrow> hedged_state \<Rightarrow> resolve_error" where
  "budget_error cfg st = (case last_error st of
     Some e \<Rightarrow> No_success_within_budget e | None \<Rightarrow> No_reply_within_budget (in_flight st))"

definition join_branch :: "instant \<Rightarrow> task_result \<Rightarrow> hedged_state \<Rightarrow> poll_result" where
  "join_branch clock joined st =
     (if in_flight st = 0 \<or> attempts st = 0 then Panic
      else let st = st\<lparr>in_flight := in_flight st - 1, attempts := attempts st - 1\<rparr>;
               result = (case joined of Task_ok r \<Rightarrow> Ok r | Task_err e \<Rightarrow> Err e | Task_failed_join \<Rightarrow> Err Task_failed)
           in case result of
             Ok response \<Rightarrow>
               (let st = st\<lparr>succeeded := True\<rparr> in Return (Ok response) (succeeded st) (attempts st))
           | Err error \<Rightarrow>
               (let st = st\<lparr>last_error := Some error\<rparr> in
                Continue (if in_flight st = 0
                          then st\<lparr>retry_at := max clock (last_spawn st + RETRY_FLOOR)\<rparr> else st)))"

definition hedge_branch :: "hedged_resolver \<Rightarrow> instant \<Rightarrow> hedged_state \<Rightarrow> hedged_state" where
  "hedge_branch cfg clock st =
     (let st = st\<lparr>next_hedge := next_hedge st + hr_interval cfg\<rparr> in
      if in_flight st < max_in_flight st
      then spawn_attempt (st\<lparr>in_flight := in_flight st + 1, last_spawn := clock\<rparr>)
      else st)"

definition retry_branch :: "instant \<Rightarrow> hedged_state \<Rightarrow> hedged_state" where
  "retry_branch clock st = spawn_attempt (st\<lparr>in_flight := in_flight st + 1, last_spawn := clock\<rparr>)"

record wakeup =
  wk_now :: instant
  wk_joined :: "task_result option"
  wk_clock :: instant

definition hedged_poll :: "hedged_resolver \<Rightarrow> wakeup \<Rightarrow> hedged_state \<Rightarrow> poll_result" where
  "hedged_poll cfg w st =
     (if in_flight st > 0 \<and> wk_joined w \<noteq> None then join_branch (wk_clock w) (the (wk_joined w)) st
      else if wk_now w \<ge> deadline st then Return (Err (budget_error cfg st)) (succeeded st) (attempts st)
      else if hr_interval cfg \<noteq> 0 \<and> wk_now w \<ge> next_hedge st then Continue (hedge_branch cfg (wk_clock w) st)
      else if in_flight st = 0 \<and> wk_now w \<ge> retry_at st then Continue (retry_branch (wk_clock w) st)
      else Pending)"

text \<open>The loop over a sequence of wake-ups; \<open>Inl\<close> is the state it is left waiting in.\<close>

fun hedged_loop :: "hedged_resolver \<Rightarrow> hedged_state \<Rightarrow> wakeup list \<Rightarrow> hedged_state + poll_result" where
  "hedged_loop cfg st [] = Inl st"
| "hedged_loop cfg st (w # ws) = (case hedged_poll cfg w st of
     Continue st' \<Rightarrow> hedged_loop cfg st' ws
   | Pending \<Rightarrow> hedged_loop cfg st ws
   | r \<Rightarrow> Inr r)"

text \<open>
  Ending the attempts that are left in the join set. Each task is dropped where it stands: inside
  an attempt at a member (the cell of its statistics, and the wall clock at that moment), or
  outside, when it has not been polled yet or has finished without being joined.
\<close>

type_synonym stopped_task = "(nat \<times> int) option"

fun stop_attempts :: "rounding \<Rightarrow> bool \<Rightarrow> stopped_task list \<Rightarrow> stats_heap \<Rightarrow> stats_heap" where
  "stop_attempts rnd flag [] h = h"
| "stop_attempts rnd flag (task # tasks) h = stop_attempts rnd flag tasks (case task of
     None \<Rightarrow> h
   | Some (r, now) \<Rightarrow> guard_drop rnd now (guard_new r (Some flag)) h)"

text \<open>The answer without the name of the upstream.\<close>

definition hedged_resolve :: "attributed resolved \<Rightarrow> message resolved" where
  "hedged_resolve answer = and_then answer (\<lambda>(response, _). Ok response)"

lemma stop_attempts_won: "stop_attempts rnd True tasks h = h"
  by (induction tasks arbitrary: h) (auto simp: guard_drop_def guard_new_def split: option.splits)

lemma stop_attempts_lost:
  "stop_attempts rnd False tasks h =
     fold (\<lambda>(r, now). with_lock r (record_timeout rnd now)) (List.map_filter (\<lambda>t. t) tasks) h"
  by (induction tasks arbitrary: h) (auto simp: guard_drop_def guard_new_def List.map_filter_simps split: option.splits)

section \<open>The step relation\<close>

inductive hedged_step :: "hedged_resolver \<Rightarrow> wakeup \<Rightarrow> hedged_state \<Rightarrow> hedged_state \<Rightarrow> bool"
  for cfg :: hedged_resolver and w :: wakeup where
  go: "hedged_poll cfg w st = Continue st' \<Longrightarrow> hedged_step cfg w st st'"
| idle: "hedged_poll cfg w st = Pending \<Longrightarrow> hedged_step cfg w st st"

inductive_cases hedged_stepE [elim!]: "hedged_step cfg w st st'"

text \<open>
  The states an engine started at \<open>(t0, t1, t2)\<close> can be in, each with the last clock reading:
  wake-ups follow each other in time, and a branch reads the clock after its wake-up.
\<close>

inductive hedged_reach :: "hedged_resolver \<Rightarrow> instant \<Rightarrow> instant \<Rightarrow> hedged_state \<Rightarrow> bool"
  for cfg :: hedged_resolver and t0 :: instant where
  init: "t0 \<le> t1 \<Longrightarrow> t1 \<le> t2 \<Longrightarrow> hedged_reach cfg t0 t2 (hedged_init cfg t0 t1 t2)"
| step: "hedged_reach cfg t0 t st \<Longrightarrow> t \<le> wk_now w \<Longrightarrow> wk_now w \<le> wk_clock w \<Longrightarrow>
    hedged_step cfg w st st' \<Longrightarrow> hedged_reach cfg t0 (wk_clock w) st'"

section \<open>The invariant\<close>

text \<open>
  The numbers \<open>hs\<close> of hedges and \<open>rs\<close> of retries so far account for every attempt started, and
  each of them has used up its share of the budget.
\<close>

definition budget_use :: "hedged_resolver \<Rightarrow> instant \<Rightarrow> nat \<Rightarrow> instant \<Rightarrow> instant \<Rightarrow> bool" where
  "budget_use cfg t0 n hedge spawn \<longleftrightarrow>
     (\<exists>hs rs. n \<le> 1 + hs + rs \<and> t0 + (Suc hs) * hr_interval cfg \<le> hedge \<and>
        (hr_interval cfg = 0 \<longrightarrow> hs < 1) \<and> hs * hr_interval cfg \<le> hr_max_wait cfg \<and>
        t0 + rs * RETRY_FLOOR \<le> spawn \<and> rs * RETRY_FLOOR \<le> hr_max_wait cfg)"

definition hedged_inv :: "hedged_resolver \<Rightarrow> instant \<Rightarrow> hedged_state \<Rightarrow> bool" where
  "hedged_inv cfg t0 st \<longleftrightarrow>
     attempts st = in_flight st \<and> in_flight st \<le> max_in_flight st \<and> \<not> succeeded st \<and>
     max_in_flight st = (if hr_interval cfg = 0 then 1 else MAX_IN_FLIGHT) \<and>
     deadline st = t0 + hr_max_wait cfg \<and> t0 \<le> last_spawn st \<and>
     (in_flight st = 0 \<longrightarrow> last_error st \<noteq> None \<and> last_spawn st + RETRY_FLOOR \<le> retry_at st) \<and>
     budget_use cfg t0 (spawned st) (next_hedge st) (last_spawn st)"

lemma hedged_inv_init [wf_intros]: "t0 \<le> t1 \<Longrightarrow> t1 \<le> t2 \<Longrightarrow> hedged_inv cfg t0 (hedged_init cfg t0 t1 t2)"
  by (auto simp: hedged_inv_def budget_use_def hedged_init_def spawn_attempt_def MAX_IN_FLIGHT_def intro!: exI [of _ 0])

lemma hedged_inv_join:
  assumes "hedged_inv cfg t0 st" and "join_branch c j st = Continue st'"
  shows "hedged_inv cfg t0 st'"
  using assms
  by (auto simp: hedged_inv_def join_branch_def Let_def split: if_splits sum.splits task_result.splits)

lemma budget_use_hedge:
  assumes "budget_use cfg t0 n hedge spawn" and "hr_interval cfg \<noteq> 0" and "hedge < t0 + hr_max_wait cfg"
    and "spawn \<le> spawn'"
  shows "budget_use cfg t0 (Suc n) (hedge + hr_interval cfg) spawn'"
proof -
  from assms(1) obtain hs rs where n: "n \<le> 1 + hs + rs" "t0 + (Suc hs) * hr_interval cfg \<le> hedge"
      "t0 + rs * RETRY_FLOOR \<le> spawn" "rs * RETRY_FLOOR \<le> hr_max_wait cfg"
    unfolding budget_use_def by blast
  have "t0 + Suc hs * hr_interval cfg < t0 + hr_max_wait cfg" using n(2) assms(3) by linarith
  then have "Suc hs * hr_interval cfg \<le> hr_max_wait cfg" by simp
  with n assms(2,4) show ?thesis
    unfolding budget_use_def by (intro exI [of _ "Suc hs"] exI [of _ rs]) auto
qed

lemma budget_use_retry:
  assumes "budget_use cfg t0 n hedge spawn" and "spawn + RETRY_FLOOR \<le> now"
    and "now < t0 + hr_max_wait cfg" and "now \<le> spawn'"
  shows "budget_use cfg t0 (Suc n) hedge spawn'"
proof -
  from assms(1) obtain hs rs where n: "n \<le> 1 + hs + rs" "t0 + (Suc hs) * hr_interval cfg \<le> hedge"
      "hr_interval cfg = 0 \<longrightarrow> hs < 1" "hs * hr_interval cfg \<le> hr_max_wait cfg" "t0 + rs * RETRY_FLOOR \<le> spawn"
    unfolding budget_use_def by metis
  have t: "t0 + Suc rs * RETRY_FLOOR \<le> now" using n(5) assms(2) by simp
  then have "Suc rs * RETRY_FLOOR \<le> hr_max_wait cfg" using assms(3) by simp
  with t n assms(4) show ?thesis
    unfolding budget_use_def by (intro exI [of _ hs] exI [of _ "Suc rs"]) auto
qed

lemma budget_use_weaken: "budget_use cfg t0 (Suc n) hedge spawn \<Longrightarrow> budget_use cfg t0 n hedge spawn"
  unfolding budget_use_def by (meson Suc_leD)

lemma hedged_inv_hedge:
  assumes "hedged_inv cfg t0 st" and "hr_interval cfg \<noteq> 0" and "next_hedge st \<le> now"
    and "now < deadline st" and "now \<le> c" and "last_spawn st \<le> now"
  shows "hedged_inv cfg t0 (hedge_branch cfg c st)"
proof -
  have "budget_use cfg t0 (Suc (spawned st)) (next_hedge st + hr_interval cfg) s" if "last_spawn st \<le> s" for s
    using assms(1-4) that by (intro budget_use_hedge) (auto simp: hedged_inv_def)
  then have "budget_use cfg t0 (Suc (spawned st)) (next_hedge st + hr_interval cfg) c"
    and "budget_use cfg t0 (spawned st) (next_hedge st + hr_interval cfg) (last_spawn st)"
    using assms(5,6) by (auto intro: budget_use_weaken)
  then show ?thesis
    using assms(1,2,5,6)
    by (auto simp: hedged_inv_def hedge_branch_def spawn_attempt_def Let_def MAX_IN_FLIGHT_def)
qed

lemma hedged_inv_retry:
  assumes "hedged_inv cfg t0 st" and "in_flight st = 0" and "retry_at st \<le> now"
    and "now < deadline st" and "now \<le> c"
  shows "hedged_inv cfg t0 (retry_branch c st)"
proof -
  have "last_spawn st + RETRY_FLOOR \<le> now" using assms(1-3) by (auto simp: hedged_inv_def)
  then have "budget_use cfg t0 (Suc (spawned st)) (next_hedge st) c" and "t0 \<le> c"
    using assms(1,4,5) budget_use_retry [of cfg t0 "spawned st" "next_hedge st" "last_spawn st" now c]
    by (auto simp: hedged_inv_def)
  then show ?thesis
    using assms(1,2) by (simp add: hedged_inv_def retry_branch_def spawn_attempt_def MAX_IN_FLIGHT_def)
qed

lemma hedged_poll_Continue:
  assumes "hedged_poll cfg w st = Continue st'"
  shows "(\<exists>j. join_branch (wk_clock w) j st = Continue st') \<or>
    hr_interval cfg \<noteq> 0 \<and> next_hedge st \<le> wk_now w \<and> wk_now w < deadline st \<and> st' = hedge_branch cfg (wk_clock w) st \<or>
    in_flight st = 0 \<and> retry_at st \<le> wk_now w \<and> wk_now w < deadline st \<and> st' = retry_branch (wk_clock w) st"
  using assms unfolding hedged_poll_def by (simp add: not_le split: if_split_asm) blast

text \<open>The last start of an attempt is never in the future.\<close>

lemma hedged_reach_inv: "hedged_reach cfg t0 t st \<Longrightarrow> hedged_inv cfg t0 st \<and> last_spawn st \<le> t"
proof (induction rule: hedged_reach.induct)
  case (init t1 t2)
  then show ?case by (simp add: hedged_inv_init) (simp add: hedged_init_def spawn_attempt_def)
next
  case (step t st w st')
  from step.hyps(4) show ?case
  proof
    assume go: "hedged_poll cfg w st = Continue st'"
    consider (join) j where "join_branch (wk_clock w) j st = Continue st'"
      | (hedge) "hr_interval cfg \<noteq> 0" "next_hedge st \<le> wk_now w" "wk_now w < deadline st"
          "st' = hedge_branch cfg (wk_clock w) st"
      | (retry) "in_flight st = 0" "retry_at st \<le> wk_now w" "wk_now w < deadline st"
          "st' = retry_branch (wk_clock w) st"
      using hedged_poll_Continue [OF go] by metis
    then show ?thesis
    proof cases
      case join
      then have "last_spawn st' = last_spawn st"
        by (auto simp: join_branch_def Let_def split: if_splits sum.splits)
      with join step show ?thesis by (auto intro: hedged_inv_join)
    next
      case hedge
      then have "last_spawn st' \<in> {last_spawn st, wk_clock w}"
        by (simp add: hedge_branch_def spawn_attempt_def Let_def)
      with hedge step hedged_inv_hedge [of cfg t0 st "wk_now w" "wk_clock w"] show ?thesis by auto
    next
      case retry
      then have "last_spawn st' = wk_clock w" by (simp add: retry_branch_def spawn_attempt_def)
      with retry step hedged_inv_retry [of cfg t0 st "wk_now w" "wk_clock w"] show ?thesis by auto
    qed
  qed (use step in auto)
qed

section \<open>What the engine guarantees\<close>

lemma budget_use_bound:
  assumes "budget_use cfg t0 n hedge spawn"
  shows "n \<le> 1 + (if hr_interval cfg = 0 then 0 else hr_max_wait cfg div hr_interval cfg) + hr_max_wait cfg div RETRY_FLOOR"
proof -
  from assms obtain hs rs where n: "n \<le> 1 + hs + rs" "hr_interval cfg = 0 \<longrightarrow> hs < 1"
      "hs * hr_interval cfg \<le> hr_max_wait cfg" "rs * RETRY_FLOOR \<le> hr_max_wait cfg"
    unfolding budget_use_def by metis
  have "hs \<le> (if hr_interval cfg = 0 then 0 else hr_max_wait cfg div hr_interval cfg)"
    using n(2,3) by (auto simp: less_eq_div_iff_mult_less_eq)
  moreover have "rs \<le> hr_max_wait cfg div RETRY_FLOOR"
    using n(4) by (simp add: less_eq_div_iff_mult_less_eq RETRY_FLOOR_def from_millis_def)
  ultimately show ?thesis using n(1) by linarith
qed

text \<open>C7. Bounded effort: in every state the engine can reach, whatever the attempts do and
  however the wake-ups fall, at most eight attempts are in flight (one when hedging is off),
  the in-flight counter is the size of the join set, so neither the subtraction nor the
  \<open>expect\<close> in the join branch can panic, and the number of attempts ever started stays below a
  limit given by the budget, the hedge interval and the 50 ms retry floor.\<close>

theorem hedged_bounded_effort:
  assumes "hedged_reach cfg t0 t st"
  shows "in_flight st \<le> (if hr_interval cfg = 0 then 1 else 8) \<and> attempts st = in_flight st \<and>
    hedged_poll cfg w st \<noteq> Panic \<and>
    spawned st \<le> 1 + (if hr_interval cfg = 0 then 0 else hr_max_wait cfg div hr_interval cfg) +
      hr_max_wait cfg div 50000000"
proof -
  have inv: "hedged_inv cfg t0 st" using hedged_reach_inv [OF assms] ..
  then have "hedged_poll cfg w st \<noteq> Panic"
    by (auto simp: hedged_inv_def hedged_poll_def join_branch_def Let_def split: task_result.splits)
  moreover have "spawned st \<le> 1 + (if hr_interval cfg = 0 then 0 else hr_max_wait cfg div hr_interval cfg) +
      hr_max_wait cfg div 50000000"
  proof -
    have "budget_use cfg t0 (spawned st) (next_hedge st) (last_spawn st)" using inv by (simp add: hedged_inv_def)
    from budget_use_bound [OF this] show ?thesis by (simp add: RETRY_FLOOR_def from_millis_def)
  qed
  moreover have "in_flight st \<le> (if hr_interval cfg = 0 then 1 else 8)" "attempts st = in_flight st"
    using inv by (auto simp: hedged_inv_def MAX_IN_FLIGHT_def)
  ultimately show ?thesis by blast
qed

text \<open>C6. The only two outcomes: the engine returns either the reply of an attempt, or an error
  at a wake-up at or after the end of the budget, never earlier; no failed attempt, however
  many there are, ends it. On success the attempts that are still in flight are stopped
  with the success flag up, so all statistics stay as they are; at the end of the budget it is
  down and stopping books one timeout at the member of each attempt that was waiting, and
  nothing else.\<close>

theorem hedged_two_outcomes:
  assumes "hedged_reach cfg t0 t st" and "hedged_poll cfg w st = Return r flag n"
  shows "(\<exists>resp. r = Ok resp \<and> wk_joined w = Some (Task_ok resp) \<and> n = in_flight st - 1 \<and>
      stop_attempts rnd flag tasks h = h) \<or>
    (\<exists>e. r = Err e \<and> t0 + hr_max_wait cfg \<le> wk_now w \<and> n = in_flight st \<and>
      e = (case last_error st of None \<Rightarrow> No_reply_within_budget (in_flight st) | Some e' \<Rightarrow> No_success_within_budget e') \<and>
      stop_attempts rnd flag tasks h =
        fold (\<lambda>(r, now). with_lock r (record_timeout rnd now)) (List.map_filter (\<lambda>t. t) tasks) h)"
proof -
  have inv: "hedged_inv cfg t0 st" using hedged_reach_inv [OF assms(1)] ..
  show ?thesis
  proof (cases "in_flight st > 0 \<and> wk_joined w \<noteq> None")
    case True
    then obtain j where j: "wk_joined w = Some j" by blast
    with True assms(2) inv show ?thesis
      by (cases j) (auto simp: hedged_poll_def join_branch_def Let_def hedged_inv_def stop_attempts_won)
  next
    case False
    then have "r = Err (budget_error cfg st)" "flag = succeeded st" "n = attempts st" "deadline st \<le> wk_now w"
      using assms(2) by (auto simp: hedged_poll_def split: if_splits)
    with inv show ?thesis by (auto simp: hedged_inv_def stop_attempts_lost budget_error_def)
  qed
qed

lemma hedged_poll_expired:
  assumes "hedged_inv cfg t0 st" and "deadline st \<le> wk_now w"
  shows "(\<exists>r flag n. hedged_poll cfg w st = Return r flag n) \<or>
    (\<exists>st'. hedged_poll cfg w st = Continue st' \<and> in_flight st = Suc (in_flight st') \<and> deadline st' = deadline st \<and>
       hedged_inv cfg t0 st')"
proof (cases "in_flight st > 0 \<and> wk_joined w \<noteq> None")
  case True
  then obtain j where "wk_joined w = Some j" by blast
  then have poll: "hedged_poll cfg w st = join_branch (wk_clock w) j st" using True by (simp add: hedged_poll_def)
  show ?thesis
  proof (cases "join_branch (wk_clock w) j st")
    case (Continue st')
    with hedged_inv_join [OF assms(1) Continue] True assms(1) poll show ?thesis
      by (auto simp: join_branch_def Let_def hedged_inv_def split: sum.splits if_splits)
  qed (use poll True assms(1) in \<open>auto simp: join_branch_def Let_def hedged_inv_def split: sum.splits if_splits task_result.splits\<close>)
next
  case False
  then show ?thesis using assms(2) by (auto simp: hedged_poll_def)
qed

text \<open>C8. The budget ends the query: from any reachable state, any sequence of wake-ups past the
  deadline that is longer than the number of attempts in flight makes the engine return, so
  failing attempts can delay the end by at most one loop iteration each.\<close>

theorem hedged_terminates:
  assumes "hedged_reach cfg t0 t st" and "\<forall>w \<in> set ws. t0 + hr_max_wait cfg \<le> wk_now w"
    and "in_flight st < length ws"
  shows "\<exists>r flag n. hedged_loop cfg st ws = Inr (Return r flag n)"
proof -
  have inv: "hedged_inv cfg t0 st" using hedged_reach_inv [OF assms(1)] ..
  then have "\<forall>w \<in> set ws. deadline st \<le> wk_now w" using assms(2) by (simp add: hedged_inv_def)
  with inv assms(3) show ?thesis
  proof (induction ws arbitrary: st)
    case (Cons w ws)
    from hedged_poll_expired [OF Cons.prems(1), of w] Cons.prems(3)
    consider (ret) r flag n where "hedged_poll cfg w st = Return r flag n"
      | (go) st' where "hedged_poll cfg w st = Continue st'" "in_flight st = Suc (in_flight st')"
          "deadline st' = deadline st" "hedged_inv cfg t0 st'"
      by auto
    then show ?case
    proof cases
      case ret
      then show ?thesis by simp
    next
      case go
      with Cons.IH [OF go(4)] Cons.prems(2,3) show ?thesis by simp
    qed
  qed simp
qed

definition sample_engine :: hedged_resolver where
  "sample_engine = \<lparr>hr_interval = from_millis 100, hr_max_wait = from_millis 1000\<rparr>"

lemma sample_engine_reach: "hedged_reach sample_engine 0 0 (hedged_init sample_engine 0 0 0)"
  by (rule hedged_reach.init) simp_all

lemma hedged_bounded_effort_witness:
  "spawned (hedged_init sample_engine 0 0 0) \<le> 31 \<and> in_flight (hedged_init sample_engine 0 0 0) \<le> 8"
  using hedged_bounded_effort [OF sample_engine_reach] by (simp add: sample_engine_def from_millis_def)

lemma hedged_two_outcomes_witness:
  "hedged_poll sample_engine \<lparr>wk_now = 1000000000, wk_joined = None, wk_clock = 1000000000\<rparr> (hedged_init sample_engine 0 0 0) =
     Return (Err (No_reply_within_budget 1)) False 1 \<and>
   stop_attempts exact False [None, Some (0, 7)] [\<lparr>cell_stats = with_retention 3 0, cell_poisoned = False\<rparr>] =
     [\<lparr>cell_stats = record_timeout exact 7 (with_retention 3 0), cell_poisoned = False\<rparr>]"
proof -
  have poll: "hedged_poll sample_engine \<lparr>wk_now = 1000000000, wk_joined = None, wk_clock = 1000000000\<rparr> (hedged_init sample_engine 0 0 0) =
     Return (Err (No_reply_within_budget 1)) False 1"
    by (simp add: hedged_poll_def hedged_init_def spawn_attempt_def sample_engine_def from_millis_def budget_error_def)
  from hedged_two_outcomes [OF sample_engine_reach this, of exact "[None, Some (0, 7)]" "[\<lparr>cell_stats = with_retention 3 0, cell_poisoned = False\<rparr>]"]
  show ?thesis using poll by (simp add: List.map_filter_simps with_lock_def locked_def)
qed

lemma hedged_terminates_witness:
  "\<exists>r flag n. hedged_loop sample_engine (hedged_init sample_engine 0 0 0)
     [\<lparr>wk_now = 1000000000, wk_joined = Some (Task_err Connect_failed), wk_clock = 1000000000\<rparr>,
      \<lparr>wk_now = 2000000000, wk_joined = None, wk_clock = 2000000000\<rparr>] = Inr (Return r flag n)"
  by (rule hedged_terminates [OF sample_engine_reach])
    (simp_all add: sample_engine_def from_millis_def hedged_init_def spawn_attempt_def)

end
