(* ===== verification/State_Machine.thy ===== *)
theory State_Machine
  imports Main
begin

text \<open>
  Runs of the concurrent parts of the program: the states that can be reached from an initial one
  by any sequence of steps, and the two forms of invariant the components are proved with. Each
  component interprets one of the locales on its own step relation.
\<close>

inductive reachable :: "('s \<Rightarrow> bool) \<Rightarrow> ('s \<Rightarrow> 's \<Rightarrow> bool) \<Rightarrow> 's \<Rightarrow> bool"
  for init :: "'s \<Rightarrow> bool" and step :: "'s \<Rightarrow> 's \<Rightarrow> bool" where
  initial: "init s \<Longrightarrow> reachable init step s"
| further: "reachable init step s \<Longrightarrow> step s s' \<Longrightarrow> reachable init step s'"

lemma reachable_steps: "step\<^sup>*\<^sup>* s s' \<Longrightarrow> reachable init step s \<Longrightarrow> reachable init step s'"
  by (induction rule: rtranclp_induct) (auto intro: further)

locale inductive_invariant =
  fixes init :: "'s \<Rightarrow> bool" and step :: "'s \<Rightarrow> 's \<Rightarrow> bool" and inv :: "'s \<Rightarrow> bool"
  assumes inv_init: "init s \<Longrightarrow> inv s"
    and inv_step: "inv s \<Longrightarrow> step s s' \<Longrightarrow> inv s'"
begin

lemma always: "reachable init step s \<Longrightarrow> inv s"
  by (induction rule: reachable.induct) (auto intro: inv_init inv_step)

lemma kept_from: "step\<^sup>*\<^sup>* s s' \<Longrightarrow> inv s \<Longrightarrow> inv s'"
  by (induction rule: rtranclp_induct) (auto intro: inv_step)

end

text \<open>
  An invariant that holds as long as some count of the run stays below a limit, such as the
  range of a machine counter. The count never falls, so the limit holds at the earlier states too.
\<close>

locale invariant_below =
  fixes init :: "'s \<Rightarrow> bool" and step :: "'s \<Rightarrow> 's \<Rightarrow> bool" and inv :: "'s \<Rightarrow> bool"
    and count :: "'s \<Rightarrow> nat" and limit :: nat
  assumes below_init: "init s \<Longrightarrow> inv s"
    and below_step: "inv s \<Longrightarrow> step s s' \<Longrightarrow> count s' < limit \<Longrightarrow> inv s'"
    and count_mono: "step s s' \<Longrightarrow> count s \<le> count s'"

sublocale invariant_below \<subseteq> below: inductive_invariant init step "\<lambda>s. count s < limit \<longrightarrow> inv s"
  by unfold_locales (auto intro: below_init below_step dest: count_mono)

end
