(* ===== verification/Cache_Sampler.thy ===== *)
theory Cache_Sampler
  imports Cache F64
begin

text \<open>
  \<open>src/dashboard/sampler.rs\<close>: observation points of cache size against hit rate. The ordered
  map is an association list in ascending key order.
\<close>

record cache_sample =
  cs_size :: nat
  cs_hit_rate :: f64
  cs_lookups :: u64

record sampler_state =
  latest :: "cache_sample option"
  by_size :: "(nat \<times> cache_sample) list"
  sam_poisoned :: bool

definition sampler_default :: sampler_state where
  "sampler_default = \<lparr>latest = None, by_size = [], sam_poisoned = False\<rparr>"

fun btree_insert :: "'k::linorder \<Rightarrow> 'v \<Rightarrow> ('k \<times> 'v) list \<Rightarrow> ('k \<times> 'v) list" where
  "btree_insert k v [] = [(k, v)]"
| "btree_insert k v ((k', v') # kvs) =
     (if k < k' then (k, v) # (k', v') # kvs
      else if k = k' then (k, v) # kvs
      else (k', v') # btree_insert k v kvs)"

definition take_sample :: "rounding \<Rightarrow> cache \<Rightarrow> cache_sample" where
  "take_sample rnd c = (case hit_stats c of (lk, hi) \<Rightarrow>
     \<lparr>cs_size = cache_len c,
      cs_hit_rate = (if lk = 0 then Fin 0
        else fdiv rnd (f64_of_nat rnd (unat (min hi lk))) (f64_of_nat rnd (unat lk))),
      cs_lookups = lk\<rparr>)"

definition observe :: "rounding \<Rightarrow> cache \<Rightarrow> sampler_state \<Rightarrow> sampler_state" where
  "observe rnd c st =
     (let x = take_sample rnd c in
      if sam_poisoned st then st
      else if (case latest st of None \<Rightarrow> False
               | Some l \<Rightarrow> cs_size l = cs_size x \<and> cs_lookups l = cs_lookups x) then st
      else st\<lparr>latest := Some x, by_size := btree_insert (cs_size x) x (by_size st)\<rparr>)"

definition sampler_new :: "rounding \<Rightarrow> cache \<Rightarrow> sampler_state" where
  "sampler_new rnd c = observe rnd c sampler_default"

definition sampler_latest :: "sampler_state \<Rightarrow> cache_sample option" where
  "sampler_latest st = (if sam_poisoned st then None else latest st)"

definition points :: "sampler_state \<Rightarrow> cache_sample list" where
  "points st = (if sam_poisoned st then [] else map snd (by_size st))"

section \<open>Ordered insertion\<close>

lemma map_of_btree_insert:
  "sorted_wrt (<) (map fst kvs) \<Longrightarrow> map_of (btree_insert k v kvs) = (map_of kvs)(k \<mapsto> v)"
  by (induction k v kvs rule: btree_insert.induct) (auto simp: fun_eq_iff)

lemma keys_btree_insert: "fst ` set (btree_insert k v kvs) = insert k (fst ` set kvs)"
  by (induction k v kvs rule: btree_insert.induct) auto

lemma sorted_btree_insert: "sorted_wrt (<) (map fst kvs) \<Longrightarrow> sorted_wrt (<) (map fst (btree_insert k v kvs))"
proof (induction k v kvs rule: btree_insert.induct)
  case (2 k v k' v' kvs)
  have "set (map fst (btree_insert k v kvs)) = insert k (set (map fst kvs))" using keys_btree_insert [of k v kvs] by simp
  with 2 show ?case by (force simp: not_less simp del: set_map)
qed simp

section \<open>Observations\<close>

text \<open>Observing a sequence of states of the cache.\<close>

definition observe_all :: "rounding \<Rightarrow> sampler_state \<Rightarrow> cache list \<Rightarrow> sampler_state" where
  "observe_all rnd = foldl (\<lambda>st c. observe rnd c st)"

definition sampler_inv :: "rounding \<Rightarrow> cache list \<Rightarrow> sampler_state \<Rightarrow> bool" where
  "sampler_inv rnd cs st \<longleftrightarrow> \<not> sam_poisoned st \<and> sorted_wrt (<) (map fst (by_size st)) \<and>
     fst ` set (by_size st) = cache_len ` set cs \<and>
     (\<forall>p \<in> set (by_size st). cs_size (snd p) = fst p \<and> snd p \<in> take_sample rnd ` set cs) \<and>
     (\<forall>l. latest st = Some l \<longrightarrow> map_of (by_size st) (cs_size l) = Some l)"

lemma take_sample_size [simp]: "cs_size (take_sample rnd c) = cache_len c"
  by (simp add: take_sample_def split: prod.splits)

lemma set_btree_insert: "set (btree_insert k v kvs) \<subseteq> insert (k, v) (set kvs)"
  by (induction k v kvs rule: btree_insert.induct) auto

lemma sampler_inv_observe [wf_intros]:
  assumes "sampler_inv rnd cs st"
  shows "sampler_inv rnd (cs @ [c]) (observe rnd c st)"
proof (cases "\<exists>l. latest st = Some l \<and> cs_size l = cache_len c \<and> cs_lookups l = cs_lookups (take_sample rnd c)")
  case True
  then obtain l where l: "latest st = Some l" "cs_size l = cache_len c" "cs_lookups l = cs_lookups (take_sample rnd c)"
    by blast
  then have "observe rnd c st = st" using assms by (simp add: observe_def Let_def sampler_inv_def)
  moreover have "map_of (by_size st) (cache_len c) = Some l" using assms l by (auto simp: sampler_inv_def)
  then have "cache_len c \<in> fst ` set (by_size st)" by (metis domI dom_map_of_conv_image_fst)
  then have "cache_len ` set (cs @ [c]) = cache_len ` set cs" using assms by (auto simp: sampler_inv_def)
  ultimately show ?thesis using assms by (auto simp: sampler_inv_def)
next
  case False
  let ?x = "take_sample rnd c"
  have eq: "observe rnd c st = st\<lparr>latest := Some ?x, by_size := btree_insert (cache_len c) ?x (by_size st)\<rparr>"
    using assms False by (auto simp: observe_def Let_def sampler_inv_def split: option.splits)
  have "\<forall>p \<in> set (btree_insert (cache_len c) ?x (by_size st)).
      cs_size (snd p) = fst p \<and> snd p \<in> take_sample rnd ` set (cs @ [c])"
  proof
    fix p
    assume "p \<in> set (btree_insert (cache_len c) ?x (by_size st))"
    with set_btree_insert [of "cache_len c" ?x "by_size st"] have "p = (cache_len c, ?x) \<or> p \<in> set (by_size st)" by blast
    then show "cs_size (snd p) = fst p \<and> snd p \<in> take_sample rnd ` set (cs @ [c])"
      using assms by (auto simp: sampler_inv_def)
  qed
  then show ?thesis
    using assms by (simp add: eq sampler_inv_def sorted_btree_insert keys_btree_insert map_of_btree_insert)
qed

lemma sampler_inv_default: "sampler_inv rnd [] sampler_default"
  by (simp add: sampler_inv_def sampler_default_def)

lemma sampler_inv_run: "sampler_inv rnd cs (observe_all rnd sampler_default cs)"
  by (induction cs rule: rev_induct)
    (simp_all add: observe_all_def sampler_inv_default sampler_inv_observe)

lemma exact_share:
  assumes "a \<le> b" and "b \<noteq> 0"
  shows "\<exists>r. fdiv exact (f64_of_nat exact a) (f64_of_nat exact b) = Fin r \<and> 0 \<le> r \<and> r \<le> 1"
  using assms by (simp add: f64_of_nat_def)

text \<open>The observation curve: whatever states of the cache are observed, the points come out
  in strictly ascending order of the entry count, one for each entry count that was ever
  observed, each the sample of an observed state; and a hit rate is never above one.\<close>

theorem sampler_points:
  "let st = observe_all exact (sampler_new exact c) cs in
     sorted_wrt (<) (map cs_size (points st)) \<and> set (map cs_size (points st)) = cache_len ` set (c # cs) \<and>
     list_all (\<lambda>x. list_ex (\<lambda>c'. x = take_sample exact c') (c # cs)) (points st) \<and>
     list_all (\<lambda>x. \<exists>r. cs_hit_rate x = Fin r \<and> 0 \<le> r \<and> r \<le> 1) (points st)"
proof -
  let ?st = "observe_all exact (sampler_new exact c) cs"
  have "?st = observe_all exact sampler_default (c # cs)" by (simp add: observe_all_def sampler_new_def)
  then have inv: "sampler_inv exact (c # cs) ?st" using sampler_inv_run by metis
  have sizes: "map cs_size (points ?st) = map fst (by_size ?st)"
    using inv by (auto simp: points_def sampler_inv_def)
  have rate: "\<exists>r. cs_hit_rate (take_sample exact c') = Fin r \<and> 0 \<le> r \<and> r \<le> 1" for c'
  proof (cases "lookups c' = 0")
    case False
    then have "unat (min (hits c') (lookups c')) \<le> unat (lookups c')" "unat (lookups c') \<noteq> 0"
      by (simp_all add: word_le_nat_alt [symmetric] unat_eq_0)
    from exact_share [OF this] False show ?thesis by (simp add: take_sample_def hit_stats_def)
  qed (simp add: take_sample_def hit_stats_def)
  have mem: "list_all (\<lambda>x. list_ex (\<lambda>c'. x = take_sample exact c') (c # cs)) (points ?st)"
    using inv by (simp add: points_def sampler_inv_def list_all_iff image_iff list_ex_iff del: exact_def)
  then have "list_all (\<lambda>x. \<exists>r. cs_hit_rate x = Fin r \<and> 0 \<le> r \<and> r \<le> 1) (points ?st)"
    by (rule list.pred_mono_strong) (auto simp: list_ex_iff intro: rate [simplified])
  with mem inv sizes show ?thesis unfolding Let_def by (simp add: sampler_inv_def)
qed

end
