(* ===== verification/Recorder.thy ===== *)
theory Recorder
  imports Prelude
begin

text \<open>
  The query recorder of \<open>src/dashboard/mod.rs\<close>.

  The recorder hands events to a bounded channel without ever waiting. The channel is the
  list of queued events with its capacity and whether the receiver is gone; the warnings the
  recorder logs are counted.
\<close>

record query_event =
  timestamp_ms :: int
  domain :: string
  query_type :: string
  response_code_text :: string
  duration_ms :: nat
  ev_blocked :: bool
  ev_cache_hit :: bool
  response_ips :: "string list"
  ev_upstream :: "string option"

record recorder =
  rec_queue :: "query_event list"
  rec_capacity :: nat
  rec_closed :: bool
  full_logged :: bool
  closed_logged :: bool
  full_warnings :: nat
  closed_warnings :: nat

definition recorder_channel :: "nat \<Rightarrow> recorder" where
  "recorder_channel capacity = \<lparr>rec_queue = [], rec_capacity = capacity, rec_closed = False,
     full_logged = False, closed_logged = False, full_warnings = 0, closed_warnings = 0\<rparr>"

definition recorder_disabled :: recorder where
  "recorder_disabled = (recorder_channel 1)\<lparr>rec_closed := True\<rparr>"

datatype send_result = Sent | Send_full | Send_closed

text \<open>\<open>try_send\<close> of the channel.\<close>

definition try_send :: "query_event \<Rightarrow> recorder \<Rightarrow> send_result \<times> recorder" where
  "try_send e r =
     (if rec_closed r then (Send_closed, r)
      else if length (rec_queue r) < rec_capacity r then (Sent, r\<lparr>rec_queue := rec_queue r @ [e]\<rparr>)
      else (Send_full, r))"

definition try_record :: "query_event \<Rightarrow> recorder \<Rightarrow> recorder" where
  "try_record e r = (case try_send e r of
     (Sent, r) \<Rightarrow> r\<lparr>full_logged := False\<rparr>
   | (Send_full, r) \<Rightarrow>
       if \<not> full_logged r then r\<lparr>full_logged := True, full_warnings := full_warnings r + 1\<rparr> else r
   | (Send_closed, r) \<Rightarrow>
       if \<not> closed_logged r then r\<lparr>closed_logged := True, closed_warnings := closed_warnings r + 1\<rparr> else r)"

text \<open>The receiving side: take the oldest event, or go away.\<close>

definition recv :: "recorder \<Rightarrow> query_event option \<times> recorder" where
  "recv r = (case rec_queue r of [] \<Rightarrow> (None, r) | e # es \<Rightarrow> (Some e, r\<lparr>rec_queue := es\<rparr>))"

definition close_receiver :: "recorder \<Rightarrow> recorder" where
  "close_receiver r = r\<lparr>rec_queue := [], rec_closed := True\<rparr>"

lemma recv_frame: "recv r = (x, r') \<Longrightarrow> rec_capacity r' = rec_capacity r \<and> rec_closed r' = rec_closed r"
  by (auto simp: recv_def split: list.splits)

section \<open>The interface of the channel\<close>

text \<open>
  What both sides rely on, whatever else the channel keeps: an event goes to the end of the queue
  when it is accepted and nowhere otherwise; a reception takes the first one, if there is one.
\<close>

locale event_channel =
  fixes content :: "'c \<Rightarrow> 'e list" and accepts :: "'c \<Rightarrow> bool"
    and record_into :: "'e \<Rightarrow> 'c \<Rightarrow> 'c" and receive :: "'c \<Rightarrow> 'e option \<times> 'c"
  assumes content_record: "content (record_into e c) = content c @ (if accepts c then [e] else [])"
    and receive_None: "receive c = (None, c') \<Longrightarrow> content c = [] \<and> c' = c"
    and receive_Some: "receive c = (Some e, c') \<Longrightarrow> content c = e # content c'"
begin

lemma receive_cases:
  obtains (Nothing) "content c = []" "receive c = (None, c)"
  | (Event) e c' where "content c = e # content c'" "receive c = (Some e, c')"
  by (metis receive_None receive_Some option.exhaust surj_pair)

lemma receive_first: "content c = e # es \<Longrightarrow> \<exists>c'. receive c = (Some e, c') \<and> content c' = es"
  by (cases c rule: receive_cases) auto

text \<open>What has been taken out, followed by what is inside, only grows at the end.\<close>

lemma taken_then_content:
  "(case receive c of (None, c') \<Rightarrow> got @ content c' | (Some e, c') \<Rightarrow> (got @ [e]) @ content c') = got @ content c"
  by (cases c rule: receive_cases) auto

end

definition accepting :: "recorder \<Rightarrow> bool" where
  "accepting r \<longleftrightarrow> \<not> rec_closed r \<and> length (rec_queue r) < rec_capacity r"

lemma try_send_Sent: "fst (try_send e r) = Sent \<longleftrightarrow> accepting r"
  by (simp add: try_send_def accepting_def)

interpretation events: event_channel rec_queue accepting try_record recv
  by unfold_locales
    (auto simp: try_record_def try_send_def accepting_def recv_def split: list.splits)

lemma recv_taken:
  "recv r = (Some e, r') \<Longrightarrow> rec_queue r = e # rec_queue r' \<and> rec_capacity r' = rec_capacity r \<and> rec_closed r' = rec_closed r"
  using events.receive_Some recv_frame by blast

section \<open>Executions\<close>

datatype recorder_op = Record query_event | Receive | Close

fun recorder_step :: "recorder \<times> query_event list \<Rightarrow> recorder_op \<Rightarrow> recorder \<times> query_event list" where
  "recorder_step (r, got) (Record e) = (try_record e r, got)"
| "recorder_step (r, got) Receive = (case recv r of (None, r) \<Rightarrow> (r, got) | (Some e, r) \<Rightarrow> (r, got @ [e]))"
| "recorder_step (r, got) Close = (close_receiver r, got)"

definition recorder_run :: "recorder \<Rightarrow> recorder_op list \<Rightarrow> recorder \<times> query_event list" where
  "recorder_run r ops = foldl recorder_step (r, []) ops"

text \<open>The events of a sequence that were accepted, in order, and the times the queue overflowed anew.\<close>

fun accepted :: "recorder \<Rightarrow> recorder_op list \<Rightarrow> query_event list" where
  "accepted r [] = []"
| "accepted r (Record e # ops) = (if fst (try_send e r) = Sent then [e] else []) @ accepted (try_record e r) ops"
| "accepted r (Receive # ops) = accepted (snd (recv r)) ops"
| "accepted r (Close # ops) = accepted (close_receiver r) ops"

lemma try_record_frame [simp]:
  "rec_capacity (try_record e r) = rec_capacity r" "rec_closed (try_record e r) = rec_closed r"
  by (auto simp: try_record_def try_send_def)

definition recorder_inv :: "recorder \<Rightarrow> bool" where
  "recorder_inv r \<longleftrightarrow> length (rec_queue r) \<le> rec_capacity r \<and> (rec_closed r \<longrightarrow> rec_queue r = []) \<and>
     closed_warnings r = (if closed_logged r then 1 else 0)"

lemma recorder_inv_step:
  assumes "recorder_inv r"
  shows "recorder_inv (fst (recorder_step (r, got) op)) \<and> rec_capacity (fst (recorder_step (r, got) op)) = rec_capacity r"
  using assms
  by (cases op) (auto simp: recorder_inv_def try_record_def try_send_def recv_def close_receiver_def split: list.splits)

lemma recorder_inv_channel: "recorder_inv (recorder_channel n)"
  by (simp add: recorder_inv_def recorder_channel_def)

lemma recorder_conservation:
  assumes "\<And>op. op \<in> set ops \<Longrightarrow> op \<noteq> Close"
  shows "snd (foldl recorder_step (r, got) ops) @ rec_queue (fst (foldl recorder_step (r, got) ops)) =
    got @ rec_queue r @ accepted r ops"
  using assms
proof (induction ops arbitrary: r got)
  case (Cons op ops)
  show ?case
  proof (cases op)
    case (Record e)
    with Cons show ?thesis by (simp add: events.content_record try_send_Sent)
  next
    case Receive
    with Cons show ?thesis by (cases r rule: events.receive_cases) simp_all
  next
    case Close
    with Cons.prems [of op] show ?thesis by simp
  qed
qed simp

lemma recorder_run_inv:
  "recorder_inv r \<Longrightarrow> recorder_inv (fst (foldl recorder_step (r, got) ops)) \<and>
     rec_capacity (fst (foldl recorder_step (r, got) ops)) = rec_capacity r"
proof (induction ops arbitrary: r got)
  case (Cons op ops)
  obtain r' got' where s: "recorder_step (r, got) op = (r', got')" by (cases "recorder_step (r, got) op")
  with Cons.IH [of r' got'] recorder_inv_step [OF Cons.prems, of got op] show ?case by simp
qed simp

text \<open>Recording never blocks and never reorders: for any interleaving of recordings and
  receptions the queue stays within its capacity, and what was received followed by what is
  queued is exactly the sequence of the accepted events; an event is accepted exactly when
  there is room at that moment; a closed channel is reported at most once.\<close>

theorem recorder_fifo:
  "let (r, got) = recorder_run (recorder_channel n) (filter (\<lambda>op. op \<noteq> Close) ops) in
     got @ rec_queue r = accepted (recorder_channel n) (filter (\<lambda>op. op \<noteq> Close) ops) \<and>
     length (rec_queue r) \<le> n \<and> closed_warnings (fst (recorder_run (recorder_channel n) ops)) \<le> 1"
proof -
  let ?ops = "filter (\<lambda>op. op \<noteq> Close) ops"
  obtain r got where run: "recorder_run (recorder_channel n) ?ops = (r, got)"
    by (cases "recorder_run (recorder_channel n) ?ops")
  have "got @ rec_queue r = accepted (recorder_channel n) ?ops"
    using recorder_conservation [of ?ops "recorder_channel n" "[]"] run
    by (simp add: recorder_run_def recorder_channel_def)
  moreover have "length (rec_queue r) \<le> n"
    using recorder_run_inv [OF recorder_inv_channel, of n "[]" ?ops] run
    by (simp add: recorder_run_def recorder_inv_def recorder_channel_def)
  moreover have "closed_warnings (fst (recorder_run (recorder_channel n) ops)) \<le> 1"
    using recorder_run_inv [OF recorder_inv_channel, of n "[]" ops]
    by (simp add: recorder_run_def recorder_inv_def split: if_splits)
  ultimately show ?thesis using run by simp
qed

end
