(* ===== verification/Pipeline.thy ===== *)
theory Pipeline
  imports "HOL-Library.Multiset" State_Machine Hosts Ad_Filter Ecs Cache_Sampler Recorder
begin

text \<open>
  \<open>src/pipeline.rs\<close>: what happens to a query: custom hosts, filter, optimistic cache, upstream,
  SERVFAIL. A handler waits once, for the upstream; so it is two functions, \<open>handle_start\<close> up
  to the wait (or to the reply, when there is no wait) and \<open>handle_finish\<close> from its end. A
  background refresh is likewise started and finished. Between the two halves other handlers run
  on the same cache, sampler and recorder: the step relation at the end interleaves any number
  of them.

  The upstream chain is a parameter: the environment supplies what it answers. \<open>timeout\<close> around
  it turns a late answer into an error.
\<close>

section \<open>State\<close>

record pipeline_parts =
  pp_hosts :: hosts_map
  pp_ecs :: "ecs_subnet option"
  pp_query_timeout :: duration

record pipeline_state =
  pl_filter :: ad_filter
  pl_cache :: cache
  pl_sampler :: sampler_state
  pl_recorder :: recorder

record query_outcome =
  qo_blocked :: bool
  qo_cache_hit :: bool
  qo_upstream :: "string option"

section \<open>Helpers\<close>

definition prepared_query :: "hickory \<Rightarrow> pipeline_parts \<Rightarrow> message \<Rightarrow> message" where
  "prepared_query H p query =
     (let q = (case edns query of
                 None \<Rightarrow> query
               | Some e \<Rightarrow> query\<lparr>edns := Some (e\<lparr>options := opt_remove H Code_Subnet (options e)\<rparr>)\<rparr>)
      in case pp_ecs p of None \<Rightarrow> q | Some subnet \<Rightarrow> inject H q subnet)"

fun blocked_addresses :: "rr list \<Rightarrow> nat \<Rightarrow> bool" where
  "blocked_addresses [] addresses = (addresses > 0)"
| "blocked_addresses (r # rs) addresses = (case rr_data r of
     RData_A v \<Rightarrow> if v \<noteq> 0 then False else blocked_addresses rs (addresses + 1)
   | RData_AAAA v \<Rightarrow> if v \<noteq> 0 then False else blocked_addresses rs (addresses + 1)
   | _ \<Rightarrow> blocked_addresses rs addresses)"

definition is_blocked_response :: "message \<Rightarrow> bool" where
  "is_blocked_response m = (if rcode m \<noteq> NoError then False else blocked_addresses (answers m) 0)"

definition response_code_name :: "response_code \<Rightarrow> string" where
  "response_code_name code = (case code of
     NoError \<Rightarrow> ''NOERROR'' | FormErr \<Rightarrow> ''FORMERR'' | ServFail \<Rightarrow> ''SERVFAIL''
   | NXDomain \<Rightarrow> ''NXDOMAIN'' | NotImp \<Rightarrow> ''NOTIMP'' | Refused \<Rightarrow> ''REFUSED''
   | YXDomain \<Rightarrow> ''YXDOMAIN'' | YXRRSet \<Rightarrow> ''YXRRSET'' | NXRRSet \<Rightarrow> ''NXRRSET''
   | NotAuth \<Rightarrow> ''NOTAUTH'' | NotZone \<Rightarrow> ''NOTZONE'' | BADVERS \<Rightarrow> ''BADVERS''
   | BADSIG \<Rightarrow> ''BADSIG'' | BADKEY \<Rightarrow> ''BADKEY'' | BADTIME \<Rightarrow> ''BADTIME''
   | BADMODE \<Rightarrow> ''BADMODE'' | BADNAME \<Rightarrow> ''BADNAME'' | BADALG \<Rightarrow> ''BADALG''
   | BADTRUNC \<Rightarrow> ''BADTRUNC'' | BADCOOKIE \<Rightarrow> ''BADCOOKIE''
   | Unknown_code v \<Rightarrow> ''RCODE'' @ dec_string (unat v))"

definition answer_ip :: "rr \<Rightarrow> string option" where
  "answer_ip r = (case rr_data r of
     RData_A v \<Rightarrow> Some (show_ip (V4 v)) | RData_AAAA v \<Rightarrow> Some (show_ip (V6 v)) | _ \<Rightarrow> None)"

definition query_event_of ::
  "hickory \<Rightarrow> question \<Rightarrow> message \<Rightarrow> duration \<Rightarrow> int \<Rightarrow> query_outcome \<Rightarrow> query_event" where
  "query_event_of H q response elapsed started_at_ms out =
     (let ips = List.map_filter answer_ip (answers response);
          ips = remdups_adj (sort ips)
      in \<lparr>timestamp_ms = started_at_ms, domain = norm_name (q_name q),
          query_type = rtype_to_string H (q_type q),
          response_code_text = response_code_name (rcode response),
          duration_ms = min (as_millis elapsed) u64_max,
          ev_blocked = qo_blocked out, ev_cache_hit = qo_cache_hit out,
          response_ips = ips, ev_upstream = qo_upstream out\<rparr>)"

definition record_query ::
  "hickory \<Rightarrow> message \<Rightarrow> message \<Rightarrow> duration \<Rightarrow> int \<Rightarrow> query_outcome \<Rightarrow> pipeline_state \<Rightarrow> pipeline_state" where
  "record_query H query response elapsed started_at_ms out st = (case queries query of
     [] \<Rightarrow> st
   | q # _ \<Rightarrow> st\<lparr>pl_recorder := try_record (query_event_of H q response elapsed started_at_ms out) (pl_recorder st)\<rparr>)"

section \<open>Handling a query\<close>

text \<open>The clock readings of one half of a handler.\<close>

record clocks =
  ck_now :: instant
  ck_elapsed :: duration
  ck_utc_ms :: int

text \<open>
  Where a handler is after its first half: it has replied, or it waits for the upstream's
  answer to the query it has sent. A refresh task is its key and the query it sends.
\<close>

datatype started = Replied_now message | Waiting "cache_key option" message

type_synonym refresh_task = "cache_key \<times> message"

text \<open>The query a background refresh sends: the client's, with the configured subnet injected.\<close>

definition spawn_refresh :: "hickory \<Rightarrow> pipeline_parts \<Rightarrow> cache_key \<Rightarrow> message \<Rightarrow> refresh_task" where
  "spawn_refresh H p key query =
     (key, case pp_ecs p of None \<Rightarrow> query | Some subnet \<Rightarrow> inject H query subnet)"

definition handle_start ::
  "hickory \<Rightarrow> rounding \<Rightarrow> pipeline_parts \<Rightarrow> clocks \<Rightarrow> message \<Rightarrow> pipeline_state \<Rightarrow>
   started \<times> refresh_task option \<times> pipeline_state" where
  "handle_start H rnd p ck query st = (case queries query of
     [] \<Rightarrow> (Replied_now (servfail query), None, st)
   | q # _ \<Rightarrow>
       (let qname = q_name q in
        case hosts_lookup (pp_hosts p) query of
          Some resp \<Rightarrow>
            (Replied_now resp, None, record_query H query resp (ck_elapsed ck) (ck_utc_ms ck)
               \<lparr>qo_blocked = False, qo_cache_hit = False, qo_upstream = None\<rparr> st)
        | None \<Rightarrow>
            if is_blocked (pl_filter st) qname
            then (let resp = block_response query in
              (Replied_now resp, None, record_query H query resp (ck_elapsed ck) (ck_utc_ms ck)
                 \<lparr>qo_blocked = True, qo_cache_hit = False, qo_upstream = None\<rparr> st))
            else let key = key_from_query query in
              case (case key of None \<Rightarrow> (None, st)
                    | Some k \<Rightarrow> (case cache_get (ck_now ck) (pl_cache st) k (msg_id query) of
                        (r, c) \<Rightarrow> (map_option (\<lambda>x. (k, x)) r, st\<lparr>pl_cache := c\<rparr>))) of
                (Some (k, cached, expired), st) \<Rightarrow>
                  (let refresh = (if expired then Some (spawn_refresh H p k query) else None);
                       is_blk = is_blocked_response cached;
                       st = st\<lparr>pl_sampler := observe rnd (pl_cache st) (pl_sampler st)\<rparr>
                   in (Replied_now cached, refresh,
                       record_query H query cached (ck_elapsed ck) (ck_utc_ms ck)
                         \<lparr>qo_blocked = is_blk, qo_cache_hit = True, qo_upstream = None\<rparr> st))
              | (None, st) \<Rightarrow> (Waiting key (prepared_query H p query), None, st)))"

text \<open>What the timeout makes of the upstream's answer after the given wait.\<close>

definition resolve_upstream :: "pipeline_parts \<Rightarrow> attributed resolved \<Rightarrow> duration \<Rightarrow> attributed resolved" where
  "resolve_upstream p answer waited = (if waited > pp_query_timeout p then Err Query_timed_out else answer)"

definition handle_finish ::
  "hickory \<Rightarrow> rounding \<Rightarrow> (nat \<Rightarrow> bool) \<Rightarrow> clocks \<Rightarrow> int \<Rightarrow> cache_key option \<Rightarrow> message \<Rightarrow> attributed resolved \<Rightarrow>
   pipeline_state \<Rightarrow> message \<times> pipeline_state" where
  "handle_finish H rnd alloc ck started_at_ms key query result st =
     (case (case result of
              Ok (resp, upstream) \<Rightarrow>
                ((resp, upstream),
                 case key of
                   Some k \<Rightarrow> if rcode resp = NoError
                            then st\<lparr>pl_cache := cache_put H alloc (ck_now ck) (pl_cache st) k resp\<rparr> else st
                 | None \<Rightarrow> st)
            | Err e \<Rightarrow> ((servfail query, None), st)) of
        ((response, upstream), st) \<Rightarrow>
          (let is_blk = is_blocked_response response;
               st = st\<lparr>pl_sampler := observe rnd (pl_cache st) (pl_sampler st)\<rparr>
           in (response, record_query H query response (ck_elapsed ck) started_at_ms
                 \<lparr>qo_blocked = is_blk, qo_cache_hit = False, qo_upstream = upstream\<rparr> st)))"

text \<open>The end of a refresh: only a reply without error replaces the stale entry.\<close>

definition refresh_finish ::
  "hickory \<Rightarrow> (nat \<Rightarrow> bool) \<Rightarrow> instant \<Rightarrow> cache_key \<Rightarrow> message resolved \<Rightarrow> pipeline_state \<Rightarrow> pipeline_state" where
  "refresh_finish H alloc now key result st = (case result of
     Ok resp \<Rightarrow> if rcode resp = NoError
               then st\<lparr>pl_cache := cache_put H alloc now (pl_cache st) key resp\<rparr> else st
   | Err _ \<Rightarrow> st)"

section \<open>Helpers: what they compute\<close>

lemma blocked_addresses_iff:
  "blocked_addresses rs n \<longleftrightarrow>
     (\<forall>r \<in> set rs. rr_data r \<in> range RData_A \<union> range RData_AAAA \<longrightarrow> rr_data r \<in> {RData_A 0, RData_AAAA 0}) \<and>
     (n > 0 \<or> (\<exists>r \<in> set rs. rr_data r \<in> {RData_A 0, RData_AAAA 0}))"
  by (induction rs n rule: blocked_addresses.induct) (auto split: rdata.splits)

lemma prepared_query_frame [simp]:
  "msg_id (prepared_query H p q) = msg_id q" "queries (prepared_query H p q) = queries q"
  "msg_type (prepared_query H p q) = msg_type q" "op_code (prepared_query H p q) = op_code q"
  by (simp_all add: prepared_query_def inject_def Let_def split: option.splits)

definition message_options :: "message \<Rightarrow> edns_option set" where
  "message_options m = (case edns m of None \<Rightarrow> {} | Some e \<Rightarrow> set (options e))"

definition subnet_options :: "message \<Rightarrow> edns_option set" where
  "subnet_options m = {x \<in> message_options m. code_of x = Code_Subnet}"

lemma message_options_inject:
  assumes "opt_laws H" and "edns_new_laws H"
  shows "message_options (inject H q sn) \<subseteq> insert (Opt_Subnet (es_addr sn) (es_prefix sn) 0) (message_options q)"
    and "Opt_Subnet (es_addr sn) (es_prefix sn) 0 \<in> message_options (inject H q sn)"
    and "x \<in> message_options q \<Longrightarrow> code_of x \<noteq> Code_Subnet \<Longrightarrow> x \<in> message_options (inject H q sn)"
  using assms
  by (auto simp: message_options_def inject_def Let_def edns_new_laws_def code_of_def
      split: option.splits dest: opt_insert_subset intro: opt_insert_mem opt_insert_other)

lemma block_response_sel:
  "msg_id (block_response q) = msg_id q" "msg_type (block_response q) = Response_type"
  "rcode (block_response q) = NoError" "op_code (block_response q) = op_code q"
  "queries (block_response q) = take 1 (queries q)"
  by (auto simp: block_response_def Let_def split: list.splits)

lemma record_query_frame [simp]:
  "pl_cache (record_query H q r e t out st) = pl_cache st"
  "pl_filter (record_query H q r e t out st) = pl_filter st"
  "pl_sampler (record_query H q r e t out st) = pl_sampler st"
  by (simp_all add: record_query_def split: list.splits)

section \<open>The first half, branch by branch\<close>

text \<open>
  The five ways a handler can start. \<open>served\<close> and \<open>forward\<close> are the only ones that touch the
  cache, and \<open>forward\<close> is the only one that goes to the upstream.
\<close>

lemma handle_start_cases:
  assumes "handle_start H rnd p ck query st = (s, refresh, st')"
  obtains (no_question) "queries query = []" "s = Replied_now (servfail query)" "refresh = None" "st' = st"
  | (from_hosts) resp where "queries query \<noteq> []" "hosts_lookup (pp_hosts p) query = Some resp" "s = Replied_now resp"
      "refresh = None" "pl_cache st' = pl_cache st" "pl_filter st' = pl_filter st"
  | (blocked_by_filter) "queries query \<noteq> []" "hosts_lookup (pp_hosts p) query = None"
      "is_blocked (pl_filter st) (q_name (hd (queries query)))" "s = Replied_now (block_response query)"
      "refresh = None" "pl_cache st' = pl_cache st" "pl_filter st' = pl_filter st"
  | (served) k cached expired where "queries query \<noteq> []" "key_from_query query = Some k"
      "hosts_lookup (pp_hosts p) query = None" "\<not> is_blocked (pl_filter st) (q_name (hd (queries query)))"
      "fst (cache_get (ck_now ck) (pl_cache st) k (msg_id query)) = Some (cached, expired)"
      "s = Replied_now cached" "refresh = (if expired then Some (spawn_refresh H p k query) else None)"
      "pl_cache st' = snd (cache_get (ck_now ck) (pl_cache st) k (msg_id query))" "pl_filter st' = pl_filter st"
  | (forward) k where "queries query \<noteq> []" "key_from_query query = Some k"
      "hosts_lookup (pp_hosts p) query = None" "\<not> is_blocked (pl_filter st) (q_name (hd (queries query)))"
      "fst (cache_get (ck_now ck) (pl_cache st) k (msg_id query)) = None"
      "s = Waiting (Some k) (prepared_query H p query)" "refresh = None"
      "st' = st\<lparr>pl_cache := snd (cache_get (ck_now ck) (pl_cache st) k (msg_id query))\<rparr>"
proof (cases "queries query")
  case Nil
  with assms show thesis by (intro no_question) (simp_all add: handle_start_def)
next
  case (Cons q qs)
  then have key: "key_from_query query = Some \<lparr>ck_name = norm_name (q_name q), ck_qtype = q_type q\<rparr>" (is "_ = Some ?k")
    by (simp add: key_from_query_def)
  show thesis
  proof (cases "hosts_lookup (pp_hosts p) query")
    case (Some resp)
    with assms Cons show thesis by (intro from_hosts) (auto simp: handle_start_def Let_def)
  next
    case None
    show thesis
    proof (cases "is_blocked (pl_filter st) (q_name q)")
      case True
      with None assms Cons show thesis by (intro blocked_by_filter) (auto simp: handle_start_def Let_def)
    next
      case False
      obtain r c where get: "cache_get (ck_now ck) (pl_cache st) ?k (msg_id query) = (r, c)"
        by (cases "cache_get (ck_now ck) (pl_cache st) ?k (msg_id query)")
      show thesis
      proof (cases r)
        case r: None
        with get None False assms Cons key show thesis
          by (intro forward) (auto simp: handle_start_def Let_def)
      next
        case (Some x)
        with get None False assms Cons key show thesis
          by (cases x, intro served) (auto simp: handle_start_def Let_def)
      qed
    qed
  qed
qed

section \<open>Interleaved handlers\<close>

text \<open>
  The whole of a running pipeline: the shared state, the handlers that wait for the upstream
  (key, client query, query sent), the refresh tasks in flight, and what happened so far: the
  queries received, the replies given, the queries sent, and the events the history writer has
  taken from the recorder's channel.
\<close>

record world =
  w_state :: pipeline_state
  w_waiting :: "(cache_key option \<times> message \<times> message) list"
  w_refreshing :: "refresh_task list"
  w_received :: "message list"
  w_replies :: "(message \<times> message) list"
  w_sent :: "message list"
  w_taken :: "query_event list"

definition world_init :: "ad_filter \<Rightarrow> nat \<Rightarrow> rounding \<Rightarrow> recorder \<Rightarrow> world" where
  "world_init f mb rnd r = \<lparr>w_state = \<lparr>pl_filter = f, pl_cache = cache_new mb,
     pl_sampler = sampler_new rnd (cache_new mb), pl_recorder = r\<rparr>,
     w_waiting = [], w_refreshing = [], w_received = [], w_replies = [], w_sent = [], w_taken = []\<rparr>"

text \<open>
  One step: a query arrives and is answered at once or sent on; a waiting handler gets an
  answer the upstream may give (\<open>ups q a\<close>) or times out; a refresh ends; the filter rules
  are replaced; the writer at the other end of the channel takes an event, closes the channel, or
  goes away with what is queued.
\<close>

inductive pipeline_step ::
  "hickory \<Rightarrow> rounding \<Rightarrow> pipeline_parts \<Rightarrow> (message \<Rightarrow> attributed resolved \<Rightarrow> bool) \<Rightarrow> world \<Rightarrow> world \<Rightarrow> bool"
  for H :: hickory and rnd :: rounding and p :: pipeline_parts and ups :: "message \<Rightarrow> attributed resolved \<Rightarrow> bool" where
  reply: "handle_start H rnd p ck query (w_state w) = (Replied_now r, refresh, st) \<Longrightarrow>
    pipeline_step H rnd p ups w (w\<lparr>w_state := st, w_received := w_received w @ [query],
      w_replies := w_replies w @ [(query, r)],
      w_refreshing := w_refreshing w @ (case refresh of None \<Rightarrow> [] | Some t \<Rightarrow> [t])\<rparr>)"
| ask: "handle_start H rnd p ck query (w_state w) = (Waiting key q, refresh, st) \<Longrightarrow>
    pipeline_step H rnd p ups w (w\<lparr>w_state := st, w_received := w_received w @ [query],
      w_waiting := w_waiting w @ [(key, query, q)], w_sent := w_sent w @ [q]\<rparr>)"
| answer: "i < length (w_waiting w) \<Longrightarrow> w_waiting w ! i = (key, query, q) \<Longrightarrow> ups q a \<Longrightarrow>
    handle_finish H rnd alloc ck ms key query (resolve_upstream p a waited) (w_state w) = (r, st) \<Longrightarrow>
    pipeline_step H rnd p ups w (w\<lparr>w_state := st, w_waiting := remove_nth i (w_waiting w),
      w_replies := w_replies w @ [(query, r)]\<rparr>)"
| refreshed: "i < length (w_refreshing w) \<Longrightarrow> w_refreshing w ! i = (key, q) \<Longrightarrow> ups q a \<Longrightarrow>
    pipeline_step H rnd p ups w (w\<lparr>
      w_state := refresh_finish H alloc now key (and_then (resolve_upstream p a waited) (\<lambda>x. Ok (fst x))) (w_state w),
      w_refreshing := remove_nth i (w_refreshing w)\<rparr>)"
| new_rules: "pipeline_step H rnd p ups w (w\<lparr>w_state := (w_state w)\<lparr>pl_filter := filter_store (pl_filter (w_state w)) rs\<rparr>\<rparr>)"
| taken: "recv (pl_recorder (w_state w)) = (Some e, ch) \<Longrightarrow>
    pipeline_step H rnd p ups w (w\<lparr>w_state := (w_state w)\<lparr>pl_recorder := ch\<rparr>, w_taken := w_taken w @ [e]\<rparr>)"
| closed: "pipeline_step H rnd p ups w (w\<lparr>w_state := (w_state w)\<lparr>pl_recorder := (pl_recorder (w_state w))\<lparr>rec_closed := True\<rparr>\<rparr>\<rparr>)"
| gone: "pipeline_step H rnd p ups w (w\<lparr>w_state := (w_state w)\<lparr>pl_recorder := close_receiver (pl_recorder (w_state w))\<rparr>\<rparr>)"

definition pipeline_init :: "rounding \<Rightarrow> world \<Rightarrow> bool" where
  "pipeline_init rnd w \<longleftrightarrow> (\<exists>f mb r. rec_queue r = [] \<and> w = world_init f mb rnd r)"

definition pipeline_reach ::
  "hickory \<Rightarrow> rounding \<Rightarrow> pipeline_parts \<Rightarrow> (message \<Rightarrow> attributed resolved \<Rightarrow> bool) \<Rightarrow> world \<Rightarrow> bool" where
  "pipeline_reach H rnd p ups = reachable (pipeline_init rnd) (pipeline_step H rnd p ups)"

lemma pipeline_start: "rec_queue r = [] \<Longrightarrow> pipeline_reach H rnd p ups (world_init f mb rnd r)"
  unfolding pipeline_reach_def by (rule initial) (auto simp: pipeline_init_def)

lemma pipeline_more: "pipeline_reach H rnd p ups w \<Longrightarrow> pipeline_step H rnd p ups w w' \<Longrightarrow> pipeline_reach H rnd p ups w'"
  unfolding pipeline_reach_def by (rule further)

text \<open>The upstream keeps the identifier: the contract of every resolver of the program.\<close>

definition keeps_id :: "(message \<Rightarrow> attributed resolved \<Rightarrow> bool) \<Rightarrow> bool" where
  "keeps_id ups \<longleftrightarrow> (\<forall>q r n. ups q (Ok (r, n)) \<longrightarrow> msg_id r = msg_id q)"

text \<open>What may be stored under a key: an answer without error to a query with that key.\<close>

definition upstream_answer :: "(message \<Rightarrow> attributed resolved \<Rightarrow> bool) \<Rightarrow> cache_key \<Rightarrow> message \<Rightarrow> bool" where
  "upstream_answer ups k m \<longleftrightarrow> rcode m = NoError \<and> (\<exists>q n. ups q (Ok (m, n)) \<and> key_from_query q = Some k)"

text \<open>Where a reply may come from.\<close>

definition reply_source ::
  "hickory \<Rightarrow> pipeline_parts \<Rightarrow> (message \<Rightarrow> attributed resolved \<Rightarrow> bool) \<Rightarrow> message \<Rightarrow> message \<Rightarrow> bool" where
  "reply_source H p ups query r \<longleftrightarrow>
     r = servfail query \<or> hosts_lookup (pp_hosts p) query = Some r \<or> r = block_response query \<or>
     (\<exists>k m. key_from_query query = Some k \<and> upstream_answer ups k m \<and> r = m\<lparr>msg_id := msg_id query\<rparr>) \<or>
     (\<exists>n. ups (prepared_query H p query) (Ok (r, n)))"

definition world_inv ::
  "hickory \<Rightarrow> pipeline_parts \<Rightarrow> (message \<Rightarrow> attributed resolved \<Rightarrow> bool) \<Rightarrow> world \<Rightarrow> bool" where
  "world_inv H p ups w \<longleftrightarrow>
     lru.all_stored (upstream_answer ups) (pl_cache (w_state w)) \<and>
     (\<forall>(query, r) \<in> set (w_replies w). reply_source H p ups query r) \<and>
     (\<forall>(key, query, q) \<in> set (w_waiting w). key = key_from_query query \<and> q = prepared_query H p query) \<and>
     (\<forall>(key, q) \<in> set (w_refreshing w). key_from_query q = Some key) \<and>
     mset (w_received w) = mset (map fst (w_replies w)) + mset (map (fst \<circ> snd) (w_waiting w)) \<and>
     set (w_sent w) \<subseteq> prepared_query H p ` set (w_received w)"

lemma mset_remove_nth: "i < length xs \<Longrightarrow> mset xs = add_mset (xs ! i) (mset (remove_nth i xs))"
  by (subst id_take_nth_drop [of i xs]) (simp_all add: remove_nth_def)

lemma key_from_query_cong: "queries q = queries q' \<Longrightarrow> key_from_query q = key_from_query q'"
  by (simp add: key_from_query_def)

lemma key_prepared [simp]: "key_from_query (prepared_query H p q) = key_from_query q"
  by (rule key_from_query_cong) simp

lemma key_inject [simp]: "key_from_query (inject H q sn) = key_from_query q"
  by (rule key_from_query_cong) (simp add: inject_def Let_def)

lemma key_spawn_refresh: "key_from_query query = Some k \<Longrightarrow> spawn_refresh H p k query = (k', q) \<Longrightarrow>
    k' = k \<and> key_from_query q = Some k"
  by (auto simp: spawn_refresh_def split: option.splits)

lemma world_inv_init: "world_inv H p ups (world_init f mb rnd r)"
  by (simp add: world_inv_def world_init_def lru.all_stored_def cache_new_def cache_inv_new)
    (simp add: cache_stored_def with_max_bytes_def)

lemma world_inv_arrive:
  assumes inv: "world_inv H p ups w" and start: "handle_start H rnd p ck query (w_state w) = (s, refresh, st)"
  shows "lru.all_stored (upstream_answer ups) (pl_cache st) \<and>
    (\<forall>r. s = Replied_now r \<longrightarrow> reply_source H p ups query r) \<and>
    (\<forall>key q. s = Waiting key q \<longrightarrow> key = key_from_query query \<and> q = prepared_query H p query) \<and>
    (\<forall>key q. refresh = Some (key, q) \<longrightarrow> key_from_query q = Some key)"
proof -
  have stored: "lru.all_stored (upstream_answer ups) (pl_cache (w_state w))" using inv by (simp add: world_inv_def)
  from start show ?thesis
  proof (cases rule: handle_start_cases)
    case (served k cached expired)
    obtain m where "upstream_answer ups k m" "cached = m\<lparr>msg_id := msg_id query\<rparr>"
      using lru.get_hit_P [OF stored served(5)] by blast
    then have "reply_source H p ups query cached" using served(2) unfolding reply_source_def by blast
    with served stored show ?thesis by (auto simp: lru.all_stored_get dest: key_spawn_refresh split: if_splits)
  qed (use stored in \<open>auto simp: reply_source_def lru.all_stored_get\<close>)
qed

lemma handle_finish_spec:
  assumes "handle_finish H rnd alloc ck ms key query result st = (r, st')"
  shows "(case result of Ok (resp, n) \<Rightarrow> r = resp | Err e \<Rightarrow> r = servfail query) \<and>
    pl_filter st' = pl_filter st \<and>
    pl_cache st' = (case (key, result) of
       (Some k, Ok (resp, n)) \<Rightarrow> if rcode resp = NoError then cache_put H alloc (ck_now ck) (pl_cache st) k resp else pl_cache st
     | _ \<Rightarrow> pl_cache st)"
  using assms by (auto simp: handle_finish_def Let_def split: sum.splits option.splits if_splits)

lemma resolve_upstream_Ok: "resolve_upstream p a waited = Ok x \<Longrightarrow> a = Ok x"
  by (simp add: resolve_upstream_def split: if_splits)

lemma world_inv_answer:
  assumes inv: "world_inv H p ups w" and wait: "(key, query, q) \<in> set (w_waiting w)" and a: "ups q a"
    and fin: "handle_finish H rnd alloc ck ms key query (resolve_upstream p a waited) (w_state w) = (r, st)"
  shows "lru.all_stored (upstream_answer ups) (pl_cache st) \<and> reply_source H p ups query r"
proof -
  have q: "key = key_from_query query" "q = prepared_query H p query"
    and stored: "lru.all_stored (upstream_answer ups) (pl_cache (w_state w))"
    using inv wait by (auto simp: world_inv_def)
  note spec = handle_finish_spec [OF fin]
  show ?thesis
  proof (cases "resolve_upstream p a waited")
    case (Inl e)
    with spec stored show ?thesis by (cases key) (auto simp: reply_source_def)
  next
    case (Inr x)
    obtain resp n where x: "x = (resp, n)" by (cases x)
    with Inr a have ok: "ups q (Ok (resp, n))" by (auto dest: resolve_upstream_Ok)
    then have "reply_source H p ups query resp" using q(2) by (auto simp: reply_source_def)
    moreover have "upstream_answer ups k resp" if "key = Some k" "rcode resp = NoError" for k
      using that ok q by (auto simp: upstream_answer_def)
    ultimately show ?thesis
      using spec Inr x stored by (cases key) (auto simp: lru.all_stored_put)
  qed
qed

lemma world_inv_refresh:
  assumes inv: "world_inv H p ups w" and task: "(key, q) \<in> set (w_refreshing w)" and a: "ups q a"
  shows "lru.all_stored (upstream_answer ups) (pl_cache (refresh_finish H alloc now key
      (and_then (resolve_upstream p a waited) (\<lambda>x. Ok (fst x))) (w_state w)))"
proof -
  have q: "key_from_query q = Some key"
    and stored: "lru.all_stored (upstream_answer ups) (pl_cache (w_state w))"
    using inv task by (auto simp: world_inv_def)
  show ?thesis
  proof (cases "resolve_upstream p a waited")
    case (Inr x)
    obtain resp n where x: "x = (resp, n)" by (cases x)
    with Inr a have "ups q (Ok (resp, n))" by (auto dest: resolve_upstream_Ok)
    with q have "upstream_answer ups key resp" if "rcode resp = NoError"
      using that by (auto simp: upstream_answer_def)
    then show ?thesis using Inr x stored by (simp add: refresh_finish_def lru.all_stored_put)
  qed (simp add: refresh_finish_def stored)
qed

lemma world_inv_step:
  assumes step: "pipeline_step H rnd p ups w w'" and inv: "world_inv H p ups w"
  shows "world_inv H p ups w'"
  using step
proof cases
  case (reply ck query r refresh st)
  from world_inv_arrive [OF inv reply(2)] inv show ?thesis
    by (cases refresh) (auto simp: world_inv_def reply(1))
next
  case (ask ck query key q refresh st)
  from world_inv_arrive [OF inv ask(2)] inv show ?thesis
    by (auto simp: world_inv_def ask(1))
next
  case (answer i key query q a alloc ck ms waited r st)
  have mem: "(key, query, q) \<in> set (w_waiting w)" using answer(2,3) by (metis nth_mem)
  have "mset (map (fst \<circ> snd) (w_waiting w)) = add_mset query (mset (map (fst \<circ> snd) (remove_nth i (w_waiting w))))"
    using mset_remove_nth [OF answer(2)] answer(3) by simp
  with world_inv_answer [OF inv mem answer(4,5)] inv set_remove_nth [of i "w_waiting w"] show ?thesis
    by (auto simp: world_inv_def answer(1))
next
  case (refreshed i key q a alloc now waited)
  have mem: "(key, q) \<in> set (w_refreshing w)" using refreshed(2,3) by (metis nth_mem)
  from world_inv_refresh [OF inv mem refreshed(4)] inv set_remove_nth [of i "w_refreshing w"] show ?thesis
    by (auto simp: world_inv_def refreshed(1))
next
  case (new_rules rs)
  with inv show ?thesis by (simp add: world_inv_def)
qed (use inv in \<open>simp_all add: world_inv_def\<close>)

interpretation pipeline: inductive_invariant "pipeline_init rnd" "pipeline_step H rnd p ups" "world_inv H p ups" for H rnd p ups
  by unfold_locales (auto simp: pipeline_init_def intro: world_inv_init world_inv_step)

lemmas world_inv_reach = pipeline.always [folded pipeline_reach_def]

section \<open>What is recorded\<close>

text \<open>An event describes a reply: its fields are those of the query's first question and of the reply.\<close>

definition describes :: "hickory \<Rightarrow> message \<times> message \<Rightarrow> query_event \<Rightarrow> bool" where
  "describes H x e \<longleftrightarrow> (\<exists>q qs elapsed t out. queries (fst x) = q # qs \<and> e = query_event_of H q (snd x) elapsed t out)"

text \<open>From one state of the channel to the next: at most one event is handed over, and it describes the reply.\<close>

definition records :: "hickory \<Rightarrow> message \<times> message \<Rightarrow> recorder \<Rightarrow> recorder \<Rightarrow> bool" where
  "records H x c c' \<longleftrightarrow> c' = c \<or> (\<exists>e. describes H x e \<and> c' = try_record e c)"

lemma records_refl [simp]: "records H x c c"
  by (simp add: records_def)

lemma records_query [simp]:
  "pl_recorder st = c \<Longrightarrow> records H (query, r) c (pl_recorder (record_query H query r elapsed t out st))"
  by (cases "queries query") (auto simp: record_query_def records_def describes_def)

lemma handle_start_records:
  assumes "handle_start H rnd p ck query st = (s, refresh, st')"
  shows "(case s of Replied_now r \<Rightarrow> records H (query, r) (pl_recorder st) (pl_recorder st') | Waiting _ _ \<Rightarrow> pl_recorder st' = pl_recorder st)"
  using assms by (auto simp: handle_start_def Let_def split: list.splits option.splits if_splits prod.splits)

lemma handle_finish_records:
  assumes "handle_finish H rnd alloc ck ms key query result st = (r, st')"
  shows "records H (query, r) (pl_recorder st) (pl_recorder st')"
  using assms by (auto simp: handle_finish_def Let_def split: option.splits if_splits sum.splits)

text \<open>The events taken and queued, in order, describe different replies of the run.\<close>

definition recorded_inv :: "hickory \<Rightarrow> world \<Rightarrow> bool" where
  "recorded_inv H w \<longleftrightarrow> (\<exists>xs. mset xs \<subseteq># mset (w_replies w) \<and>
     list_all2 (describes H) xs (w_taken w @ rec_queue (pl_recorder (w_state w))))"

lemma recorded_reply:
  assumes "recorded_inv H w" and "w_taken w' = w_taken w" and "w_replies w' = w_replies w @ [(query, r)]"
    and "records H (query, r) (pl_recorder (w_state w)) (pl_recorder (w_state w'))"
  shows "recorded_inv H w'"
proof -
  from assms(1) obtain xs where xs: "mset xs \<subseteq># mset (w_replies w)"
    "list_all2 (describes H) xs (w_taken w @ rec_queue (pl_recorder (w_state w)))" by (auto simp: recorded_inv_def)
  have more: "mset xs \<subseteq># mset (w_replies w')" using xs(1) unfolding assms(3) mset_append by (rule subset_mset.add_increasing2 [rotated]) simp
  from assms(4) consider "rec_queue (pl_recorder (w_state w')) = rec_queue (pl_recorder (w_state w))"
    | e where "describes H (query, r) e" "rec_queue (pl_recorder (w_state w')) = rec_queue (pl_recorder (w_state w)) @ [e]"
    by (cases "accepting (pl_recorder (w_state w))") (auto simp: records_def events.content_record)
  then show ?thesis
  proof cases
    case 1
    with xs(2) more show ?thesis by (auto simp: recorded_inv_def assms(2))
  next
    case 2
    have "mset (xs @ [(query, r)]) \<subseteq># mset (w_replies w')" using xs(1) by (simp add: assms(3))
    moreover have "list_all2 (describes H) (xs @ [(query, r)]) (w_taken w' @ rec_queue (pl_recorder (w_state w')))"
      using list_all2_appendI [OF xs(2), of "[(query, r)]" "[e]"] 2 by (simp add: assms(2))
    ultimately show ?thesis unfolding recorded_inv_def by blast
  qed
qed

lemma recorded_inv_step:
  assumes inv: "recorded_inv H w" and step: "pipeline_step H rnd p ups w w'"
  shows "recorded_inv H w'"
  using step
proof cases
  case (reply ck query r refresh st)
  with handle_start_records [OF reply(2)] show ?thesis by (intro recorded_reply [OF inv, of w' query r]) auto
next
  case (ask ck query key q refresh st)
  with handle_start_records [OF ask(2)] inv show ?thesis by (simp add: recorded_inv_def)
next
  case (answer i key query q a alloc ck ms waited r st)
  with handle_finish_records [OF answer(5)] show ?thesis by (intro recorded_reply [OF inv, of w' query r]) auto
next
  case (refreshed i key q a alloc now waited)
  with inv show ?thesis by (auto simp: recorded_inv_def refresh_finish_def split: sum.splits if_splits)
next
  case (taken e ch)
  with inv events.receive_Some [OF taken(2)] show ?thesis by (simp add: recorded_inv_def)
next
  case gone
  from inv obtain xs ys where "mset (xs @ ys) \<subseteq># mset (w_replies w)" "list_all2 (describes H) xs (w_taken w)"
    by (auto simp: recorded_inv_def list_all2_append2)
  moreover from this(1) have "mset xs \<subseteq># mset (w_replies w)"
    by (metis mset_append mset_subset_eq_add_left subset_mset.order_trans)
  ultimately show ?thesis using gone by (auto simp: recorded_inv_def close_receiver_def)
qed (use inv in \<open>simp_all add: recorded_inv_def\<close>)

interpretation recorded: inductive_invariant "pipeline_init rnd" "pipeline_step H rnd p ups" "recorded_inv H" for H rnd p ups
proof
  show "recorded_inv H w" if "pipeline_init rnd w" for w
    using that by (auto simp: pipeline_init_def recorded_inv_def world_init_def)
qed (rule recorded_inv_step)

lemmas recorded_inv_reach = recorded.always [folded pipeline_reach_def]

section \<open>What the pipeline guarantees\<close>

text \<open>The configured subnet as the set of subnet options a query may carry.\<close>

definition allowed_subnets :: "pipeline_parts \<Rightarrow> edns_option set" where
  "allowed_subnets p = (case pp_ecs p of None \<Rightarrow> {} | Some sn \<Rightarrow> {Opt_Subnet (es_addr sn) (es_prefix sn) 0})"

lemma message_options_strip:
  assumes "opt_laws H"
  shows "message_options (case edns q of None \<Rightarrow> q
     | Some e \<Rightarrow> q\<lparr>edns := Some (e\<lparr>options := opt_remove H Code_Subnet (options e)\<rparr>)\<rparr>) =
     {x \<in> message_options q. code_of x \<noteq> Code_Subnet}"
  using assms by (auto simp: message_options_def opt_removeD split: option.splits)

lemma prepared_query_options:
  assumes "opt_laws H" and "edns_new_laws H"
  shows "subnet_options (prepared_query H p q) = allowed_subnets p"
    and "message_options (prepared_query H p q) - subnet_options (prepared_query H p q) =
      message_options q - subnet_options q"
proof -
  define q0 where "q0 = (case edns q of None \<Rightarrow> q
     | Some e \<Rightarrow> q\<lparr>edns := Some (e\<lparr>options := opt_remove H Code_Subnet (options e)\<rparr>)\<rparr>)"
  have o: "message_options q0 = {x \<in> message_options q. code_of x \<noteq> Code_Subnet}"
    unfolding q0_def by (rule message_options_strip [OF assms(1)])
  have prep: "prepared_query H p q = (case pp_ecs p of None \<Rightarrow> q0 | Some sn \<Rightarrow> inject H q0 sn)"
    by (cases "pp_ecs p") (simp_all add: prepared_query_def Let_def q0_def)
  have code: "code_of (Opt_Subnet a n m) = Code_Subnet" for a n m by (simp add: code_of_def)
  have ins: "message_options (inject H q0 sn) = insert (Opt_Subnet (es_addr sn) (es_prefix sn) 0) (message_options q0)" for sn
    using message_options_inject [OF assms, where q = q0 and sn = sn] o by blast
  show "subnet_options (prepared_query H p q) = allowed_subnets p"
    by (cases "pp_ecs p") (auto simp: prep subnet_options_def allowed_subnets_def ins o code)
  show "message_options (prepared_query H p q) - subnet_options (prepared_query H p q) = message_options q - subnet_options q"
    by (cases "pp_ecs p") (auto simp: prep subnet_options_def ins o code)
qed

text \<open>C3. End-to-end safety of the interleaved pipeline: in every state reachable by any
  interleaving of arrivals, upstream answers, timeouts, refreshes and rule updates, every
  reply carries the identifier of its query and is a SERVFAIL for it, the custom host answer,
  the block answer, the upstream's answer to the query sent for it, or a stored answer that
  the upstream once gave without error to a query for the same name and type.\<close>

theorem pipeline_replies_sound:
  assumes "pipeline_reach H rnd p ups w" and "keeps_id ups" and "(query, r) \<in> set (w_replies w)"
  shows "msg_id r = msg_id query \<and>
    (r = servfail query \<or> hosts_lookup (pp_hosts p) query = Some r \<or> r = block_response query \<or>
     (\<exists>n. ups (prepared_query H p query) (Ok (r, n))) \<or>
     (\<exists>q m n. ups q (Ok (m, n)) \<and> rcode m = NoError \<and> key_from_query q \<noteq> None \<and>
        key_from_query q = key_from_query query \<and> r = m\<lparr>msg_id := msg_id query\<rparr>))"
proof -
  have "reply_source H p ups query r"
    using world_inv_reach [OF assms(1)] assms(3) by (auto simp: world_inv_def)
  then consider "r = servfail query" | "hosts_lookup (pp_hosts p) query = Some r" | "r = block_response query"
    | n where "ups (prepared_query H p query) (Ok (r, n))"
    | k q m n where "key_from_query query = Some k" "ups q (Ok (m, n))" "rcode m = NoError" "key_from_query q = Some k"
        "r = m\<lparr>msg_id := msg_id query\<rparr>"
    unfolding reply_source_def upstream_answer_def by blast
  then show ?thesis
  proof cases
    case 2
    then have "msg_id r = msg_id query" by (rule hosts_lookup_Some)
    with 2 show ?thesis by simp
  next
    case 4
    then have "msg_id r = msg_id query" using assms(2) prepared_query_frame(1) unfolding keeps_id_def by metis
    with 4 show ?thesis by blast
  next
    case 5
    then have "key_from_query q \<noteq> None \<and> key_from_query q = key_from_query query" by simp
    with 5 show ?thesis by (metis (no_types, lifting) message.select_convs(1) message.surjective message.update_convs(1))
  qed (simp_all add: block_response_sel)
qed

text \<open>No query is lost or answered twice: in every reachable state the queries received
  are, as a multiset, those that have a reply and those whose handler still waits.\<close>

theorem pipeline_conserves_queries:
  assumes "pipeline_reach H rnd p ups w"
  shows "mset (w_received w) = mset (map fst (w_replies w)) + mset (map (fst \<circ> snd) (w_waiting w))"
  using world_inv_reach [OF assms] by (simp add: world_inv_def)

text \<open>C10. Privacy of forwarded queries: in every reachable state, every query a handler has sent
  upstream is one of the received queries with its client subnet removed: it carries the
  configured subnet and no other, or none when none is configured, and every other option of
  the client's query unchanged.\<close>

theorem forwarded_subnet:
  assumes "pipeline_reach H rnd p ups w" and "opt_laws H" and "edns_new_laws H" and "q \<in> set (w_sent w)"
  shows "\<exists>query \<in> set (w_received w). msg_id q = msg_id query \<and> queries q = queries query \<and>
    subnet_options q = (case pp_ecs p of None \<Rightarrow> {} | Some sn \<Rightarrow> {Opt_Subnet (es_addr sn) (es_prefix sn) 0}) \<and>
    message_options q - subnet_options q = message_options query - subnet_options query"
proof -
  obtain query where q: "query \<in> set (w_received w)" "q = prepared_query H p query"
    using world_inv_reach [OF assms(1)] assms(4) by (auto simp: world_inv_def)
  with prepared_query_options [OF assms(2,3), of p query] show ?thesis
    by (intro bexI [of _ query]) (simp_all add: allowed_subnets_def)
qed

text \<open>
  A stale hit, as a run: the first query misses and is sent, its answer is stored, and the same
  query comes again when the answer has expired.
\<close>

lemma handle_start_miss:
  assumes "queries query \<noteq> []" and "hosts_lookup (pp_hosts p) query = None"
    and "\<not> is_blocked (pl_filter st) (q_name (hd (queries query)))" and "key_from_query query = Some k"
    and "cm_entries (c_map (pl_cache st)) = []"
  shows "handle_start H rnd p ck query st = (Waiting (Some k) (prepared_query H p query), None,
    st\<lparr>pl_cache := (pl_cache st)\<lparr>lookups := lookups (pl_cache st) + 1\<rparr>\<rparr>)"
  using assms by (cases "queries query") (simp_all add: handle_start_def Let_def cache_get_def to_back_def)

lemma handle_start_stale:
  assumes "queries query \<noteq> []" and "hosts_lookup (pp_hosts p) query = None"
    and "\<not> is_blocked (pl_filter st) (q_name (hd (queries query)))" and "key_from_query query = Some k"
    and "fst (cache_get (ck_now ck) (pl_cache st) k (msg_id query)) = Some (cached, True)"
  shows "\<exists>st'. handle_start H rnd p ck query st = (Replied_now cached, Some (spawn_refresh H p k query), st')"
  using assms
  by (cases "queries query"; cases "cache_get (ck_now ck) (pl_cache st) k (msg_id query)")
    (simp_all add: handle_start_def Let_def)

lemma stale_run:
  assumes "queries query \<noteq> []" and "hosts_lookup (pp_hosts p) query = None"
    and "\<not> is_blocked f (q_name (hd (queries query)))" and "key_from_query query = Some k"
    and "ups (prepared_query H p query) (Ok (m, n))" and "rcode m = NoError" and "entry_cost H k m \<le> max_bytes (cache_new mb)"
  shows "\<exists>w task. pipeline_reach H rnd p ups w \<and> w_received w = [query, query] \<and>
    w_replies w = [(query, m), (query, m\<lparr>msg_id := msg_id query\<rparr>)] \<and>
    w_sent w = [prepared_query H p query] \<and> w_refreshing w = [task] \<and>
    (\<exists>ck st s st'. handle_start H rnd p ck query st = (s, Some task, st'))"
proof -
  let ?ck = "\<lparr>ck_now = 0, ck_elapsed = 0, ck_utc_ms = 0\<rparr>" and ?late = "\<lparr>ck_now = from_secs (min_ttl m), ck_elapsed = 0, ck_utc_ms = 0\<rparr>"
  let ?w0 = "world_init f mb rnd (recorder_channel 4)"
  let ?c1 = "(cache_new mb)\<lparr>lookups := 1\<rparr>"
  let ?w1 = "?w0\<lparr>w_state := (w_state ?w0)\<lparr>pl_cache := ?c1\<rparr>, w_received := [query],
      w_waiting := [(Some k, query, prepared_query H p query)], w_sent := [prepared_query H p query]\<rparr>"
  have fresh: "cm_entries (c_map (cache_new mb)) = []" "lookups (cache_new mb) = 0" "\<not> c_poisoned (cache_new mb)"
    by (simp_all add: cache_new_def with_max_bytes_def)
  have "handle_start H rnd p ?ck query (w_state ?w0) =
      (Waiting (Some k) (prepared_query H p query), None, (w_state ?w0)\<lparr>pl_cache := ?c1\<rparr>)"
    using handle_start_miss [where st = "w_state ?w0" and k = k and ck = ?ck] assms(1-4) fresh by (simp add: world_init_def)
  from pipeline_step.ask [OF this, of ups] have "pipeline_step H rnd p ups ?w0 ?w1" by (simp add: world_init_def)
  moreover have "rec_queue (recorder_channel 4) = []" by (simp add: recorder_channel_def)
  ultimately have w1: "pipeline_reach H rnd p ups ?w1" by (blast intro: pipeline_more pipeline_start)
  obtain reply st2 where fin: "handle_finish H rnd (\<lambda>_. True) ?ck 0 (Some k) query (resolve_upstream p (Ok (m, n)) 0) (w_state ?w1) = (reply, st2)"
    by (cases "handle_finish H rnd (\<lambda>_. True) ?ck 0 (Some k) query (resolve_upstream p (Ok (m, n)) 0) (w_state ?w1)")
  from handle_finish_spec [OF fin] assms(6) have st2: "reply = m" "pl_filter st2 = f" "pl_cache st2 = cache_put H (\<lambda>_. True) 0 ?c1 k m"
    by (simp_all add: resolve_upstream_def world_init_def)
  let ?w2 = "?w1\<lparr>w_state := st2, w_waiting := [], w_replies := [(query, m)]\<rparr>"
  have "pipeline_step H rnd p ups ?w1 ?w2"
    using pipeline_step.answer [where i = 0 and w = ?w1 and H = H and rnd = rnd and p = p and ups = ups, OF _ _ _ fin] assms(5) st2(1)
    by (simp add: world_init_def remove_nth_def)
  with w1 have w2: "pipeline_reach H rnd p ups ?w2" by (rule pipeline_more)
  have "cache_inv ?c1" "cacheable H ?c1 k m"
    using assms(7) fresh(3)
    by (simp_all add: cache_inv_def cacheable_def total_cost_def) (simp_all add: cache_new_def with_max_bytes_def)
  from cache_get_put [OF this, of "\<lambda>_. True" "from_secs (min_ttl m)" 0 "msg_id query"]
  have "fst (cache_get (ck_now ?late) (pl_cache st2) k (msg_id query)) = Some (m\<lparr>msg_id := msg_id query\<rparr>, True)"
    by (simp add: st2(3))
  from handle_start_stale [OF assms(1,2) _ assms(4) this] assms(3) st2(2) obtain st3
    where start: "handle_start H rnd p ?late query st2 = (Replied_now (m\<lparr>msg_id := msg_id query\<rparr>), Some (spawn_refresh H p k query), st3)"
    by auto
  let ?w3 = "?w2\<lparr>w_state := st3, w_received := [query, query], w_replies := [(query, m), (query, m\<lparr>msg_id := msg_id query\<rparr>)],
      w_refreshing := [spawn_refresh H p k query]\<rparr>"
  have "handle_start H rnd p ?late query (w_state ?w2) =
      (Replied_now (m\<lparr>msg_id := msg_id query\<rparr>), Some (spawn_refresh H p k query), st3)" using start by simp
  from pipeline_step.reply [OF this, of ups] have "pipeline_step H rnd p ups ?w2 ?w3" by (simp add: world_init_def)
  with w2 have "pipeline_reach H rnd p ups ?w3" by (rule pipeline_more)
  with start show ?thesis by (intro exI [of _ ?w3] exI [of _ "spawn_refresh H p k query"]) (auto simp: world_init_def)
qed

lemma handle_start_refresh:
  assumes "handle_start H rnd p ck query st = (s, Some (k, q), st')" and "pp_ecs p = None"
  shows "q = query"
  using assms(1) by (cases rule: handle_start_cases) (auto simp: spawn_refresh_def assms(2) split: if_splits)

text \<open>C38. A background refresh gives the client's subnet away. With no subnet configured, whenever a
  handler starts a refresh, the query that refresh sends carries exactly the subnet options of
  the client's query. And this does happen, for every query that is neither a custom host nor
  blocked and whose answer fits the cache: there is a run in which the client sends the query, it is
  forwarded without any subnet and answered, and the same query again, once the answer has expired,
  leaves a refresh in flight that carries the subnet the client supplied.\<close>

theorem refresh_leaks_client_subnet:
  assumes "opt_laws H" and "edns_new_laws H" and "pp_ecs p = None"
    and "queries query \<noteq> []" and "hosts_lookup (pp_hosts p) query = None"
    and "\<not> is_blocked f (q_name (hd (queries query)))" and "key_from_query query = Some k"
    and "ups (prepared_query H p query) (Ok (m, n))" and "rcode m = NoError" and "entry_cost H k m \<le> max_bytes (cache_new mb)"
  shows "(\<forall>ck st s key q st'. handle_start H rnd p ck query st = (s, Some (key, q), st') \<longrightarrow>
      subnet_options q = subnet_options query) \<and>
    (\<exists>w key q. pipeline_reach H rnd p ups w \<and> w_received w = [query, query] \<and> w_refreshing w = [(key, q)] \<and>
      subnet_options q = subnet_options query \<and> w_sent w \<noteq> [] \<and> (\<forall>q' \<in> set (w_sent w). subnet_options q' = {}))"
proof
  show "\<forall>ck st s key q st'. handle_start H rnd p ck query st = (s, Some (key, q), st') \<longrightarrow> subnet_options q = subnet_options query"
    using handle_start_refresh [OF _ assms(3)] by blast
  obtain w key q where w: "pipeline_reach H rnd p ups w" "w_received w = [query, query]"
      "w_sent w = [prepared_query H p query]" "w_refreshing w = [(key, q)]"
    and start: "\<exists>ck st s st'. handle_start H rnd p ck query st = (s, Some (key, q), st')"
    using stale_run [where f = f and ups = ups and n = n and rnd = rnd, OF assms(4-10)] by (metis surj_pair)
  from start have "q = query" using handle_start_refresh [OF _ assms(3)] by blast
  moreover have "subnet_options (prepared_query H p query) = {}"
    using prepared_query_options(1) [OF assms(1,2), of p query] assms(3) by (simp add: allowed_subnets_def)
  ultimately show "\<exists>w key q. pipeline_reach H rnd p ups w \<and> w_received w = [query, query] \<and> w_refreshing w = [(key, q)] \<and>
      subnet_options q = subnet_options query \<and> w_sent w \<noteq> [] \<and> (\<forall>q' \<in> set (w_sent w). subnet_options q' = {})"
    using w by (intro exI [of _ w]) simp
qed

text \<open>What never reaches the upstream: a query for a custom host and a query for a blocked
  name are answered at once, with the host answer or with the block answer, without a lookup
  in the cache and without any query sent, and the host answer takes precedence.\<close>

theorem local_answers_stay_local:
  assumes "queries query = q # qs"
    and "hosts_lookup (pp_hosts p) query \<noteq> None \<or> is_blocked (pl_filter st) (q_name q)"
  shows "\<exists>st'. handle_start H rnd p ck query st =
      (Replied_now (case hosts_lookup (pp_hosts p) query of Some r \<Rightarrow> r | None \<Rightarrow> block_response query), None, st') \<and>
    pl_cache st' = pl_cache st"
proof -
  obtain s refresh st' where start: "handle_start H rnd p ck query st = (s, refresh, st')"
    by (cases "handle_start H rnd p ck query st")
  from start show ?thesis
    by (cases rule: handle_start_cases) (use assms start in auto)
qed

text \<open>The block answer is recognised: an address query answered by the filter is counted as
  blocked by the response check too, and so is exactly every reply without error that has
  address records, all of them the unspecified address.\<close>

theorem blocked_response_recognised:
  "(is_blocked_response m \<longleftrightarrow> rcode m = NoError \<and>
      (let addrs = [x. r \<leftarrow> answers m, x \<leftarrow> (case rr_data r of RData_A v \<Rightarrow> [V4 v] | RData_AAAA v \<Rightarrow> [V6 v] | _ \<Rightarrow> [])] in
       addrs \<noteq> [] \<and> list_all (\<lambda>x. is_unspecified x) addrs)) \<and>
   (is_blocked_response (block_response query) \<longleftrightarrow>
      queries query \<noteq> [] \<and> q_type (hd (queries query)) \<in> {RT_A, RT_AAAA})"
proof -
  let ?addrs = "\<lambda>rs. [x. r \<leftarrow> rs, x \<leftarrow> (case rr_data r of RData_A v \<Rightarrow> [V4 v] | RData_AAAA v \<Rightarrow> [V6 v] | _ \<Rightarrow> [])]"
  have "blocked_addresses rs n \<longleftrightarrow> list_all is_unspecified (?addrs rs) \<and> (n > 0 \<or> ?addrs rs \<noteq> [])" for rs n
    by (induction rs n rule: blocked_addresses.induct) (auto simp: is_unspecified_def split: rdata.splits)
  then have "is_blocked_response m \<longleftrightarrow> rcode m = NoError \<and> ?addrs (answers m) \<noteq> [] \<and> list_all is_unspecified (?addrs (answers m))" for m
    by (auto simp: is_blocked_response_def)
  moreover have "is_blocked_response (block_response query) \<longleftrightarrow>
      queries query \<noteq> [] \<and> q_type (hd (queries query)) \<in> {RT_A, RT_AAAA}"
    by (cases "queries query") (auto simp: is_blocked_response_def block_response_def Let_def RT_A_def RT_AAAA_def)
  ultimately show ?thesis by (simp add: Let_def)
qed

section \<open>Concrete instances\<close>

definition sample_parts :: pipeline_parts where
  "sample_parts = \<lparr>pp_hosts = hosts_from_entries [], pp_ecs = None, pp_query_timeout = from_secs 10\<rparr>"

definition sample_query :: message where
  "sample_query = (message_new 7 Query_type 0)\<lparr>queries := [\<lparr>q_name = ''a.b'', q_type = RT_A\<rparr>],
     edns := Some \<lparr>max_payload = 512, options = [Opt_Subnet (V4 1) 24 0, Opt_other 10 [1]]\<rparr>\<rparr>"

definition sample_ups :: "message \<Rightarrow> attributed resolved \<Rightarrow> bool" where
  "sample_ups q a \<longleftrightarrow> a = Ok ((message_new (msg_id q) Response_type 0)\<lparr>queries := queries q\<rparr>, Some ''up'')"

definition sample_world :: world where
  "sample_world = world_init (filter_new []) 1 exact (recorder_channel 4)"

lemma sample_keeps_id: "keeps_id sample_ups"
  by (auto simp: keeps_id_def sample_ups_def)

lemma sample_hosts_lookup: "hosts_lookup (pp_hosts sample_parts) sample_query = None"
proof -
  have "find_wildcard (\<lambda>_. None) n = None" for n by (simp add: find_wildcard_None_iff)
  then show ?thesis
    by (simp add: hosts_lookup_def sample_query_def sample_parts_def hosts_from_entries_def hosts_find_def Let_def)
qed

lemma sample_start:
  "handle_start sample_hickory exact sample_parts ck sample_query (w_state sample_world) =
     (Waiting (key_from_query sample_query) (prepared_query sample_hickory sample_parts sample_query), None,
      (w_state sample_world)\<lparr>pl_cache := (pl_cache (w_state sample_world))\<lparr>lookups := 1\<rparr>\<rparr>)"
proof -
  have "\<not> is_blocked (filter_new []) n" for n
    by (simp add: is_blocked_iff filter_new_def rule_set_empty_def)
  moreover have "cache_get now (cache_new 1) k i = (None, (cache_new 1)\<lparr>lookups := 1\<rparr>)" for now k i
    by (simp add: cache_get_def cache_new_def with_max_bytes_def to_back_def Let_def)
  ultimately show ?thesis
    using sample_hosts_lookup
    by (simp add: handle_start_def sample_query_def sample_world_def world_init_def key_from_query_def Let_def)
qed

text \<open>The query goes out, and its answer comes back.\<close>

lemma sample_reach_sent:
  "\<exists>w. pipeline_reach sample_hickory exact sample_parts sample_ups w \<and>
     w_sent w = [prepared_query sample_hickory sample_parts sample_query] \<and>
     w_waiting w = [(key_from_query sample_query, sample_query, prepared_query sample_hickory sample_parts sample_query)] \<and>
     w_replies w = [] \<and> w_taken w = [] \<and> pl_recorder (w_state w) = recorder_channel 4"
proof -
  have "pipeline_reach sample_hickory exact sample_parts sample_ups sample_world"
    unfolding sample_world_def by (rule pipeline_start) (simp add: recorder_channel_def)
  from pipeline_more [OF this pipeline_step.ask [OF sample_start]] show ?thesis
    by (fastforce simp: sample_world_def world_init_def)
qed

lemma sample_reach_replied:
  "\<exists>w r. pipeline_reach sample_hickory exact sample_parts sample_ups w \<and> (sample_query, r) \<in> set (w_replies w)"
proof -
  let ?q = "prepared_query sample_hickory sample_parts sample_query"
  from sample_reach_sent obtain w where w: "pipeline_reach sample_hickory exact sample_parts sample_ups w"
    "w_waiting w = [(key_from_query sample_query, sample_query, ?q)]" by blast
  obtain a where a: "sample_ups ?q a" by (simp add: sample_ups_def)
  obtain r st where "handle_finish sample_hickory exact (\<lambda>_. True) \<lparr>ck_now = 0, ck_elapsed = 0, ck_utc_ms = 0\<rparr> 0
      (key_from_query sample_query) sample_query (resolve_upstream sample_parts a 0) (w_state w) = (r, st)"
    by (metis surj_pair)
  then have "pipeline_step sample_hickory exact sample_parts sample_ups w
     (w\<lparr>w_state := st, w_waiting := remove_nth 0 (w_waiting w), w_replies := w_replies w @ [(sample_query, r)]\<rparr>)"
    by (rule pipeline_step.answer [rotated 3]) (use w(2) a in simp_all)
  from pipeline_more [OF w(1) this] show ?thesis by force
qed

text \<open>The event of that reply is taken from the channel.\<close>

lemma sample_reach_taken:
  "\<exists>w e. pipeline_reach sample_hickory exact sample_parts sample_ups w \<and> w_taken w = [e] \<and> duration_ms e = 0"
proof -
  let ?q = "prepared_query sample_hickory sample_parts sample_query" and ?ck = "\<lparr>ck_now = 0, ck_elapsed = 0, ck_utc_ms = 0\<rparr>"
  from sample_reach_sent obtain w where w: "pipeline_reach sample_hickory exact sample_parts sample_ups w"
    "w_waiting w = [(key_from_query sample_query, sample_query, ?q)]" "w_taken w = []" "pl_recorder (w_state w) = recorder_channel 4" by blast
  obtain a where a: "sample_ups ?q a" by (simp add: sample_ups_def)
  obtain r st where fin: "handle_finish sample_hickory exact (\<lambda>_. True) ?ck 0 (key_from_query sample_query) sample_query
      (resolve_upstream sample_parts a 0) (w_state w) = (r, st)"
    by (metis surj_pair)
  let ?w = "w\<lparr>w_state := st, w_waiting := remove_nth 0 (w_waiting w), w_replies := w_replies w @ [(sample_query, r)]\<rparr>"
  have "pipeline_step sample_hickory exact sample_parts sample_ups w ?w"
    using fin by (rule pipeline_step.answer [rotated 3]) (use w(2) a in simp_all)
  note replied = pipeline_more [OF w(1) this]
  obtain e where e: "rec_queue (pl_recorder st) = [e]" "duration_ms e = 0"
    using fin w(4) by (auto simp: handle_finish_def record_query_def sample_query_def query_event_of_def try_record_def try_send_def
        recorder_channel_def as_millis_def Let_def split: sum.splits if_splits option.splits)
  then obtain ch where "recv (pl_recorder (w_state ?w)) = (Some e, ch)" using events.receive_first [of "pl_recorder st" e "[]"] by auto
  note pipeline_more [OF replied pipeline_step.taken [OF this]]
  moreover have "w_taken (?w\<lparr>w_state := (w_state ?w)\<lparr>pl_recorder := ch\<rparr>, w_taken := w_taken ?w @ [e]\<rparr>) = [e]" using w(3) by simp
  ultimately show ?thesis using e(2) by blast
qed

lemma pipeline_replies_sound_witness:
  "\<exists>w r. pipeline_reach sample_hickory exact sample_parts sample_ups w \<and> (sample_query, r) \<in> set (w_replies w) \<and> msg_id r = 7"
proof -
  obtain w r where w: "pipeline_reach sample_hickory exact sample_parts sample_ups w" "(sample_query, r) \<in> set (w_replies w)"
    using sample_reach_replied by blast
  from pipeline_replies_sound [OF w(1) sample_keeps_id w(2)] have "msg_id r = 7" by (simp add: sample_query_def)
  with w show ?thesis by blast
qed

lemma pipeline_conserves_queries_witness:
  "\<exists>w. pipeline_reach sample_hickory exact sample_parts sample_ups w \<and> mset (w_received w) = {#sample_query#}"
proof -
  obtain w where w: "pipeline_reach sample_hickory exact sample_parts sample_ups w" "w_replies w = []"
     "w_waiting w = [(key_from_query sample_query, sample_query, prepared_query sample_hickory sample_parts sample_query)]"
    using sample_reach_sent by blast
  from pipeline_conserves_queries [OF w(1)] w show ?thesis by auto
qed

lemma forwarded_subnet_witness:
  "\<exists>w. pipeline_reach sample_hickory exact sample_parts sample_ups w \<and>
     prepared_query sample_hickory sample_parts sample_query \<in> set (w_sent w) \<and>
     subnet_options (prepared_query sample_hickory sample_parts sample_query) = {}"
proof -
  obtain w where w: "pipeline_reach sample_hickory exact sample_parts sample_ups w"
     "w_sent w = [prepared_query sample_hickory sample_parts sample_query]"
    using sample_reach_sent by blast
  from forwarded_subnet [OF w(1) sample_hickory_laws, of "prepared_query sample_hickory sample_parts sample_query"] w
  show ?thesis by (auto simp: sample_parts_def)
qed

lemma refresh_leaks_client_subnet_witness:
  "\<exists>w key q. pipeline_reach sample_hickory exact sample_parts sample_ups w \<and> w_refreshing w = [(key, q)] \<and>
     Opt_Subnet (V4 1) 24 0 \<in> subnet_options q \<and> (\<forall>q' \<in> set (w_sent w). subnet_options q' = {})"
proof -
  let ?m = "(message_new 7 Response_type 0)\<lparr>queries := queries sample_query\<rparr>"
  let ?k = "\<lparr>ck_name = norm_name ''a.b'', ck_qtype = RT_A\<rparr>"
  have sub: "Opt_Subnet (V4 1) 24 0 \<in> subnet_options sample_query"
    by (simp add: subnet_options_def message_options_def sample_query_def code_of_def)
  have "pp_ecs sample_parts = None" "queries sample_query \<noteq> []" "key_from_query sample_query = Some ?k"
      "\<not> is_blocked (filter_new []) (q_name (hd (queries sample_query)))"
    by (simp_all add: sample_parts_def sample_query_def key_from_query_def is_blocked_iff filter_new_def rule_set_empty_def)
  moreover have "sample_ups (prepared_query sample_hickory sample_parts sample_query) (Ok (?m, Some ''up''))"
    by (simp add: sample_ups_def) (simp add: sample_query_def)
  moreover have "norm_name ''a.b'' = ''a.b''" by (simp add: eval_simps)
  then have "entry_cost sample_hickory ?k ?m \<le> max_bytes (cache_new 1)"
    by (simp add: entry_cost_def ENTRY_OVERHEAD_def sample_hickory_def cache_new_def with_max_bytes_def u64_max_def)
  ultimately show ?thesis
    using refresh_leaks_client_subnet [OF sample_hickory_laws, of sample_parts sample_query "filter_new []" ?k sample_ups ?m
        "Some ''up''" 1 exact] sample_hosts_lookup sub
    by force
qed

lemma local_answers_stay_local_witness:
  "\<exists>st'. handle_start sample_hickory exact sample_parts \<lparr>ck_now = 0, ck_elapsed = 0, ck_utc_ms = 0\<rparr> sample_query
      ((w_state sample_world)\<lparr>pl_filter := \<lparr>rules = \<lparr>blocked = {''a.b''}, exceptions = {}\<rparr>, f_allowlist = {}\<rparr>\<rparr>) =
    (Replied_now (block_response sample_query), None, st') \<and> pl_cache st' = cache_new 1"
proof -
  have "queries sample_query = [\<lparr>q_name = ''a.b'', q_type = RT_A\<rparr>]" by (simp add: sample_query_def)
  moreover have "norm_name ''a.b'' = ''a.b''" by (simp add: eval_simps)
  then have "is_blocked \<lparr>rules = \<lparr>blocked = {''a.b''}, exceptions = {}\<rparr>, f_allowlist = {}\<rparr> ''a.b''"
    by (simp add: is_blocked_iff)
  ultimately show ?thesis
    using local_answers_stay_local [of sample_query "\<lparr>q_name = ''a.b'', q_type = RT_A\<rparr>" "[]" sample_parts
      "(w_state sample_world)\<lparr>pl_filter := \<lparr>rules = \<lparr>blocked = {''a.b''}, exceptions = {}\<rparr>, f_allowlist = {}\<rparr>\<rparr>"
      sample_hickory exact "\<lparr>ck_now = 0, ck_elapsed = 0, ck_utc_ms = 0\<rparr>"] sample_hosts_lookup
    by (simp add: sample_world_def world_init_def)
qed

end
