(* ===== verification/Sql_Like.thy ===== *)
theory Sql_Like
  imports Rust_Str
begin

text \<open>
  The search of \<open>src/dashboard/store.rs\<close>: \<open>escape_like\<close>, and the LIKE operator of SQL with the
  escape character backslash, case-insensitive on ASCII, which the queries of the store use.
\<close>

definition str_replace :: "char \<Rightarrow> string \<Rightarrow> string \<Rightarrow> string" where
  "str_replace c r s = concat (map (\<lambda>x. if x = c then r else [x]) s)"

definition escape_like :: "string \<Rightarrow> string" where
  "escape_like v = str_replace (CHR ''_'') (CHR 0x5C # ''_'')
     (str_replace (CHR ''%'') (CHR 0x5C # ''%'') (str_replace (CHR 0x5C) [CHR 0x5C, CHR 0x5C] v))"

definition search_pattern :: "string \<Rightarrow> string" where
  "search_pattern v = ''%'' @ escape_like v @ ''%''"

text \<open>The pattern is read token by token: any text, any character, a literal character.\<close>

datatype like_token = Any_text | Any_char | Literal char

fun like_tokens :: "string \<Rightarrow> like_token list option" where
  "like_tokens [] = Some []"
| "like_tokens (c # p) =
     (if c = CHR 0x5C then (case p of [] \<Rightarrow> None | e # p' \<Rightarrow> map_option (\<lambda>ts. Literal e # ts) (like_tokens p'))
      else map_option (\<lambda>ts. (if c = CHR ''%'' then Any_text else if c = CHR ''_'' then Any_char else Literal c) # ts)
             (like_tokens p))"

fun like_match :: "like_token list \<Rightarrow> string \<Rightarrow> bool" where
  "like_match [] s = (s = [])"
| "like_match (Any_text # ts) [] = like_match ts []"
| "like_match (Any_text # ts) (c # s) = (like_match ts (c # s) \<or> like_match (Any_text # ts) s)"
| "like_match (Any_char # ts) [] = False"
| "like_match (Any_char # ts) (c # s) = like_match ts s"
| "like_match (Literal e # ts) [] = False"
| "like_match (Literal e # ts) (c # s) = (to_lower e = to_lower c \<and> like_match ts s)"

definition sql_like :: "string \<Rightarrow> string \<Rightarrow> bool" where
  "sql_like pattern s = (case like_tokens pattern of None \<Rightarrow> False | Some ts \<Rightarrow> like_match ts s)"

section \<open>Escaping\<close>

definition escape_char :: "char \<Rightarrow> string" where
  "escape_char c = (if c \<in> {CHR 0x5C, CHR ''%'', CHR ''_''} then [CHR 0x5C, c] else [c])"

lemma escape_like_eq: "escape_like v = concat (map escape_char v)"
proof (induction v)
  case (Cons c v)
  then show ?case by (auto simp: escape_like_def str_replace_def escape_char_def)
qed (simp add: escape_like_def str_replace_def)

lemma like_tokens_escape:
  "like_tokens (escape_like v @ p) = map_option (\<lambda>ts. map Literal v @ ts) (like_tokens p)"
proof (induction v)
  case Nil
  then show ?case by (simp add: escape_like_eq option.map_ident)
next
  case (Cons c v)
  have "like_tokens (escape_char c @ r) = map_option (\<lambda>ts. Literal c # ts) (like_tokens r)" for r
    by (auto simp: escape_char_def)
  with Cons show ?case by (simp add: escape_like_eq option.map_comp comp_def)
qed

lemma like_match_any: "like_match [Any_text] s"
  by (induction s) simp_all

lemma like_match_literals:
  "like_match (map Literal v @ [Any_text]) s \<longleftrightarrow> (\<exists>b. to_lowercase s = to_lowercase v @ b)"
proof (induction v arbitrary: s)
  case Nil
  then show ?case by (simp add: like_match_any to_lowercase_def)
next
  case (Cons x v)
  then show ?case by (cases s) (auto simp: to_lowercase_def)
qed

lemma like_match_Any_text: "like_match (Any_text # ts) s \<longleftrightarrow> (\<exists>a b. s = a @ b \<and> like_match ts b)"
proof (induction s)
  case (Cons c s)
  have "(\<exists>a b. c # s = a @ b \<and> like_match ts b) \<longleftrightarrow>
      like_match ts (c # s) \<or> (\<exists>a b. s = a @ b \<and> like_match ts b)"
    by (auto simp: Cons_eq_append_conv)
  with Cons show ?case by simp
qed simp

lemma like_tokens_percent: "like_tokens ''%'' = Some [Any_text]"
  by simp

lemma sql_like_search:
  "sql_like (search_pattern v) s \<longleftrightarrow> (\<exists>a b. to_lowercase s = a @ to_lowercase v @ b)"
proof -
  have "like_tokens (search_pattern v) = Some (Any_text # map Literal v @ [Any_text])"
    by (simp add: search_pattern_def like_tokens_escape like_tokens_percent)
  then have "sql_like (search_pattern v) s \<longleftrightarrow>
      (\<exists>a b. s = a @ b \<and> (\<exists>c. to_lowercase b = to_lowercase v @ c))"
    by (simp add: sql_like_def like_match_Any_text like_match_literals)
  also have "\<dots> \<longleftrightarrow> (\<exists>a b. to_lowercase s = a @ to_lowercase v @ b)"
  proof
    assume "\<exists>a b. s = a @ b \<and> (\<exists>c. to_lowercase b = to_lowercase v @ c)"
    then obtain a b c where "s = a @ b" "to_lowercase b = to_lowercase v @ c" by blast
    then have "to_lowercase s = to_lowercase a @ to_lowercase v @ c" by (simp add: to_lowercase_def)
    then show "\<exists>a b. to_lowercase s = a @ to_lowercase v @ b" by blast
  next
    assume "\<exists>a b. to_lowercase s = a @ to_lowercase v @ b"
    then obtain a b where ab: "map to_lower s = a @ to_lowercase v @ b" by (auto simp: to_lowercase_def)
    let ?n = "length a"
    have "drop ?n (map to_lower s) = to_lowercase v @ b" using ab by simp
    then have "to_lowercase (drop ?n s) = to_lowercase v @ b" by (simp add: to_lowercase_def drop_map)
    then show "\<exists>a b. s = a @ b \<and> (\<exists>c. to_lowercase b = to_lowercase v @ c)"
      by (metis append_take_drop_id)
  qed
  finally show ?thesis .
qed

text \<open>The search finds exactly the texts that contain the search term, upper and lower case
  ASCII letters alike: whatever the term contains (percent signs, underscores and backslashes
  included), matching the pattern built from it is containing it, and an empty term matches
  everything.\<close>

theorem search_is_substring:
  "(sql_like (search_pattern v) s \<longleftrightarrow> (\<exists>a b. to_lowercase s = a @ to_lowercase v @ b)) \<and> sql_like (search_pattern []) s"
  using sql_like_search [of v s] sql_like_search [of "[]" s] by (auto simp: to_lowercase_def)

end
