(* ===== verification/Store.thy ===== *)
theory Store
  imports Cache_Sampler Recorder Sql_Like "HOL-Library.Product_Lexorder" "HOL-Library.Multiset"
begin

text \<open>
  \<open>src/dashboard/store.rs\<close>: the query history. The database is its four tables; each SQL
  statement of the code is the operation on the tables that the statement says. A transaction
  that ends with an error leaves the database as it was. What SQLite and the operating system
  decide (can the file be opened, does a statement or the commit fail) is the record \<open>sql_io\<close>;
  the calendar library is the parameter \<open>midnight\<close>, which gives the start of the UTC day of a
  timestamp or nothing when the timestamp is out of its range.
\<close>

section \<open>Tables\<close>

definition STORE_HOUR_MS :: int where
  "STORE_HOUR_MS = 3600000"

definition STORE_DAY_MS :: int where
  "STORE_DAY_MS = 86400000"

definition MAX_TREND_BUCKETS :: nat where
  "MAX_TREND_BUCKETS = 10000"

definition MAX_QUERY_PAGE_SIZE :: nat where
  "MAX_QUERY_PAGE_SIZE = 200"

record log_row =
  lr_id :: int
  lr_timestamp_ms :: int
  lr_domain :: string
  lr_query_type :: string
  lr_response_code :: string
  lr_duration_ms :: int
  lr_blocked :: bool
  lr_cache_hit :: bool
  lr_upstream :: "string option"

record stat_row =
  total_queries :: int
  blocked_queries :: int
  cache_hits :: int

type_synonym stat_table = "(int \<times> stat_row) list"

record database =
  query_logs :: "log_row list"
  query_response_ips :: "(int \<times> string) list"
  query_hourly_stats :: stat_table
  query_daily_stats :: stat_table
  sequence :: int

definition empty_database :: database where
  "empty_database = \<lparr>query_logs = [], query_response_ips = [], query_hourly_stats = [],
     query_daily_stats = [], sequence = 0\<rparr>"

datatype store_error =
    Connect_error | Statement_error | Commit_error | Sequence_exhausted
  | Parameter_conversion | Event_timestamp_range
  | Retention_range | Cutoff_range
  | Trend_timestamp_range | Trend_range | Trend_too_many | Bucket_range
  | Bad_page_size | Offset_range | Row_conversion | Deadline_exceeded

record sql_io =
  io_open :: bool
  io_busy_timeout :: "duration \<Rightarrow> bool"
  io_foreign_keys :: bool
  io_statement :: "nat \<Rightarrow> bool"
  io_commit :: bool

text \<open>\<open>Store::connect\<close>: open the file, set the busy timeout, switch foreign keys on.\<close>

definition io_connect :: "sql_io \<Rightarrow> bool" where
  "io_connect io \<longleftrightarrow> io_open io \<and> io_busy_timeout io (from_secs 2) \<and> io_foreign_keys io"

type_synonym calendar = "int \<Rightarrow> int option"

section \<open>Writing\<close>

definition insert_log :: "query_event \<Rightarrow> int \<Rightarrow> database \<Rightarrow> (int \<times> database) option" where
  "insert_log e duration db =
     (let i = sequence db + 1 in
      if \<not> in_i64 i then None
      else Some (i, db\<lparr>query_logs := query_logs db @ [\<lparr>lr_id = i, lr_timestamp_ms = timestamp_ms e,
             lr_domain = domain e, lr_query_type = query_type e, lr_response_code = response_code_text e,
             lr_duration_ms = duration, lr_blocked = ev_blocked e, lr_cache_hit = ev_cache_hit e,
             lr_upstream = ev_upstream e\<rparr>], sequence := i\<rparr>))"

definition insert_ip :: "int \<Rightarrow> database \<Rightarrow> string \<Rightarrow> database" where
  "insert_ip query_id db ip =
     (if (query_id, ip) \<in> set (query_response_ips db) then db
      else db\<lparr>query_response_ips := query_response_ips db @ [(query_id, ip)]\<rparr>)"

definition upsert :: "int \<Rightarrow> bool \<Rightarrow> bool \<Rightarrow> stat_table \<Rightarrow> stat_table" where
  "upsert bucket blk hit tbl = (case map_of tbl bucket of
     None \<Rightarrow> btree_insert bucket \<lparr>total_queries = 1, blocked_queries = of_bool blk, cache_hits = of_bool hit\<rparr> tbl
   | Some r \<Rightarrow> btree_insert bucket \<lparr>total_queries = total_queries r + 1,
       blocked_queries = blocked_queries r + of_bool blk, cache_hits = cache_hits r + of_bool hit\<rparr> tbl)"

definition insert_event :: "calendar \<Rightarrow> database \<Rightarrow> query_event \<Rightarrow> (database, store_error) result" where
  "insert_event midnight db e =
     (case i64_try_from_u64 (duration_ms e) of
        None \<Rightarrow> Err Parameter_conversion
      | Some duration \<Rightarrow>
          (case insert_log e duration db of
             None \<Rightarrow> Err Sequence_exhausted
           | Some (query_id, db) \<Rightarrow>
               (let db = foldl (insert_ip query_id) db (response_ips e) in
                case midnight (timestamp_ms e) of
                  None \<Rightarrow> Err Event_timestamp_range
                | Some daily_bucket \<Rightarrow>
                    (let hourly_bucket = timestamp_ms e div 3600000 * 3600000;
                         db = db\<lparr>query_hourly_stats := upsert hourly_bucket (ev_blocked e) (ev_cache_hit e) (query_hourly_stats db)\<rparr>;
                         db = db\<lparr>query_daily_stats := upsert daily_bucket (ev_blocked e) (ev_cache_hit e) (query_daily_stats db)\<rparr>
                     in Ok db))))"

fun insert_loop :: "sql_io \<Rightarrow> calendar \<Rightarrow> nat \<Rightarrow> database \<Rightarrow> query_event list \<Rightarrow> (database, store_error) result" where
  "insert_loop io midnight n db [] = Ok db"
| "insert_loop io midnight n db (e # es) =
     (if \<not> io_statement io n then Err Statement_error
      else and_then (insert_event midnight db e) (\<lambda>db. insert_loop io midnight (Suc n) db es))"

definition insert_events ::
  "sql_io \<Rightarrow> calendar \<Rightarrow> database \<Rightarrow> query_event list \<Rightarrow> (unit, store_error) result \<times> database" where
  "insert_events io midnight db events =
     (if \<not> io_connect io then (Err Connect_error, db)
      else case insert_loop io midnight 0 db events of
        Err e \<Rightarrow> (Err e, db)
      | Ok db' \<Rightarrow> if io_commit io then (Ok (), db') else (Err Commit_error, db))"

text \<open>Deleting log rows deletes their addresses (\<open>ON DELETE CASCADE\<close>).\<close>

definition delete_logs :: "(log_row \<Rightarrow> bool) \<Rightarrow> database \<Rightarrow> database" where
  "delete_logs P db =
     (let gone = lr_id ` {r \<in> set (query_logs db). P r} in
      db\<lparr>query_logs := filter (\<lambda>r. \<not> P r) (query_logs db),
         query_response_ips := filter (\<lambda>(i, ip). i \<notin> gone) (query_response_ips db)\<rparr>)"

definition cleanup :: "sql_io \<Rightarrow> nat \<Rightarrow> int \<Rightarrow> database \<Rightarrow> (unit, store_error) result \<times> database" where
  "cleanup io retention_days now_ms db =
     (if retention_days = 0 then (Ok (), db)
      else case Option.bind (i64_try_from_u64 retention_days) (\<lambda>days. checked_i64 (days * STORE_DAY_MS)) of
        None \<Rightarrow> (Err Retention_range, db)
      | Some retention_ms \<Rightarrow>
          (case checked_i64 (now_ms - retention_ms) of
             None \<Rightarrow> (Err Cutoff_range, db)
           | Some cutoff \<Rightarrow>
               if \<not> io_connect io then (Err Connect_error, db)
               else if \<not> (io_statement io 0 \<and> io_statement io 1 \<and> io_statement io 2) then (Err Statement_error, db)
               else (let db' = delete_logs (\<lambda>r. lr_timestamp_ms r < cutoff) db;
                         db' = db'\<lparr>query_hourly_stats := filter (\<lambda>(b, r). \<not> b + 3600000 \<le> cutoff) (query_hourly_stats db')\<rparr>;
                         db' = db'\<lparr>query_daily_stats := filter (\<lambda>(b, r). \<not> b + 86400000 \<le> cutoff) (query_daily_stats db')\<rparr>
                     in if io_commit io then (Ok (), db') else (Err Commit_error, db))))"

section \<open>Reading\<close>

definition read_connection :: "sql_io \<Rightarrow> instant option \<Rightarrow> instant \<Rightarrow> (unit, store_error) result" where
  "read_connection io deadline now =
     (if \<not> io_connect io then Err Connect_error
      else case deadline of
        None \<Rightarrow> Ok ()
      | Some d \<Rightarrow> if d < now then Err Deadline_exceeded
                  else if \<not> io_busy_timeout io (d - now) then Err Connect_error else Ok ())"

definition bucket_start :: "int \<Rightarrow> int \<Rightarrow> (int, store_error) result" where
  "bucket_start timestamp interval = ok_or Bucket_range (checked_i64 (timestamp div interval * interval))"

record trend_bucket =
  tb_bucket_ms :: int
  tb_total_queries :: int
  tb_blocked_queries :: int
  tb_cache_hits :: int

record trend_response =
  tr_start_ms :: int
  tr_end_ms :: int
  tr_granularity :: string
  tr_buckets :: "trend_bucket list"

definition trend_bucket_of :: "int \<times> stat_row \<Rightarrow> trend_bucket" where
  "trend_bucket_of x = \<lparr>tb_bucket_ms = fst x, tb_total_queries = total_queries (snd x),
     tb_blocked_queries = blocked_queries (snd x), tb_cache_hits = cache_hits (snd x)\<rparr>"

text \<open>The range of a trend: granularity, interval, first and last bucket.\<close>

definition trend_range :: "nat \<Rightarrow> int \<Rightarrow> (string \<times> int \<times> int \<times> int, store_error) result" where
  "trend_range retention_days now_ms =
     (let from = (\<lambda>interval. and_then (ok_or Trend_range (i64_try_from_u64 retention_days)) (\<lambda>days.
                 and_then (ok_or Trend_range (checked_i64 (days * STORE_DAY_MS))) (\<lambda>span.
                 and_then (ok_or Trend_range (checked_i64 (now_ms - span))) (\<lambda>first.
                 bucket_start first interval))))
      in if retention_days = 0
         then and_then (bucket_start now_ms STORE_DAY_MS) (\<lambda>end_ms.
              and_then (ok_or Trend_range (checked_i64 (end_ms - 29 * STORE_DAY_MS))) (\<lambda>start_ms.
              Ok (''day'', STORE_DAY_MS, start_ms, end_ms)))
         else if retention_days \<le> 15
         then and_then (from STORE_HOUR_MS) (\<lambda>start_ms.
              and_then (bucket_start now_ms STORE_HOUR_MS) (\<lambda>end_ms.
              Ok (''hour'', STORE_HOUR_MS, start_ms, end_ms)))
         else and_then (from STORE_DAY_MS) (\<lambda>start_ms.
              and_then (bucket_start now_ms STORE_DAY_MS) (\<lambda>end_ms.
              Ok (''day'', STORE_DAY_MS, start_ms, end_ms))))"

text \<open>Merge the stored rows, in order, into the sequence of all buckets of the range.\<close>

fun fill_buckets :: "int \<Rightarrow> int \<Rightarrow> nat \<Rightarrow> nat \<Rightarrow> stat_table \<Rightarrow> (trend_bucket list, store_error) result" where
  "fill_buckets start interval index 0 stored = Ok []"
| "fill_buckets start interval index (Suc left) stored =
     (case Option.bind (i64_try_from_u64 index) (\<lambda>v. checked_i64 (v * interval)) of
        None \<Rightarrow> Err Trend_range
      | Some offset \<Rightarrow>
          (case checked_i64 (start + offset) of
             None \<Rightarrow> Err Trend_range
           | Some bucket \<Rightarrow>
               (case stored of
                  r # rs \<Rightarrow>
                    if fst r = bucket
                    then and_then (fill_buckets start interval (Suc index) left rs) (\<lambda>bs. Ok (trend_bucket_of r # bs))
                    else and_then (fill_buckets start interval (Suc index) left (r # rs)) (\<lambda>bs.
                      Ok (\<lparr>tb_bucket_ms = bucket, tb_total_queries = 0, tb_blocked_queries = 0, tb_cache_hits = 0\<rparr> # bs))
                | [] \<Rightarrow> and_then (fill_buckets start interval (Suc index) left []) (\<lambda>bs.
                      Ok (\<lparr>tb_bucket_ms = bucket, tb_total_queries = 0, tb_blocked_queries = 0, tb_cache_hits = 0\<rparr> # bs)))))"

definition trend_with_deadline ::
  "sql_io \<Rightarrow> calendar \<Rightarrow> instant option \<Rightarrow> instant \<Rightarrow> nat \<Rightarrow> int \<Rightarrow> database \<Rightarrow> (trend_response, store_error) result" where
  "trend_with_deadline io midnight deadline now retention_days now_ms db =
     (if midnight now_ms = None then Err Trend_timestamp_range
      else and_then (trend_range retention_days now_ms) (\<lambda>(granularity, interval, start_ms, end_ms).
        let table = (if granularity = ''hour'' then query_hourly_stats db else query_daily_stats db) in
        and_then (ok_or Trend_range (checked_i64 (end_ms - start_ms))) (\<lambda>span.
        if span div interval < 0 then Err Trend_range
        else let bucket_count = nat (span div interval) + 1 in
        if bucket_count > MAX_TREND_BUCKETS then Err Trend_too_many
        else and_then (read_connection io deadline now) (\<lambda>_.
        if \<not> io_statement io 0 then Err Statement_error
        else let stored = filter (\<lambda>(b, r). start_ms \<le> b \<and> b \<le> end_ms) table in
        and_then (fill_buckets start_ms interval 0 bucket_count stored) (\<lambda>buckets.
        Ok \<lparr>tr_start_ms = start_ms, tr_end_ms = end_ms, tr_granularity = granularity, tr_buckets = buckets\<rparr>)))))"

record query_record =
  qr_id :: int
  qr_timestamp_ms :: int
  qr_domain :: string
  qr_query_type :: string
  qr_response_code :: string
  qr_duration_ms :: nat
  qr_blocked :: bool
  qr_cache_hit :: bool
  qr_response_ips :: "string list"
  qr_upstream :: "string option"

record query_page =
  qp_page :: nat
  qp_page_size :: nat
  qp_total :: int
  qp_records :: "query_record list"

definition query_record_of :: "log_row \<Rightarrow> (query_record, store_error) result" where
  "query_record_of r =
     (if lr_duration_ms r < 0 then Err Row_conversion
      else Ok \<lparr>qr_id = lr_id r, qr_timestamp_ms = lr_timestamp_ms r, qr_domain = lr_domain r,
        qr_query_type = lr_query_type r, qr_response_code = lr_response_code r,
        qr_duration_ms = nat (lr_duration_ms r), qr_blocked = lr_blocked r, qr_cache_hit = lr_cache_hit r,
        qr_response_ips = [], qr_upstream = lr_upstream r\<rparr>)"

definition row_matches :: "database \<Rightarrow> string option \<Rightarrow> log_row \<Rightarrow> bool" where
  "row_matches db pattern r = (case pattern of
     None \<Rightarrow> True
   | Some p \<Rightarrow> sql_like p (lr_domain r) \<or>
       list_ex (\<lambda>(i, ip). i = lr_id r \<and> sql_like p ip) (query_response_ips db))"

text \<open>Attach one address to the record with the given identifier (\<open>find\<close>: the first one).\<close>

fun push_ip :: "query_record list \<Rightarrow> int \<times> string \<Rightarrow> query_record list" where
  "push_ip [] x = []"
| "push_ip (r # rs) x = (if qr_id r = fst x then r\<lparr>qr_response_ips := qr_response_ips r @ [snd x]\<rparr> # rs
                         else r # push_ip rs x)"

definition newest_first :: "log_row list \<Rightarrow> log_row list" where
  "newest_first = sort_key (\<lambda>r. (- lr_timestamp_ms r, - lr_id r))"

definition queries_with_deadline ::
  "sql_io \<Rightarrow> instant option \<Rightarrow> instant \<Rightarrow> nat \<Rightarrow> nat \<Rightarrow> string option \<Rightarrow> database \<Rightarrow> (query_page, store_error) result" where
  "queries_with_deadline io deadline now page page_size search db =
     (if \<not> (1 \<le> page_size \<and> page_size \<le> MAX_QUERY_PAGE_SIZE) then Err Bad_page_size
      else let page = max page 1 in
        case Option.bind (checked_u64 ((page - 1) * page_size)) i64_try_from_u64 of
          None \<Rightarrow> Err Offset_range
        | Some offset \<Rightarrow>
            let limit = page_size; pattern = map_option search_pattern search in
            and_then (read_connection io deadline now) (\<lambda>_.
            if \<not> (io_statement io 0 \<and> io_statement io 1) then Err Statement_error
            else let hits = filter (row_matches db pattern) (query_logs db);
                     total = int (length hits) in
              and_then (collect_results query_record_of (take limit (drop (nat offset) (newest_first hits)))) (\<lambda>records.
              if records \<noteq> [] \<and> \<not> io_statement io 2 then Err Statement_error
              else let ids = map qr_id records;
                       ips = sort_key snd (filter (\<lambda>x. fst x \<in> set ids) (query_response_ips db))
                   in Ok \<lparr>qp_page = page, qp_page_size = page_size, qp_total = total,
                          qp_records = (if records = [] then records else foldl push_ip records ips)\<rparr>)))"

record ranking =
  rk_domain :: string
  rk_total_queries :: int
  rk_blocked_queries :: int
  rk_cache_hits :: int

definition count_rows :: "(log_row \<Rightarrow> bool) \<Rightarrow> log_row list \<Rightarrow> int" where
  "count_rows P rs = int (length (filter P rs))"

definition ranking_of :: "log_row list \<Rightarrow> string \<Rightarrow> ranking" where
  "ranking_of rs d = \<lparr>rk_domain = d, rk_total_queries = count_rows (\<lambda>r. lr_domain r = d) rs,
     rk_blocked_queries = count_rows (\<lambda>r. lr_domain r = d \<and> lr_blocked r) rs,
     rk_cache_hits = count_rows (\<lambda>r. lr_domain r = d \<and> lr_cache_hit r) rs\<rparr>"

definition rankings_with_deadline ::
  "sql_io \<Rightarrow> instant option \<Rightarrow> instant \<Rightarrow> database \<Rightarrow> (ranking list, store_error) result" where
  "rankings_with_deadline io deadline now db =
     and_then (read_connection io deadline now) (\<lambda>_.
     if \<not> io_statement io 0 then Err Statement_error
     else Ok (take 20 (sort_key (\<lambda>r. (- rk_total_queries r, rk_domain r))
            (map (ranking_of (query_logs db)) (remdups (map lr_domain (query_logs db)))))))"

record response_time_summary =
  rt_samples :: int
  rt_avg_ms :: "f64 option"

definition response_time_with_deadline ::
  "rounding \<Rightarrow> sql_io \<Rightarrow> instant option \<Rightarrow> instant \<Rightarrow> database \<Rightarrow> (response_time_summary, store_error) result" where
  "response_time_with_deadline rnd io deadline now db =
     and_then (read_connection io deadline now) (\<lambda>_.
     if \<not> io_statement io 0 then Err Statement_error
     else let rs = query_logs db in
       Ok \<lparr>rt_samples = int (length rs),
           rt_avg_ms = (if rs = [] then None
             else Some (rnd (real_of_int (sum_list (map lr_duration_ms rs)) / real (length rs))))\<rparr>)"

text \<open>The public readers, without a deadline and with one.\<close>

definition trend :: "sql_io \<Rightarrow> calendar \<Rightarrow> instant \<Rightarrow> nat \<Rightarrow> int \<Rightarrow> database \<Rightarrow> (trend_response, store_error) result" where
  "trend io midnight now retention_days now_ms db = trend_with_deadline io midnight None now retention_days now_ms db"

definition trend_before ::
  "sql_io \<Rightarrow> calendar \<Rightarrow> instant \<Rightarrow> nat \<Rightarrow> int \<Rightarrow> instant \<Rightarrow> database \<Rightarrow> (trend_response, store_error) result" where
  "trend_before io midnight now retention_days now_ms deadline db =
     trend_with_deadline io midnight (Some deadline) now retention_days now_ms db"

definition queries_of :: "sql_io \<Rightarrow> instant \<Rightarrow> nat \<Rightarrow> nat \<Rightarrow> string option \<Rightarrow> database \<Rightarrow> (query_page, store_error) result" where
  "queries_of io now page page_size search db = queries_with_deadline io None now page page_size search db"

definition queries_before ::
  "sql_io \<Rightarrow> instant \<Rightarrow> nat \<Rightarrow> nat \<Rightarrow> string option \<Rightarrow> instant \<Rightarrow> database \<Rightarrow> (query_page, store_error) result" where
  "queries_before io now page page_size search deadline db =
     queries_with_deadline io (Some deadline) now page page_size search db"

definition rankings :: "sql_io \<Rightarrow> instant \<Rightarrow> database \<Rightarrow> (ranking list, store_error) result" where
  "rankings io now db = rankings_with_deadline io None now db"

definition rankings_before :: "sql_io \<Rightarrow> instant \<Rightarrow> instant \<Rightarrow> database \<Rightarrow> (ranking list, store_error) result" where
  "rankings_before io now deadline db = rankings_with_deadline io (Some deadline) now db"

definition response_time :: "rounding \<Rightarrow> sql_io \<Rightarrow> instant \<Rightarrow> database \<Rightarrow> (response_time_summary, store_error) result" where
  "response_time rnd io now db = response_time_with_deadline rnd io None now db"

definition response_time_before ::
  "rounding \<Rightarrow> sql_io \<Rightarrow> instant \<Rightarrow> instant \<Rightarrow> database \<Rightarrow> (response_time_summary, store_error) result" where
  "response_time_before rnd io now deadline db = response_time_with_deadline rnd io (Some deadline) now db"

section \<open>Well-formed databases\<close>

definition logs_inv :: "int \<Rightarrow> log_row list \<Rightarrow> bool" where
  "logs_inv last_id rows \<longleftrightarrow> 0 \<le> last_id \<and> sorted_wrt (<) (map lr_id rows) \<and>
     list_all (\<lambda>r. 1 \<le> lr_id r \<and> lr_id r \<le> last_id \<and> 0 \<le> lr_duration_ms r) rows"

definition ips_inv :: "log_row list \<Rightarrow> (int \<times> string) list \<Rightarrow> bool" where
  "ips_inv rows ips \<longleftrightarrow> distinct ips \<and> fst ` set ips \<subseteq> lr_id ` set rows"

definition table_inv :: "int \<Rightarrow> stat_table \<Rightarrow> bool" where
  "table_inv interval tbl \<longleftrightarrow> sorted_wrt (<) (map fst tbl) \<and> (\<forall>b \<in> fst ` set tbl. interval dvd b)"

definition database_inv :: "database \<Rightarrow> bool" where
  "database_inv db \<longleftrightarrow> logs_inv (sequence db) (query_logs db) \<and> ips_inv (query_logs db) (query_response_ips db) \<and>
     table_inv STORE_HOUR_MS (query_hourly_stats db) \<and> table_inv STORE_DAY_MS (query_daily_stats db)"

text \<open>What the calendar library documents: midnight UTC is a multiple of the day's length.\<close>

definition calendar_laws :: "calendar \<Rightarrow> bool" where
  "calendar_laws midnight \<longleftrightarrow> (\<forall>t d. midnight t = Some d \<longrightarrow> d = t div STORE_DAY_MS * STORE_DAY_MS)"

lemma database_inv_empty [wf_intros]: "database_inv empty_database"
  by (simp add: database_inv_def empty_database_def logs_inv_def ips_inv_def table_inv_def)

lemma upsert_map_of:
  "sorted_wrt (<) (map fst tbl) \<Longrightarrow> map_of (upsert b blk hit tbl) b' =
     (if b' = b then Some (case map_of tbl b of
          None \<Rightarrow> \<lparr>total_queries = 1, blocked_queries = of_bool blk, cache_hits = of_bool hit\<rparr>
        | Some r \<Rightarrow> \<lparr>total_queries = total_queries r + 1, blocked_queries = blocked_queries r + of_bool blk,
            cache_hits = cache_hits r + of_bool hit\<rparr>)
      else map_of tbl b')"
  by (auto simp: upsert_def map_of_btree_insert split: option.splits)

lemma upsert_keys: "fst ` set (upsert b blk hit tbl) = insert b (fst ` set tbl)"
  by (auto simp: upsert_def keys_btree_insert split: option.splits)

lemma upsert_sorted: "sorted_wrt (<) (map fst tbl) \<Longrightarrow> sorted_wrt (<) (map fst (upsert b blk hit tbl))"
  by (auto simp: upsert_def sorted_btree_insert split: option.splits)

lemma foldl_insert_ip:
  "\<exists>new. foldl (insert_ip i) db ips = db\<lparr>query_response_ips := query_response_ips db @ new\<rparr> \<and>
     distinct new \<and> set new \<subseteq> {i} \<times> set ips \<and> set new \<inter> set (query_response_ips db) = {} \<and>
     {i} \<times> set ips \<subseteq> set (query_response_ips db) \<union> set new"
proof (induction ips rule: rev_induct)
  case Nil
  then show ?case by (intro exI [of _ "[]"]) simp
next
  case (snoc ip ips)
  then obtain new where new: "foldl (insert_ip i) db ips = db\<lparr>query_response_ips := query_response_ips db @ new\<rparr>"
    "distinct new" "set new \<subseteq> {i} \<times> set ips" "set new \<inter> set (query_response_ips db) = {}"
    "{i} \<times> set ips \<subseteq> set (query_response_ips db) \<union> set new" by blast
  have step: "foldl (insert_ip i) db (ips @ [ip]) = insert_ip i (db\<lparr>query_response_ips := query_response_ips db @ new\<rparr>) ip"
    using new(1) by simp
  show ?case
  proof (cases "(i, ip) \<in> set (query_response_ips db) \<union> set new")
    case True
    then have "foldl (insert_ip i) db (ips @ [ip]) = db\<lparr>query_response_ips := query_response_ips db @ new\<rparr>"
      unfolding step by (simp add: insert_ip_def)
    with True new(2-) show ?thesis by (intro exI [of _ new]) auto
  next
    case False
    then have "foldl (insert_ip i) db (ips @ [ip]) = db\<lparr>query_response_ips := query_response_ips db @ new @ [(i, ip)]\<rparr>"
      unfolding step by (simp add: insert_ip_def)
    with False new(2-) show ?thesis by (intro exI [of _ "new @ [(i, ip)]"]) auto
  qed
qed

text \<open>The effect of storing one event, in one place.\<close>

lemma insert_event_Ok:
  assumes "insert_event midnight db e = Ok db'"
  obtains daily new where "midnight (timestamp_ms e) = Some daily" "in_i64 (int (duration_ms e))"
    "query_logs db' = query_logs db @ [\<lparr>lr_id = sequence db + 1, lr_timestamp_ms = timestamp_ms e,
       lr_domain = domain e, lr_query_type = query_type e, lr_response_code = response_code_text e,
       lr_duration_ms = int (duration_ms e), lr_blocked = ev_blocked e, lr_cache_hit = ev_cache_hit e,
       lr_upstream = ev_upstream e\<rparr>]"
    "sequence db' = sequence db + 1"
    "query_response_ips db' = query_response_ips db @ new" "distinct new" "set new \<subseteq> {sequence db + 1} \<times> set (response_ips e)"
    "set new \<inter> set (query_response_ips db) = {}"
    "{sequence db + 1} \<times> set (response_ips e) \<subseteq> set (query_response_ips db')"
    "query_hourly_stats db' = upsert (timestamp_ms e div 3600000 * 3600000) (ev_blocked e) (ev_cache_hit e) (query_hourly_stats db)"
    "query_daily_stats db' = upsert daily (ev_blocked e) (ev_cache_hit e) (query_daily_stats db)"
proof -
  from assms obtain d i db1 where d: "i64_try_from_u64 (duration_ms e) = Some d" "insert_log e d db = Some (i, db1)"
    and m: "midnight (timestamp_ms e) \<noteq> None"
    by (auto simp: insert_event_def Let_def split: option.splits)
  then obtain daily where daily: "midnight (timestamp_ms e) = Some daily" by blast
  from foldl_insert_ip [of i db1 "response_ips e"] obtain new
    where new: "foldl (insert_ip i) db1 (response_ips e) = db1\<lparr>query_response_ips := query_response_ips db1 @ new\<rparr>"
      "distinct new" "set new \<subseteq> {i} \<times> set (response_ips e)" "set new \<inter> set (query_response_ips db1) = {}"
      "{i} \<times> set (response_ips e) \<subseteq> set (query_response_ips db1) \<union> set new" by blast
  have db1: "i = sequence db + 1" "query_response_ips db1 = query_response_ips db" "sequence db1 = sequence db + 1"
      "query_hourly_stats db1 = query_hourly_stats db" "query_daily_stats db1 = query_daily_stats db"
    using d(2) by (auto simp: insert_log_def Let_def split: if_splits)
  show thesis
    by (rule that [OF daily])
      (use assms d daily new db1 in \<open>auto simp: insert_event_def insert_log_def Let_def split: if_splits\<close>)
qed

lemma logs_inv_snoc:
  "logs_inv n rows \<Longrightarrow> lr_id r = n + 1 \<Longrightarrow> 0 \<le> lr_duration_ms r \<Longrightarrow> logs_inv (n + 1) (rows @ [r])"
  by (auto simp: logs_inv_def sorted_wrt_append list_all_iff)

lemma table_inv_upsert: "table_inv iv tbl \<Longrightarrow> iv dvd b \<Longrightarrow> table_inv iv (upsert b blk hit tbl)"
  by (auto simp: table_inv_def upsert_sorted upsert_keys)

lemma ips_inv_append:
  "ips_inv rows ips \<Longrightarrow> distinct new \<Longrightarrow> set new \<inter> set ips = {} \<Longrightarrow> fst ` set new \<subseteq> {i} \<Longrightarrow> lr_id r = i \<Longrightarrow>
     ips_inv (rows @ [r]) (ips @ new)"
  unfolding ips_inv_def by (auto simp: image_Un)

lemma insert_event_inv:
  assumes "calendar_laws midnight" and "database_inv db" and "insert_event midnight db e = Ok db'"
  shows "database_inv db'"
  using assms(3)
proof (rule insert_event_Ok)
  fix daily new
  assume *: "midnight (timestamp_ms e) = Some daily" "in_i64 (int (duration_ms e))"
    "query_logs db' = query_logs db @ [\<lparr>lr_id = sequence db + 1, lr_timestamp_ms = timestamp_ms e,
       lr_domain = domain e, lr_query_type = query_type e, lr_response_code = response_code_text e,
       lr_duration_ms = int (duration_ms e), lr_blocked = ev_blocked e, lr_cache_hit = ev_cache_hit e,
       lr_upstream = ev_upstream e\<rparr>]"
    "sequence db' = sequence db + 1"
    "query_response_ips db' = query_response_ips db @ new" "distinct new"
    "set new \<subseteq> {sequence db + 1} \<times> set (response_ips e)" "set new \<inter> set (query_response_ips db) = {}"
    "query_hourly_stats db' = upsert (timestamp_ms e div 3600000 * 3600000) (ev_blocked e) (ev_cache_hit e) (query_hourly_stats db)"
    "query_daily_stats db' = upsert daily (ev_blocked e) (ev_cache_hit e) (query_daily_stats db)"
  have "daily = timestamp_ms e div STORE_DAY_MS * STORE_DAY_MS" using assms(1) *(1) by (simp add: calendar_laws_def)
  then have "STORE_DAY_MS dvd daily" by simp
  moreover have "STORE_HOUR_MS dvd timestamp_ms e div 3600000 * 3600000" by (simp add: STORE_HOUR_MS_def)
  moreover have "fst ` set new \<subseteq> {sequence db + 1}" using *(7) by auto
  moreover from this have "ips_inv (query_logs db') (query_response_ips db')"
    using assms(2) *(6,8) unfolding *(3,5)
    by (intro ips_inv_append [where i = "sequence db + 1"]) (auto simp: database_inv_def)
  ultimately show ?thesis
    using assms(2)
    by (auto simp: database_inv_def *(3,4,9,10) intro: logs_inv_snoc table_inv_upsert)
qed

lemma insert_loop_inv:
  "calendar_laws midnight \<Longrightarrow> database_inv db \<Longrightarrow> insert_loop io midnight n db es = Ok db' \<Longrightarrow> database_inv db'"
proof (induction es arbitrary: n db)
  case (Cons e es)
  then show ?case by (auto simp: and_then_Ok_iff split: if_splits dest: insert_event_inv)
qed simp

lemma insert_events_cases:
  "insert_events io midnight db es = (r, db') \<Longrightarrow>
     (\<exists>e. r = Err e) \<and> db' = db \<or> r = Ok () \<and> insert_loop io midnight 0 db es = Ok db'"
  by (auto simp: insert_events_def split: if_splits sum.splits)

definition cleaned :: "int \<Rightarrow> database \<Rightarrow> database" where
  "cleaned cutoff db = (delete_logs (\<lambda>r. lr_timestamp_ms r < cutoff) db)
     \<lparr>query_hourly_stats := filter (\<lambda>(b, r). \<not> b + 3600000 \<le> cutoff) (query_hourly_stats db),
      query_daily_stats := filter (\<lambda>(b, r). \<not> b + 86400000 \<le> cutoff) (query_daily_stats db)\<rparr>"

lemma cleanup_cases:
  assumes "cleanup io days now db = (r, db')"
  shows "(\<exists>e. r = Err e) \<and> db' = db \<or> r = Ok () \<and> days = 0 \<and> db' = db \<or>
    r = Ok () \<and> 0 < days \<and> db' = cleaned (now - int days * STORE_DAY_MS) db"
  using assms
  by (auto simp: cleanup_def Let_def cleaned_def delete_logs_def split: if_splits option.splits bind_splits)

lemma sorted_wrt_map_filter: "sorted_wrt P (map f xs) \<Longrightarrow> sorted_wrt P (map f (filter Q xs))"
  by (induction xs) auto

lemma table_inv_filter: "table_inv iv tbl \<Longrightarrow> table_inv iv (filter P tbl)"
  by (auto simp: table_inv_def sorted_wrt_map_filter)

lemma ips_inv_delete:
  "ips_inv rows ips \<Longrightarrow>
     ips_inv (filter (\<lambda>r. \<not> P r) rows) (filter (\<lambda>(i, ip). i \<notin> lr_id ` {r \<in> set rows. P r}) ips)"
  unfolding ips_inv_def by fastforce

lemma logs_inv_filter: "logs_inv n rows \<Longrightarrow> logs_inv n (filter P rows)"
  by (auto simp: logs_inv_def list_all_iff sorted_wrt_map_filter)

lemma cleaned_inv: "database_inv db \<Longrightarrow> database_inv (cleaned cutoff db)"
  by (simp add: database_inv_def cleaned_def delete_logs_def Let_def logs_inv_filter ips_inv_delete table_inv_filter)

section \<open>Histories\<close>

datatype store_op = St_insert sql_io "query_event list" | St_cleanup sql_io nat int

fun store_step :: "calendar \<Rightarrow> database \<Rightarrow> store_op \<Rightarrow> database" where
  "store_step midnight db (St_insert io es) = snd (insert_events io midnight db es)"
| "store_step midnight db (St_cleanup io days now) = snd (cleanup io days now db)"

definition store_run :: "calendar \<Rightarrow> store_op list \<Rightarrow> database" where
  "store_run midnight ops = foldl (store_step midnight) empty_database ops"

definition cutoffs :: "store_op list \<Rightarrow> int set" where
  "cutoffs ops = {now - int days * STORE_DAY_MS | io days now. St_cleanup io days now \<in> set ops \<and> 0 < days}"

lemma store_step_inv:
  assumes "calendar_laws midnight" and "database_inv db"
  shows "database_inv (store_step midnight db op)"
proof (cases op)
  case (St_insert io es)
  obtain r db' where "insert_events io midnight db es = (r, db')" by (cases "insert_events io midnight db es")
  with insert_events_cases [OF this] assms show ?thesis by (auto simp: St_insert dest: insert_loop_inv)
next
  case (St_cleanup io days now)
  obtain r db' where "cleanup io days now db = (r, db')" by (cases "cleanup io days now db")
  with cleanup_cases [OF this] assms show ?thesis by (auto simp: St_cleanup cleaned_inv)
qed

lemma store_run_inv: "calendar_laws midnight \<Longrightarrow> database_inv (store_run midnight ops)"
  unfolding store_run_def
  by (induction ops rule: rev_induct) (simp_all add: database_inv_empty store_step_inv)

section \<open>The aggregate tables\<close>

definition in_bucket :: "int \<Rightarrow> int \<Rightarrow> log_row \<Rightarrow> bool" where
  "in_bucket interval b r \<longleftrightarrow> lr_timestamp_ms r div interval * interval = b"

definition stat_at :: "stat_table \<Rightarrow> int \<Rightarrow> stat_row" where
  "stat_at tbl b = (case map_of tbl b of None \<Rightarrow> \<lparr>total_queries = 0, blocked_queries = 0, cache_hits = 0\<rparr> | Some r \<Rightarrow> r)"

text \<open>The reference: a bucket's numbers counted from the detail rows.\<close>

definition counted :: "int \<Rightarrow> log_row list \<Rightarrow> int \<Rightarrow> stat_row" where
  "counted interval rows b = \<lparr>total_queries = count_rows (in_bucket interval b) rows,
     blocked_queries = count_rows (\<lambda>r. in_bucket interval b r \<and> lr_blocked r) rows,
     cache_hits = count_rows (\<lambda>r. in_bucket interval b r \<and> lr_cache_hit r) rows\<rparr>"

lemma stat_at_upsert:
  assumes "table_inv iv tbl" and "in_bucket iv b0 r" and "stat_at tbl b = counted iv rows b"
  shows "stat_at (upsert b0 (lr_blocked r) (lr_cache_hit r) tbl) b = counted iv (rows @ [r]) b"
proof (cases "b = b0")
  case True
  with assms(2,3) show ?thesis
    using upsert_map_of [of tbl b0 "lr_blocked r" "lr_cache_hit r" b] assms(1)
    by (auto simp: stat_at_def counted_def count_rows_def table_inv_def split: option.splits)
next
  case False
  then have "\<not> in_bucket iv b r" using assms(2) by (simp add: in_bucket_def)
  with False assms(1,3) upsert_map_of [of tbl b0 "lr_blocked r" "lr_cache_hit r" b] show ?thesis
    by (simp add: stat_at_def counted_def count_rows_def table_inv_def)
qed

lemma map_of_filter_keys: "map_of (filter (\<lambda>(b, r). P b) tbl) b = (if P b then map_of tbl b else None)"
  by (induction tbl) auto

lemma counted_delete:
  assumes "0 < iv" and "cutoff \<le> b"
  shows "counted iv (filter (\<lambda>r. \<not> lr_timestamp_ms r < cutoff) rows) b = counted iv rows b"
proof -
  have "\<not> lr_timestamp_ms r < cutoff" if "in_bucket iv b r" for r
  proof -
    have "lr_timestamp_ms r div iv * iv \<le> lr_timestamp_ms r"
      using assms(1) by (metis add.commute div_mult_mod_eq le_add_same_cancel2 pos_mod_sign)
    with that assms(2) show ?thesis by (simp add: in_bucket_def)
  qed
  then have "filter P (filter (\<lambda>r. \<not> lr_timestamp_ms r < cutoff) rows) = filter P rows"
    if "\<And>r. P r \<Longrightarrow> in_bucket iv b r" for P
    using that by (induction rows) auto
  note keep = this
  show ?thesis
    unfolding counted_def count_rows_def
    using keep [of "in_bucket iv b"] keep [of "\<lambda>r. in_bucket iv b r \<and> lr_blocked r"]
      keep [of "\<lambda>r. in_bucket iv b r \<and> lr_cache_hit r"] by simp
qed

definition aggregates_ok :: "int \<Rightarrow> database \<Rightarrow> bool" where
  "aggregates_ok b db \<longleftrightarrow> stat_at (query_hourly_stats db) b = counted STORE_HOUR_MS (query_logs db) b \<and>
     stat_at (query_daily_stats db) b = counted STORE_DAY_MS (query_logs db) b"

lemma insert_event_aggregates:
  assumes "calendar_laws midnight" and "database_inv db" and "aggregates_ok b db"
    and "insert_event midnight db e = Ok db'"
  shows "aggregates_ok b db'"
  using assms(4)
proof (rule insert_event_Ok)
  fix daily
  let ?row = "\<lparr>lr_id = sequence db + 1, lr_timestamp_ms = timestamp_ms e,
       lr_domain = domain e, lr_query_type = query_type e, lr_response_code = response_code_text e,
       lr_duration_ms = int (duration_ms e), lr_blocked = ev_blocked e, lr_cache_hit = ev_cache_hit e,
       lr_upstream = ev_upstream e\<rparr>"
  assume *: "midnight (timestamp_ms e) = Some daily" "query_logs db' = query_logs db @ [?row]"
    "query_hourly_stats db' = upsert (timestamp_ms e div 3600000 * 3600000) (ev_blocked e) (ev_cache_hit e) (query_hourly_stats db)"
    "query_daily_stats db' = upsert daily (ev_blocked e) (ev_cache_hit e) (query_daily_stats db)"
  have "in_bucket STORE_DAY_MS daily ?row" using assms(1) *(1) by (simp add: calendar_laws_def in_bucket_def)
  moreover have "in_bucket STORE_HOUR_MS (timestamp_ms e div 3600000 * 3600000) ?row"
    by (simp add: in_bucket_def STORE_HOUR_MS_def)
  ultimately show ?thesis
    using stat_at_upsert [of STORE_HOUR_MS "query_hourly_stats db" _ ?row b "query_logs db"]
      stat_at_upsert [of STORE_DAY_MS "query_daily_stats db" _ ?row b "query_logs db"] assms(2,3) *(2-)
    by (simp add: aggregates_ok_def database_inv_def)
qed

lemma insert_loop_aggregates:
  "calendar_laws midnight \<Longrightarrow> database_inv db \<Longrightarrow> aggregates_ok b db \<Longrightarrow>
   insert_loop io midnight n db es = Ok db' \<Longrightarrow> aggregates_ok b db'"
proof (induction es arbitrary: n db)
  case (Cons e es)
  then show ?case
    by (auto simp: and_then_Ok_iff split: if_splits dest: insert_event_inv insert_event_aggregates)
qed simp

lemma cleaned_aggregates:
  assumes "aggregates_ok b db" and "cutoff \<le> b"
  shows "aggregates_ok b (cleaned cutoff db)"
proof -
  have "stat_at (filter (\<lambda>(x, r). \<not> x + iv \<le> cutoff) tbl) b = stat_at tbl b" if "0 < iv" for iv tbl
    using that assms(2) map_of_filter_keys [of "\<lambda>x. \<not> x + iv \<le> cutoff" tbl b] by (simp add: stat_at_def)
  moreover have "counted iv (filter (\<lambda>r. \<not> lr_timestamp_ms r < cutoff) rows) b = counted iv rows b" if "0 < iv" for iv rows
    using that assms(2) by (rule counted_delete)
  ultimately show ?thesis
    using assms(1)
    by (simp add: aggregates_ok_def cleaned_def delete_logs_def Let_def STORE_HOUR_MS_def STORE_DAY_MS_def)
qed

text \<open>C11. The history is consistent: after any sequence of batches and clean-ups, whatever
  fails in between, the detail rows have strictly increasing identifiers, every stored address
  belongs to a stored row, and each hourly and daily bucket that starts at or after every
  clean-up limit used so far shows exactly the numbers of queries, blocked queries and cache
  hits that the detail rows of that hour or day add up to.\<close>

theorem store_aggregates:
  assumes "calendar_laws midnight" and "\<forall>c \<in> cutoffs ops. c \<le> b"
  shows "let db = store_run midnight ops in
    sorted_wrt (<) (map lr_id (query_logs db)) \<and>
    fst ` set (query_response_ips db) \<subseteq> lr_id ` set (query_logs db) \<and>
    stat_at (query_hourly_stats db) b = counted 3600000 (query_logs db) b \<and>
    stat_at (query_daily_stats db) b = counted 86400000 (query_logs db) b"
proof -
  have "aggregates_ok b (store_run midnight ops)"
    using assms(2)
  proof (induction ops rule: rev_induct)
    case Nil
    show ?case
      by (simp add: store_run_def aggregates_ok_def empty_database_def stat_at_def counted_def count_rows_def)
  next
    case (snoc op ops)
    let ?db = "store_run midnight ops"
    have sub: "cutoffs ops \<subseteq> cutoffs (ops @ [op])" by (auto simp: cutoffs_def)
    have run: "store_run midnight (ops @ [op]) = store_step midnight ?db op" by (simp add: store_run_def)
    have IH: "aggregates_ok b ?db" using snoc sub by blast
    have inv: "database_inv ?db" by (rule store_run_inv [OF assms(1)])
    show ?case
    proof (cases op)
      case (St_insert io es)
      obtain r db' where ins: "insert_events io midnight ?db es = (r, db')" by (cases "insert_events io midnight ?db es")
      with insert_events_cases [OF ins] IH insert_loop_aggregates [OF assms(1) inv IH] show ?thesis
        unfolding run by (auto simp: St_insert)
    next
      case (St_cleanup io days now)
      obtain r db' where cl: "cleanup io days now ?db = (r, db')" by (cases "cleanup io days now ?db")
      have "now - int days * STORE_DAY_MS \<le> b" if "0 < days"
        using snoc.prems that St_cleanup by (auto simp: cutoffs_def)
      with cleanup_cases [OF cl] IH cleaned_aggregates [OF IH] show ?thesis
        unfolding run by (auto simp: St_cleanup cl)
    qed
  qed
  with store_run_inv [OF assms(1), of ops] show ?thesis
    by (simp add: Let_def aggregates_ok_def database_inv_def logs_inv_def ips_inv_def STORE_HOUR_MS_def STORE_DAY_MS_def)
qed

section \<open>Atomic batches\<close>

fun stored_rows :: "int \<Rightarrow> query_event list \<Rightarrow> log_row list" where
  "stored_rows i [] = []"
| "stored_rows i (e # es) = \<lparr>lr_id = i + 1, lr_timestamp_ms = timestamp_ms e, lr_domain = domain e,
     lr_query_type = query_type e, lr_response_code = response_code_text e,
     lr_duration_ms = int (duration_ms e), lr_blocked = ev_blocked e, lr_cache_hit = ev_cache_hit e,
     lr_upstream = ev_upstream e\<rparr> # stored_rows (i + 1) es"

lemma insert_loop_rows:
  "insert_loop io midnight n db es = Ok db' \<Longrightarrow> query_logs db' = query_logs db @ stored_rows (sequence db) es"
proof (induction es arbitrary: n db)
  case (Cons e es)
  then obtain db1 where "insert_event midnight db e = Ok db1" "insert_loop io midnight (Suc n) db1 es = Ok db'"
    by (auto simp: and_then_Ok_iff split: if_splits)
  with Cons.IH show ?case by (auto elim!: insert_event_Ok)
qed simp

lemma insert_event_total:
  assumes "midnight (timestamp_ms e) \<noteq> None" and "in_i64 (int (duration_ms e))" and "in_i64 (sequence db + 1)"
  shows "\<exists>db'. insert_event midnight db e = Ok db' \<and> sequence db' = sequence db + 1"
proof -
  from assms obtain db' where ok: "insert_event midnight db e = Ok db'"
    by (auto simp: insert_event_def insert_log_def Let_def split: option.splits)
  then have "sequence db' = sequence db + 1" by (auto elim!: insert_event_Ok)
  with ok show ?thesis by blast
qed

lemma insert_loop_total:
  assumes "\<forall>n. io_statement io n" and "\<forall>e \<in> set es. midnight (timestamp_ms e) \<noteq> None \<and> in_i64 (int (duration_ms e))"
    and "0 \<le> sequence db" and "in_i64 (sequence db + int (length es))"
  shows "\<exists>db'. insert_loop io midnight n db es = Ok db'"
  using assms(2-)
proof (induction es arbitrary: n db)
  case (Cons e es)
  have "in_i64 (sequence db + 1)" using Cons.prems(2,3) by (auto simp: in_i64_def i64_min_def)
  with insert_event_total [of midnight e db] Cons.prems(1) obtain db1
    where "insert_event midnight db e = Ok db1" "sequence db1 = sequence db + 1" by auto
  with Cons.IH [of db1 "Suc n"] Cons.prems assms(1) show ?case by (simp add: add.commute add.left_commute)
qed simp

text \<open>C19. A batch is stored whole or not at all: on any error the database is exactly what it was;
  on success the batch's events are appended in order, one row each, with consecutive new
  identifiers; and it does succeed when the file and the statements do, the timestamps are in
  the calendar's range and the durations and identifiers fit 64 bits.\<close>

theorem insert_events_atomic:
  "(\<forall>r db'. insert_events io midnight db es = (r, db') \<longrightarrow>
      (if is_ok r then query_logs db' = query_logs db @ stored_rows (sequence db) es else db' = db)) \<and>
   (io_connect io \<and> io_commit io \<and> (\<forall>n. io_statement io n) \<and> 0 \<le> sequence db \<and>
      in_i64 (sequence db + int (length es)) \<and>
      list_all (\<lambda>e. midnight (timestamp_ms e) \<noteq> None \<and> in_i64 (int (duration_ms e))) es \<longrightarrow>
      is_ok (fst (insert_events io midnight db es)))"
proof -
  have "if is_ok r then query_logs db' = query_logs db @ stored_rows (sequence db) es else db' = db"
    if "insert_events io midnight db es = (r, db')" for r db'
    using insert_events_cases [OF that] insert_loop_rows by auto
  moreover have "is_ok (fst (insert_events io midnight db es))"
    if *: "io_connect io" "io_commit io" "\<forall>n. io_statement io n" "0 \<le> sequence db"
      "in_i64 (sequence db + int (length es))"
      "list_all (\<lambda>e. midnight (timestamp_ms e) \<noteq> None \<and> in_i64 (int (duration_ms e))) es"
  proof -
    obtain db' where "insert_loop io midnight 0 db es = Ok db'"
      using insert_loop_total [OF *(3) _ *(4,5), of midnight 0] *(6) by (auto simp: list_all_iff)
    with *(1,2) show ?thesis by (simp add: insert_events_def)
  qed
  ultimately show ?thesis by blast
qed

section \<open>Trends\<close>

definition trend_bucket_at :: "stat_table \<Rightarrow> int \<Rightarrow> trend_bucket" where
  "trend_bucket_at tbl b = \<lparr>tb_bucket_ms = b, tb_total_queries = total_queries (stat_at tbl b),
     tb_blocked_queries = blocked_queries (stat_at tbl b), tb_cache_hits = cache_hits (stat_at tbl b)\<rparr>"

lemma next_multiple: "(0::int) < iv \<Longrightarrow> iv dvd a \<Longrightarrow> iv dvd b \<Longrightarrow> a < b \<Longrightarrow> a + iv \<le> b"
  using zdvd_imp_le [of iv "b - a"] by (simp add: dvd_diff)

lemma trend_bucket_first: "trend_bucket_at (r # rs) (fst r) = trend_bucket_of r"
  by (cases r) (simp add: trend_bucket_at_def trend_bucket_of_def stat_at_def)

lemma trend_bucket_later: "b \<noteq> fst r \<Longrightarrow> trend_bucket_at (r # rs) b = trend_bucket_at rs b"
  by (cases r) (simp add: trend_bucket_at_def stat_at_def)

lemma trend_bucket_absent:
  "b \<notin> fst ` set rs \<Longrightarrow> trend_bucket_at rs b = \<lparr>tb_bucket_ms = b, tb_total_queries = 0, tb_blocked_queries = 0, tb_cache_hits = 0\<rparr>"
  by (simp add: trend_bucket_at_def stat_at_def map_of_eq_None_iff [symmetric])

lemma fill_buckets_Suc:
  assumes "in_i64 (int index)" and "in_i64 (int index * iv)" and "in_i64 (start + int index * iv)"
  shows "fill_buckets start iv index (Suc left) stored = (case stored of
      r # rs \<Rightarrow> if fst r = start + int index * iv
        then and_then (fill_buckets start iv (Suc index) left rs) (\<lambda>bs. Ok (trend_bucket_of r # bs))
        else and_then (fill_buckets start iv (Suc index) left (r # rs)) (\<lambda>bs.
          Ok (\<lparr>tb_bucket_ms = start + int index * iv, tb_total_queries = 0, tb_blocked_queries = 0, tb_cache_hits = 0\<rparr> # bs))
    | [] \<Rightarrow> and_then (fill_buckets start iv (Suc index) left []) (\<lambda>bs.
          Ok (\<lparr>tb_bucket_ms = start + int index * iv, tb_total_queries = 0, tb_blocked_queries = 0, tb_cache_hits = 0\<rparr> # bs)))"
proof -
  from assms have "i64_try_from_u64 index = Some (int index)" "checked_i64 (int index * iv) = Some (int index * iv)"
      "checked_i64 (start + int index * iv) = Some (start + int index * iv)" by simp_all
  then show ?thesis by simp
qed

text \<open>The merge with the ordered rows gives what looking every bucket up gives.\<close>

lemma fill_buckets_lookup:
  assumes iv: "0 < iv" "iv dvd start" and "table_inv iv stored"
    and "\<forall>b \<in> fst ` set stored. start + int index * iv \<le> b"
    and "\<forall>j < index + left. in_i64 (int j) \<and> in_i64 (int j * iv) \<and> in_i64 (start + int j * iv)"
  shows "fill_buckets start iv index left stored =
    Ok (map (\<lambda>j. trend_bucket_at stored (start + int j * iv)) [index..<index + left])"
  using assms(3-)
proof (induction left arbitrary: index stored)
  case (Suc left)
  let ?b = "start + int index * iv"
  have range: "in_i64 (int index)" "in_i64 (int index * iv)" "in_i64 ?b" using Suc.prems(3) by auto
  note step = fill_buckets_Suc [OF range, of left stored]
  have upt: "[index..<index + Suc left] = index # [Suc index..<Suc index + left]" by (simp add: upt_rec)
  have dvd: "iv dvd ?b" using iv(2) by simp
  have IH: "fill_buckets start iv (Suc index) left st =
      Ok (map (\<lambda>j. trend_bucket_at st (start + int j * iv)) [Suc index..<Suc index + left])"
    if "table_inv iv st" "\<forall>b \<in> fst ` set st. ?b + iv \<le> b" for st
    using that Suc.prems(3) by (intro Suc.IH) (auto simp: algebra_simps)
  show ?case
  proof (cases "\<exists>r rs. stored = r # rs \<and> fst r = ?b")
    case True
    then obtain r rs where r: "stored = r # rs" "fst r = ?b" by blast
    have rs: "table_inv iv rs" "\<forall>b \<in> fst ` set rs. ?b < b \<and> iv dvd b" using Suc.prems(1) r by (auto simp: table_inv_def)
    then have "\<forall>b \<in> fst ` set rs. ?b + iv \<le> b" using next_multiple [OF iv(1) dvd] by blast
    moreover have "map (\<lambda>j. trend_bucket_at rs (start + int j * iv)) [Suc index..<Suc index + left] =
        map (\<lambda>j. trend_bucket_at stored (start + int j * iv)) [Suc index..<Suc index + left]"
    proof (intro map_cong refl)
      fix j assume "j \<in> set [Suc index..<Suc index + left]"
      then have "start + int j * iv \<noteq> fst r" using iv(1) r(2) by auto
      then show "trend_bucket_at rs (start + int j * iv) = trend_bucket_at stored (start + int j * iv)"
        by (simp add: r(1) trend_bucket_later)
    qed
    ultimately show ?thesis
      unfolding step upt using IH [OF rs(1)] r trend_bucket_first [of r rs] by (simp del: upt_Suc)
  next
    case False
    have "?b < b" if "b \<in> fst ` set stored" for b
      using that False Suc.prems(1,2) by (cases stored) (force simp: table_inv_def)+
    then have all: "\<forall>b \<in> fst ` set stored. ?b + iv \<le> b"
      using Suc.prems(1) next_multiple [OF iv(1) dvd] by (auto simp: table_inv_def)
    then have "?b \<notin> fst ` set stored" using iv(1) by force
    with trend_bucket_absent [OF this] IH [OF Suc.prems(1) all] False show ?thesis
      unfolding step upt by (cases stored) (simp_all del: upt_Suc)
  qed
qed simp

lemma bucket_start_eq: "in_i64 (t div iv * iv) \<Longrightarrow> bucket_start t iv = Ok (t div iv * iv)"
  by (simp add: bucket_start_def)

lemma div_mult_bounds: "0 < (iv::int) \<Longrightarrow> t div iv * iv \<le> t \<and> t - iv < t div iv * iv"
  using div_mult_mod_eq [of t iv] pos_mod_bound [of iv t] pos_mod_sign [of iv t] by linarith

lemma shift_bucket:
  assumes "(0::int) < iv" and "iv dvd d"
  shows "(t - d) div iv * iv = t div iv * iv - d"
proof -
  obtain k where d: "d = iv * k" using assms(2) by (rule dvdE)
  have "(t - d) div iv = (t + (- k) * iv) div iv" by (simp add: d mult.commute)
  also have "\<dots> = - k + t div iv" using assms(1) by (subst div_mult_self1) simp_all
  finally show ?thesis by (simp only: d) (simp add: algebra_simps)
qed

definition trend_interval :: "nat \<Rightarrow> int" where
  "trend_interval days = (if days = 0 \<or> 15 < days then STORE_DAY_MS else STORE_HOUR_MS)"

definition trend_count :: "nat \<Rightarrow> nat" where
  "trend_count days = (if days = 0 then 30 else if days \<le> 15 then 24 * days + 1 else days + 1)"

definition trend_end :: "nat \<Rightarrow> int \<Rightarrow> int" where
  "trend_end days now_ms = now_ms div trend_interval days * trend_interval days"

definition trend_first :: "nat \<Rightarrow> int \<Rightarrow> int" where
  "trend_first days now_ms = trend_end days now_ms - (int (trend_count days) - 1) * trend_interval days"

text \<open>A configured retention and a clock within some hundred million years stay in range.\<close>

lemma trend_range_eq:
  assumes "days \<le> 9999" and "\<bar>now_ms\<bar> \<le> 2 ^ 62"
  shows "trend_range days now_ms =
      Ok (if days = 0 \<or> 15 < days then ''day'' else ''hour'', trend_interval days, trend_first days now_ms, trend_end days now_ms)"
    and "in_i64 (trend_first days now_ms)" and "in_i64 (trend_end days now_ms)"
proof -
  let ?iv = "trend_interval days"
  have iv: "0 < ?iv" "?iv \<le> 86400000" "?iv dvd int days * STORE_DAY_MS"
    by (auto simp: trend_interval_def STORE_DAY_MS_def STORE_HOUR_MS_def intro: dvd_mult)
  have small: "2 ^ 62 = (4611686018427387904::int)" by simp
  note ranges = in_i64_def i64_min_def i64_max_def
  have b: "now_ms div ?iv * ?iv \<le> now_ms" "now_ms - ?iv < now_ms div ?iv * ?iv"
    using div_mult_bounds [OF iv(1)] by auto
  show e: "in_i64 (trend_end days now_ms)"
    using b iv assms(2) by (simp add: trend_end_def ranges abs_le_iff)
  have width: "(int (trend_count days) - 1) * ?iv = (if days = 0 then 29 * STORE_DAY_MS else int days * STORE_DAY_MS)"
    by (auto simp: trend_count_def trend_interval_def STORE_DAY_MS_def STORE_HOUR_MS_def)
  have d: "in_i64 (int days * STORE_DAY_MS)" "in_i64 (int days)" using assms(1) by (simp_all add: ranges STORE_DAY_MS_def)
  have f: "trend_first days now_ms = trend_end days now_ms - (if days = 0 then 29 * STORE_DAY_MS else int days * STORE_DAY_MS)"
    by (simp only: trend_first_def width)
  show first: "in_i64 (trend_first days now_ms)"
    using b iv assms unfolding f by (auto simp: trend_end_def ranges abs_le_iff STORE_DAY_MS_def)
  have n: "in_i64 (now_ms - int days * STORE_DAY_MS)" using assms by (simp add: ranges abs_le_iff STORE_DAY_MS_def)
  have shift: "(now_ms - int days * STORE_DAY_MS) div ?iv * ?iv = trend_end days now_ms - int days * STORE_DAY_MS"
    unfolding trend_end_def using iv by (intro shift_bucket) auto
  show "trend_range days now_ms =
      Ok (if days = 0 \<or> 15 < days then ''day'' else ''hour'', ?iv, trend_first days now_ms, trend_end days now_ms)"
  proof (cases "days = 0")
    case True
    then show ?thesis
      using e first f by (simp add: trend_range_def Let_def bucket_start_def trend_end_def trend_interval_def)
  next
    case False
    have start: "bucket_start (now_ms - int days * STORE_DAY_MS) ?iv = Ok (trend_first days now_ms)"
      using first shift f False by (simp add: bucket_start_def)
    have "bucket_start now_ms ?iv = Ok (trend_end days now_ms)" using e by (simp add: bucket_start_def trend_end_def)
    with start d n False show ?thesis
      by (cases "15 < days") (simp_all add: trend_range_def Let_def trend_interval_def)
  qed
qed

lemma trend_span:
  assumes "days \<le> 9999"
  shows "0 < trend_interval days" and "in_i64 (trend_end days now_ms - trend_first days now_ms)"
    and "1 \<le> trend_count days \<and> trend_count days \<le> 10000"
    and "(trend_end days now_ms - trend_first days now_ms) div trend_interval days = int (trend_count days) - 1"
proof -
  let ?iv = "trend_interval days" and ?n = "trend_count days"
  have iv: "0 < ?iv" "?iv \<le> 86400000" by (auto simp: trend_interval_def STORE_DAY_MS_def STORE_HOUR_MS_def)
  have n: "1 \<le> ?n" "?n \<le> 10000" using assms by (auto simp: trend_count_def)
  have span: "trend_end days now_ms - trend_first days now_ms = (int ?n - 1) * ?iv" by (simp add: trend_first_def)
  have "(int ?n - 1) * ?iv \<le> 9999 * 86400000" using n iv by (intro mult_mono) auto
  moreover have "0 \<le> (int ?n - 1) * ?iv" using n iv by simp
  ultimately show "in_i64 (trend_end days now_ms - trend_first days now_ms)"
    unfolding span by (simp add: in_i64_def i64_min_def i64_max_def)
  show "(trend_end days now_ms - trend_first days now_ms) div ?iv = int ?n - 1" unfolding span using iv(1) by simp
qed (use assms in \<open>auto simp: trend_interval_def trend_count_def STORE_DAY_MS_def STORE_HOUR_MS_def\<close>)

text \<open>Every bucket of the range lies between its ends, and all the numbers fit.\<close>

lemma trend_buckets:
  assumes "days \<le> 9999" and "\<bar>now_ms\<bar> \<le> 2 ^ 62" and "j < trend_count days"
  shows "in_i64 (int j) \<and> in_i64 (int j * trend_interval days) \<and> in_i64 (trend_first days now_ms + int j * trend_interval days) \<and>
    trend_first days now_ms \<le> trend_first days now_ms + int j * trend_interval days \<and>
    trend_first days now_ms + int j * trend_interval days \<le> trend_end days now_ms"
proof -
  let ?iv = "trend_interval days" and ?n = "trend_count days"
  note span = trend_span [OF assms(1)] and range = trend_range_eq [OF assms(1,2)]
  have "int j * ?iv \<le> (int ?n - 1) * ?iv" using assms(3) span(1) by (intro mult_right_mono) auto
  moreover have "0 \<le> int j * ?iv" using span(1) by simp
  moreover have "trend_first days now_ms + (int ?n - 1) * ?iv = trend_end days now_ms" by (simp add: trend_first_def)
  ultimately show ?thesis
    using range(2,3) span(2) [of now_ms] span(3) assms(3) by (auto simp: in_i64_def i64_min_def i64_max_def)
qed

text \<open>C20. The trend chart: for every retention the configuration accepts and any present-day
  clock, the query succeeds (the database permitting) and returns one bucket for each hour, or
  day, from the start of the range to the current one, without gaps, in order, and never more
  than ten thousand; each shows the stored numbers of that bucket, or zeros when there is no
  row, although the code merges two ordered sequences instead of looking each one up.\<close>

theorem trend_complete:
  assumes "database_inv db" and "days \<le> 9999" and "\<bar>now_ms\<bar> \<le> 2 ^ 62"
    and "midnight now_ms \<noteq> None" and "read_connection io deadline now = Ok ()" and "io_statement io 0"
  shows "trend_with_deadline io midnight deadline now days now_ms db =
    Ok \<lparr>tr_start_ms = trend_first days now_ms, tr_end_ms = trend_end days now_ms,
        tr_granularity = (if days = 0 \<or> 15 < days then ''day'' else ''hour''),
        tr_buckets = map (\<lambda>j. trend_bucket_at (if days = 0 \<or> 15 < days then query_daily_stats db else query_hourly_stats db)
            (trend_first days now_ms + int j * trend_interval days)) [0..<trend_count days]\<rparr>"
proof -
  let ?iv = "trend_interval days" and ?s = "trend_first days now_ms" and ?e = "trend_end days now_ms"
  let ?tbl = "if days = 0 \<or> 15 < days then query_daily_stats db else query_hourly_stats db"
  let ?stored = "filter (\<lambda>(b, r). ?s \<le> b \<and> b \<le> ?e) ?tbl" and ?n = "trend_count days"
  have dvd: "?iv dvd ?s" by (simp add: trend_first_def trend_end_def)
  have tbl: "table_inv ?iv ?tbl" using assms(1) by (auto simp: database_inv_def trend_interval_def)
  note range = trend_range_eq [OF assms(2,3)] and span = trend_span [OF assms(2)] and buckets = trend_buckets [OF assms(2,3)]
  have "fill_buckets ?s ?iv 0 ?n ?stored = Ok (map (\<lambda>j. trend_bucket_at ?stored (?s + int j * ?iv)) [0..<0 + ?n])"
    using buckets by (intro fill_buckets_lookup [OF span(1) dvd table_inv_filter [OF tbl]]) auto
  moreover have "trend_bucket_at ?stored (?s + int j * ?iv) = trend_bucket_at ?tbl (?s + int j * ?iv)" if "j < ?n" for j
    using buckets [OF that] map_of_filter_keys [of "\<lambda>b. ?s \<le> b \<and> b \<le> ?e" ?tbl "?s + int j * ?iv"]
    by (simp add: trend_bucket_at_def stat_at_def)
  ultimately have fill: "fill_buckets ?s ?iv 0 ?n ?stored = Ok (map (\<lambda>j. trend_bucket_at ?tbl (?s + int j * ?iv)) [0..<?n])"
    by simp
  have num: "nat ((?e - ?s) div ?iv) + 1 = ?n" "\<not> (?e - ?s) div ?iv < 0" using span(3,4) by auto
  show ?thesis
    using assms(4-6) span(2,3) fill num
    by (auto simp: trend_with_deadline_def range(1) Let_def MAX_TREND_BUCKETS_def)
qed

section \<open>Pages of queries\<close>

lemma push_ip_ids: "map qr_id (push_ip rs x) = map qr_id rs"
  by (induction rs x rule: push_ip.induct) auto

lemma push_ip_map:
  "distinct (map qr_id rs) \<Longrightarrow> push_ip rs x =
     map (\<lambda>r. if qr_id r = fst x then r\<lparr>qr_response_ips := qr_response_ips r @ [snd x]\<rparr> else r) rs"
proof (induction rs x rule: push_ip.induct)
  case (2 r rs x)
  show ?case
  proof (cases "qr_id r = fst x")
    case True
    then have "\<forall>y \<in> set rs. qr_id y \<noteq> fst x" using "2.prems" by (auto simp: image_iff)
    then have "map (\<lambda>r. if qr_id r = fst x then r\<lparr>qr_response_ips := qr_response_ips r @ [snd x]\<rparr> else r) rs = rs"
      by (intro map_idI) simp
    with True show ?thesis by simp
  next
    case False
    with 2 show ?thesis by simp
  qed
qed simp

lemma foldl_push_ip:
  "distinct (map qr_id rs) \<Longrightarrow> foldl push_ip rs xs =
     map (\<lambda>r. r\<lparr>qr_response_ips := qr_response_ips r @ map snd (filter (\<lambda>x. fst x = qr_id r) xs)\<rparr>) rs"
proof (induction xs arbitrary: rs)
  case (Cons x xs)
  have "distinct (map qr_id (push_ip rs x))" using Cons.prems by (simp add: push_ip_ids)
  with Cons push_ip_map [OF Cons.prems, of x] show ?case by (auto simp: comp_def)
qed simp

lemma map_sort_key: "map f (sort_key f xs) = sort (map f xs)"
  by (rule properties_for_sort [symmetric]) simp_all

definition row_ips :: "database \<Rightarrow> log_row \<Rightarrow> string list" where
  "row_ips db r = sort (map snd (filter (\<lambda>x. fst x = lr_id r) (query_response_ips db)))"

definition shown_record :: "database \<Rightarrow> log_row \<Rightarrow> query_record" where
  "shown_record db r = \<lparr>qr_id = lr_id r, qr_timestamp_ms = lr_timestamp_ms r, qr_domain = lr_domain r,
     qr_query_type = lr_query_type r, qr_response_code = lr_response_code r,
     qr_duration_ms = nat (lr_duration_ms r), qr_blocked = lr_blocked r, qr_cache_hit = lr_cache_hit r,
     qr_response_ips = row_ips db r, qr_upstream = lr_upstream r\<rparr>"

text \<open>What the search means: the domain or one of the addresses contains the term.\<close>

definition contains_ci :: "string \<Rightarrow> string \<Rightarrow> bool" where
  "contains_ci t s \<longleftrightarrow> (\<exists>a b. to_lowercase s = a @ to_lowercase t @ b)"

definition found_by :: "database \<Rightarrow> string option \<Rightarrow> log_row \<Rightarrow> bool" where
  "found_by db search r = (case search of None \<Rightarrow> True
     | Some t \<Rightarrow> contains_ci t (lr_domain r) \<or> list_ex (contains_ci t) (row_ips db r))"

lemma row_matches_found_by: "row_matches db (map_option search_pattern search) r = found_by db search r"
  by (cases search) (fastforce simp: row_matches_def found_by_def sql_like_search contains_ci_def row_ips_def list_ex_iff
      case_prod_unfold)+

text \<open>Pushing the sorted addresses of all rows gives each row its own, in order.\<close>

lemma ips_attached:
  fixes bare
  defines "bare \<equiv> \<lambda>db r. (shown_record db r)\<lparr>qr_response_ips := []\<rparr>"
  assumes "distinct (map lr_id rows)"
  shows "foldl push_ip (map (bare db) rows) (sort_key snd (filter (\<lambda>x. fst x \<in> set (map qr_id (map (bare db) rows))) (query_response_ips db))) =
    map (shown_record db) rows" (is "foldl push_ip _ ?ips = _")
proof -
  have "map snd (filter (\<lambda>x. fst x = lr_id r) ?ips) = row_ips db r" if "r \<in> set rows" for r
  proof -
    have "filter (\<lambda>x. fst x = lr_id r) (filter (\<lambda>x. fst x \<in> set (map qr_id (map (bare db) rows))) (query_response_ips db)) =
        filter (\<lambda>x. fst x = lr_id r) (query_response_ips db)"
      using that by (auto simp: bare_def shown_record_def intro!: filter_cong)
    then show ?thesis by (simp add: filter_sort map_sort_key row_ips_def)
  qed
  then show ?thesis using assms(2)
    by (subst foldl_push_ip) (auto simp: bare_def comp_def shown_record_def)
qed

text \<open>A page of the query log: for a page size between 1 and 200 and an offset that fits, the
  page holds the rows of that position in the list of all found rows, newest first with ties
  broken by the later identifier; a row is found when its domain or one of its addresses
  contains the search term, letter case aside; the total counts all found rows; and every
  record shows its row with its addresses in ascending order. The empty search finds all rows.\<close>

lemma queries_page_eq:
  assumes "database_inv db" and "1 \<le> page_size" and "page_size \<le> 200"
    and "in_i64 (int ((max page 1 - 1) * page_size))"
    and "read_connection io deadline now = Ok ()" and "\<forall>n. io_statement io n"
  shows "queries_with_deadline io deadline now page page_size search db =
    Ok (let hits = filter (found_by db search) (query_logs db) in
      \<lparr>qp_page = max page 1, qp_page_size = page_size, qp_total = int (length hits),
       qp_records = map (shown_record db) (take page_size (drop ((max page 1 - 1) * page_size) (newest_first hits)))\<rparr>)"
proof -
  let ?hits = "filter (found_by db search) (query_logs db)"
  let ?rows = "take page_size (drop ((max page 1 - 1) * page_size) (newest_first ?hits))"
  let ?bare = "\<lambda>r. (shown_record db r)\<lparr>qr_response_ips := []\<rparr>"
  have sub: "set ?rows \<subseteq> set (query_logs db)"
    by (auto simp: newest_first_def dest!: in_set_takeD in_set_dropD)
  have logs: "logs_inv (sequence db) (query_logs db)" using assms(1) by (simp add: database_inv_def)
  then have "distinct (map lr_id (query_logs db))" by (simp add: logs_inv_def strict_sorted_iff)
  then have "distinct (map lr_id (newest_first ?hits))"
    by (simp add: newest_first_def distinct_map inj_on_def)
  then have ids: "distinct (map lr_id ?rows)" by (simp add: take_map [symmetric] drop_map [symmetric])
  have nonneg: "0 \<le> lr_duration_ms r" if "r \<in> set ?rows" for r
    using that sub logs by (auto simp: logs_inv_def list_all_iff)
  have bare: "collect_results query_record_of ?rows = Ok (map ?bare ?rows)"
    using nonneg by (auto simp: collect_results_Ok_iff list_all2_map2 query_record_of_def shown_record_def list_all2_same not_less)
  have offset: "Option.bind (checked_u64 ((max page 1 - 1) * page_size)) i64_try_from_u64 = Some (int ((max page 1 - 1) * page_size))"
  proof -
    have "int ((max page 1 - 1) * page_size) \<le> 2 ^ 63 - 1" using assms(4) unfolding in_i64_def i64_max_def by blast
    then have "int ((max page 1 - 1) * page_size) \<le> int u64_max" by (simp add: u64_max_def)
    then have "(max page 1 - 1) * page_size \<le> u64_max" by (simp only: of_nat_le_iff)
    with assms(4) show ?thesis by simp
  qed
  have row: "(\<lambda>r. row_matches db (map_option search_pattern search) r) = found_by db search"
    using row_matches_found_by by blast
  let ?ips = "sort_key snd (filter (\<lambda>x. fst x \<in> set (map qr_id (map ?bare ?rows))) (query_response_ips db))"
  have "foldl push_ip (map ?bare ?rows) ?ips = map (shown_record db) ?rows" using ids by (rule ips_attached)
  moreover have "queries_with_deadline io deadline now page page_size search db =
      Ok \<lparr>qp_page = max page 1, qp_page_size = page_size, qp_total = int (length ?hits),
          qp_records = (if map ?bare ?rows = [] then map ?bare ?rows else foldl push_ip (map ?bare ?rows) ?ips)\<rparr>"
  proof -
    obtain off where off: "(max page 1 - 1) * page_size = off" by blast
    show ?thesis
      using assms(2,3,5,6) bare offset unfolding off
      by (simp add: queries_with_deadline_def MAX_QUERY_PAGE_SIZE_def Let_def row off [unfolded One_nat_def])
  qed
  ultimately show ?thesis by (auto simp: Let_def)
qed

section \<open>Concrete histories\<close>

definition sample_io :: sql_io where
  "sample_io = \<lparr>io_open = True, io_busy_timeout = (\<lambda>d. True), io_foreign_keys = True, io_statement = (\<lambda>n. True), io_commit = True\<rparr>"

lemma sample_io_connects [simp]: "io_connect sample_io"
  by (simp add: io_connect_def sample_io_def)

definition utc_midnight :: calendar where
  "utc_midnight t = Some (t div STORE_DAY_MS * STORE_DAY_MS)"

lemma utc_midnight_laws: "calendar_laws utc_midnight"
  by (simp add: calendar_laws_def utc_midnight_def)

definition sample_event :: "int \<Rightarrow> string \<Rightarrow> bool \<Rightarrow> query_event" where
  "sample_event t d hit = \<lparr>timestamp_ms = t, domain = d, query_type = ''A'', response_code_text = ''NOERROR'',
     duration_ms = 5, ev_blocked = False, ev_cache_hit = hit, response_ips = [''192.0.2.1'', ''192.0.2.1''],
     ev_upstream = None\<rparr>"

definition sample_ops :: "store_op list" where
  "sample_ops = [St_insert sample_io [sample_event 1000 ''old.test'' False, sample_event 90000000 ''a.test'' True],
     St_cleanup sample_io 1 172800000, St_insert sample_io [sample_event 90000007 ''b.test'' False]]"

lemmas sample_history = sample_ops_def sample_io_def io_connect_def sample_event_def utc_midnight_def STORE_DAY_MS_def STORE_HOUR_MS_def

lemma cutoffs_Cons_insert [simp]: "cutoffs (St_insert io es # ops) = cutoffs ops"
  by (auto simp: cutoffs_def)

lemma cutoffs_Cons_cleanup [simp]:
  "cutoffs (St_cleanup io days now # ops) = (if 0 < days then insert (now - int days * STORE_DAY_MS) (cutoffs ops) else cutoffs ops)"
  by (auto simp: cutoffs_def)

lemma cutoffs_Nil [simp]: "cutoffs [] = {}"
  by (simp add: cutoffs_def)

definition sample_db :: database where
  "sample_db = store_run utc_midnight sample_ops"

lemmas store_eval = sample_history store_run_def empty_database_def insert_events_def insert_event_def insert_log_def
  insert_ip_def upsert_def Let_def cleanup_def delete_logs_def in_i64_def i64_min_def i64_max_def

lemma sample_db_eq:
  "map (\<lambda>r. (lr_id r, lr_domain r)) (query_logs sample_db) = [(2, ''a.test''), (3, ''b.test'')] \<and>
   query_response_ips sample_db = [(2, ''192.0.2.1''), (3, ''192.0.2.1'')] \<and>
   query_hourly_stats sample_db = [(90000000, \<lparr>total_queries = 2, blocked_queries = 0, cache_hits = 1\<rparr>)] \<and>
   query_daily_stats sample_db = [(86400000, \<lparr>total_queries = 2, blocked_queries = 0, cache_hits = 1\<rparr>)] \<and>
   sequence sample_db = 3"
  unfolding sample_db_def by (simp add: store_eval image_iff conj_disj_distribR ex_disj_distrib)

theorem store_aggregates_witness:
  "stat_at (query_hourly_stats (store_run utc_midnight sample_ops)) 90000000 =
     counted 3600000 (query_logs (store_run utc_midnight sample_ops)) 90000000"
  using store_aggregates [OF utc_midnight_laws, of sample_ops 90000000] by (simp add: Let_def sample_history)


theorem insert_events_atomic_witness:
  "is_ok (fst (insert_events sample_io utc_midnight empty_database [sample_event 1000 ''a.test'' True]))"
  using insert_events_atomic [of sample_io utc_midnight empty_database "[sample_event 1000 ''a.test'' True]"]
  by (simp add: sample_history empty_database_def in_i64_def i64_min_def i64_max_def)

lemma sample_db_inv: "database_inv sample_db"
  unfolding sample_db_def by (rule store_run_inv [OF utc_midnight_laws])

theorem trend_complete_witness:
  "\<exists>t. trend_with_deadline sample_io utc_midnight None 0 1 180000000 sample_db = Ok t \<and>
     length (tr_buckets t) = 25 \<and> tr_start_ms t = 93600000"
  using trend_complete [OF sample_db_inv, of 1 180000000 utc_midnight sample_io None 0]
  by (simp add: sample_io_def io_connect_def utc_midnight_def read_connection_def trend_count_def trend_first_def trend_end_def
      trend_interval_def STORE_HOUR_MS_def)

end
