(* ===== verification/Store_Worker.thy ===== *)
theory Store_Worker
  imports "HOL-Library.Sublist" State_Machine Store
begin

text \<open>
  The background writer of \<open>src/dashboard/store.rs\<close>: \<open>WarningRateLimit\<close>, the loop of
  \<open>run_store_worker_with_interval\<close> and the handle \<open>StoreWorker\<close>.

  An iteration of the loop waits for a first event, collects more until the batch is full, the
  channel ends or \<open>BATCH_WAIT\<close> is over, then writes. The threads that record events run
  concurrently, so the waiting is split into the single receptions (\<open>first_event\<close>,
  \<open>collect_event\<close>), and \<open>worker_step\<close> interleaves them with recordings, the shutdown signal and
  the passing of time.
\<close>

definition WORKER_CAPACITY :: nat where
  "WORKER_CAPACITY = 4096"

definition MAX_BATCH_SIZE :: nat where
  "MAX_BATCH_SIZE = 128"

definition BATCH_WAIT :: duration where
  "BATCH_WAIT = from_millis 100"

definition CLEANUP_INTERVAL :: duration where
  "CLEANUP_INTERVAL = from_secs (24 * 60 * 60)"

definition SHUTDOWN_TIMEOUT :: duration where
  "SHUTDOWN_TIMEOUT = from_secs 2"

section \<open>Warnings at most once a minute\<close>

record warning_rate_limit =
  interval_ms :: nat
  next_log_ms :: nat

definition rate_limit_new :: "duration \<Rightarrow> warning_rate_limit" where
  "rate_limit_new interval = \<lparr>interval_ms = as_millis interval mod 2 ^ 64, next_log_ms = 0\<rparr>"

definition saturating_add_u64 :: "nat \<Rightarrow> nat \<Rightarrow> nat" where
  "saturating_add_u64 a b = min u64_max (a + b)"

text \<open>
  What may happen at a \<open>compare_exchange_weak\<close>: it fails for no reason, or another thread has
  stored a value in the meantime. The list gives what happens at each attempt; after it, nothing
  interferes any more.
\<close>

datatype interference = Spurious | Stored_by_other nat

fun should_log_loop :: "nat \<Rightarrow> nat \<Rightarrow> warning_rate_limit \<Rightarrow> interference list \<Rightarrow> bool \<times> warning_rate_limit" where
  "should_log_loop now nxt l [] =
     (if now < nxt then (False, l)
      else if next_log_ms l = nxt then (True, l\<lparr>next_log_ms := saturating_add_u64 now (interval_ms l)\<rparr>)
      else if now < next_log_ms l then (False, l)
      else (True, l\<lparr>next_log_ms := saturating_add_u64 now (interval_ms l)\<rparr>))"
| "should_log_loop now nxt l (Spurious # es) =
     (if now < nxt then (False, l) else should_log_loop now (next_log_ms l) l es)"
| "should_log_loop now nxt l (Stored_by_other v # es) =
     (let l = l\<lparr>next_log_ms := v\<rparr> in
      if now < nxt then (False, l)
      else if v = nxt then (True, l\<lparr>next_log_ms := saturating_add_u64 now (interval_ms l)\<rparr>)
      else should_log_loop now v l es)"

definition should_log :: "nat \<Rightarrow> interference list \<Rightarrow> warning_rate_limit \<Rightarrow> bool \<times> warning_rate_limit" where
  "should_log now es l = should_log_loop now (next_log_ms l) l es"

definition WRITE_WARNING_LIMIT :: warning_rate_limit where
  "WRITE_WARNING_LIMIT = rate_limit_new (from_secs 60)"

text \<open>Milliseconds since the first call, which sets the origin.\<close>

definition monotonic_millis :: "instant \<Rightarrow> instant option \<Rightarrow> nat \<times> instant option" where
  "monotonic_millis now started =
     (let since = (case started of None \<Rightarrow> now | Some t \<Rightarrow> t) in (min (as_millis (now - since)) u64_max, Some since))"

section \<open>The loop\<close>

datatype worker_phase = Idle | Collecting "query_event list" instant | Stopped

record worker_state =
  wk_channel :: recorder
  wk_senders_gone :: bool
  wk_shutdown_received :: bool
  wk_next_cleanup :: instant
  wk_limit :: warning_rate_limit
  wk_first_warning :: "instant option"
  wk_db :: database
  wk_phase :: worker_phase

text \<open>\<open>Receiver::is_closed\<close>, \<open>Receiver::close\<close> and the end of the channel as \<open>recv\<close> reports it.\<close>

definition channel_closed :: "worker_state \<Rightarrow> bool" where
  "channel_closed w \<longleftrightarrow> rec_closed (wk_channel w) \<or> wk_senders_gone w"

definition recv_none :: "worker_state \<Rightarrow> bool" where
  "recv_none w \<longleftrightarrow> rec_queue (wk_channel w) = [] \<and> channel_closed w"

datatype select_branch = Event_branch | Shutdown_branch | Cleanup_branch

text \<open>
  The first event of an iteration by the branch that \<open>select!\<close> takes: \<open>None\<close> when that branch is
  not ready, \<open>Some (None, w)\<close> when it ends without an event.
\<close>

definition first_event ::
  "select_branch \<Rightarrow> bool \<Rightarrow> instant \<Rightarrow> worker_state \<Rightarrow> (query_event option \<times> worker_state) option" where
  "first_event branch signalled now w = (case branch of
     Event_branch \<Rightarrow>
       (case recv (wk_channel w) of
          (Some e, ch) \<Rightarrow> Some (Some e, w\<lparr>wk_channel := ch\<rparr>)
        | (None, ch) \<Rightarrow> if channel_closed w then Some (None, w) else None)
   | Shutdown_branch \<Rightarrow>
       if wk_shutdown_received w \<or> \<not> signalled then None
       else let w = w\<lparr>wk_shutdown_received := True, wk_channel := (wk_channel w)\<lparr>rec_closed := True\<rparr>\<rparr>;
                (e, ch) = recv (wk_channel w) in
            Some (e, w\<lparr>wk_channel := ch\<rparr>)
   | Cleanup_branch \<Rightarrow> if wk_next_cleanup w \<le> now then Some (None, w) else None)"

record worker_clock =
  wc_instant :: instant
  wc_utc_ms :: int

text \<open>
  The rest of an iteration once the batch is there: write it, clean up when due, stop when there
  was nothing to write and the channel is closed: returning drops the receiving side, with
  whatever is still queued. The result also tells the batch handed to \<open>insert_events\<close> and whether
  a warning was logged.
\<close>

definition write_batch ::
  "calendar \<Rightarrow> sql_io \<Rightarrow> worker_clock \<Rightarrow> query_event list \<Rightarrow> worker_state \<Rightarrow> bool \<times> worker_state" where
  "write_batch midnight io ck events w =
     (if events = [] then (False, w)
      else case insert_events io midnight (wk_db w) events of
        (Ok _, db) \<Rightarrow> (False, w\<lparr>wk_db := db\<rparr>)
      | (Err e, db) \<Rightarrow>
          let (now_ms, started) = monotonic_millis (wc_instant ck) (wk_first_warning w);
              (warned, l) = should_log now_ms [] (wk_limit w) in
          (warned, w\<lparr>wk_db := db, wk_limit := l, wk_first_warning := started\<rparr>))"

definition clean_if_due ::
  "sql_io \<Rightarrow> worker_clock \<Rightarrow> nat \<Rightarrow> duration \<Rightarrow> worker_state \<Rightarrow> worker_state" where
  "clean_if_due io ck retention_days cleanup_interval w =
     (if wc_instant ck < wk_next_cleanup w then w
      else w\<lparr>wk_db := snd (cleanup io retention_days (wc_utc_ms ck) (wk_db w)),
             wk_next_cleanup := wc_instant ck + cleanup_interval\<rparr>)"

definition finish_iteration ::
  "calendar \<Rightarrow> sql_io \<Rightarrow> sql_io \<Rightarrow> worker_clock \<Rightarrow> nat \<Rightarrow> duration \<Rightarrow> query_event list \<Rightarrow> worker_state \<Rightarrow> worker_state" where
  "finish_iteration midnight io io' ck retention_days cleanup_interval events w =
     (let w = snd (write_batch midnight io ck events w);
          w = clean_if_due io' ck retention_days cleanup_interval w in
      if events = [] \<and> channel_closed w
      then w\<lparr>wk_phase := Stopped, wk_channel := close_receiver (wk_channel w)\<rparr> else w\<lparr>wk_phase := Idle\<rparr>)"

text \<open>
  One reception of the inner loop: \<open>Inl w\<close> goes on collecting, \<open>Inr es\<close> ends the loop with the
  batch. \<open>timeout_at\<close> looks at the channel first, so the time-out needs an empty one.
\<close>

definition collect_event ::
  "query_event list \<Rightarrow> instant \<Rightarrow> instant \<Rightarrow> worker_state \<Rightarrow> (worker_state + query_event list) option" where
  "collect_event events deadline now w =
     (if \<not> length events < MAX_BATCH_SIZE then Some (Inr events)
      else case recv (wk_channel w) of
        (Some e, ch) \<Rightarrow> Some (Inl (w\<lparr>wk_channel := ch, wk_phase := Collecting (events @ [e]) deadline\<rparr>))
      | (None, ch) \<Rightarrow> if channel_closed w then Some (Inr events)
                      else if deadline \<le> now then Some (Inr events) else None)"

text \<open>
  The start of the thread: the initial clean-up, and the end of everything when the timer runtime
  (\<open>ok\<close>) cannot be created, where returning drops the receiving side.
\<close>

definition worker_init :: "bool \<Rightarrow> sql_io \<Rightarrow> nat \<Rightarrow> duration \<Rightarrow> worker_clock \<Rightarrow> database \<Rightarrow> recorder \<Rightarrow> worker_state" where
  "worker_init ok io retention_days cleanup_interval ck db ch =
     \<lparr>wk_channel = (if ok then ch else close_receiver ch), wk_senders_gone = False, wk_shutdown_received = False,
      wk_next_cleanup = wc_instant ck + cleanup_interval, wk_limit = WRITE_WARNING_LIMIT, wk_first_warning = None,
      wk_db = snd (cleanup io retention_days (wc_utc_ms ck) db), wk_phase = (if ok then Idle else Stopped)\<rparr>"

definition run_store_worker :: "bool \<Rightarrow> sql_io \<Rightarrow> nat \<Rightarrow> worker_clock \<Rightarrow> database \<Rightarrow> recorder \<Rightarrow> worker_state" where
  "run_store_worker ok io retention_days ck db ch = worker_init ok io retention_days CLEANUP_INTERVAL ck db ch"

text \<open>
  What the worker does next, with the batch it hands to the database: \<open>None\<close> when it has to wait.
\<close>

definition worker_turn ::
  "calendar \<Rightarrow> nat \<Rightarrow> duration \<Rightarrow> sql_io \<Rightarrow> sql_io \<Rightarrow> worker_clock \<Rightarrow> select_branch \<Rightarrow> bool \<Rightarrow>
     worker_state \<Rightarrow> (worker_state \<times> query_event list) option" where
  "worker_turn midnight retention_days cleanup_interval io io' ck branch signalled w =
     (let finish = (\<lambda>events w. Some (finish_iteration midnight io io' ck retention_days cleanup_interval events w, events)) in
      case wk_phase w of
        Stopped \<Rightarrow> None
      | Idle \<Rightarrow>
          (case first_event branch signalled (wc_instant ck) w of
             None \<Rightarrow> None
           | Some (None, w) \<Rightarrow> finish [] w
           | Some (Some e, w) \<Rightarrow> Some (w\<lparr>wk_phase := Collecting [e] (wc_instant ck + BATCH_WAIT)\<rparr>, []))
      | Collecting events deadline \<Rightarrow>
          (case collect_event events deadline (wc_instant ck) w of
             None \<Rightarrow> None
           | Some (Inl w) \<Rightarrow> Some (w, [])
           | Some (Inr events) \<Rightarrow> finish events w))"

text \<open>
  A run: the worker with the events accepted, the batches handed to the database so far and the
  events that were still queued when it stopped, the database it started on and the operations of
  the store it has performed since.
\<close>

record worker_run =
  run_worker :: worker_state
  run_accepted :: "query_event list"
  run_written :: "query_event list list"
  run_lost :: "query_event list"
  run_initial :: database
  run_ops :: "store_op list"

text \<open>The operations of one turn: the batch, and the clean-up at the end of an iteration when due.\<close>

definition turn_ops ::
  "sql_io \<Rightarrow> sql_io \<Rightarrow> worker_clock \<Rightarrow> nat \<Rightarrow> worker_state \<Rightarrow> worker_state \<Rightarrow> query_event list \<Rightarrow> store_op list" where
  "turn_ops io io' ck retention_days w w' events =
     (if events = [] then [] else [St_insert io events]) @
     (if (wk_phase w' = Idle \<or> wk_phase w' = Stopped) \<and> wk_next_cleanup w \<le> wc_instant ck
      then [St_cleanup io' retention_days (wc_utc_ms ck)] else [])"

inductive worker_step :: "calendar \<Rightarrow> nat \<Rightarrow> duration \<Rightarrow> worker_run \<Rightarrow> worker_run \<Rightarrow> bool"
  for midnight retention_days cleanup_interval where
  record_event: "\<not> wk_senders_gone (run_worker r) \<Longrightarrow>
     worker_step midnight retention_days cleanup_interval r
       (r\<lparr>run_worker := (run_worker r)\<lparr>wk_channel := try_record e (wk_channel (run_worker r))\<rparr>,
          run_accepted := run_accepted r @ (if fst (try_send e (wk_channel (run_worker r))) = Sent then [e] else [])\<rparr>)"
| drop_senders:
    "worker_step midnight retention_days cleanup_interval r (r\<lparr>run_worker := (run_worker r)\<lparr>wk_senders_gone := True\<rparr>\<rparr>)"
| turn: "worker_turn midnight retention_days cleanup_interval io io' ck branch signalled (run_worker r) = Some (w, events) \<Longrightarrow>
     worker_step midnight retention_days cleanup_interval r
       (r\<lparr>run_worker := w, run_written := run_written r @ (if events = [] then [] else [events]),
          run_lost := run_lost r @ (if wk_phase w = Stopped then rec_queue (wk_channel (run_worker r)) else []),
          run_ops := run_ops r @ turn_ops io io' ck retention_days (run_worker r) w events\<rparr>)"

definition run_from :: "nat \<Rightarrow> duration \<Rightarrow> worker_run \<Rightarrow> bool" where
  "run_from retention_days cleanup_interval r \<longleftrightarrow> (\<exists>ok io ck db. r =
     \<lparr>run_worker = worker_init ok io retention_days cleanup_interval ck db (recorder_channel WORKER_CAPACITY),
      run_accepted = [], run_written = [], run_lost = [], run_initial = db, run_ops = [St_cleanup io retention_days (wc_utc_ms ck)]\<rparr>)"

definition worker_reach :: "calendar \<Rightarrow> nat \<Rightarrow> duration \<Rightarrow> worker_run \<Rightarrow> bool" where
  "worker_reach midnight retention_days cleanup_interval =
     reachable (run_from retention_days cleanup_interval) (worker_step midnight retention_days cleanup_interval)"

lemma worker_start: "worker_reach midnight retention_days cleanup_interval
     \<lparr>run_worker = worker_init ok io retention_days cleanup_interval ck db (recorder_channel WORKER_CAPACITY),
      run_accepted = [], run_written = [], run_lost = [], run_initial = db, run_ops = [St_cleanup io retention_days (wc_utc_ms ck)]\<rparr>"
  unfolding worker_reach_def by (rule initial) (unfold run_from_def, blast)

lemma worker_more: "worker_reach midnight retention_days cleanup_interval r \<Longrightarrow>
     worker_step midnight retention_days cleanup_interval r r' \<Longrightarrow> worker_reach midnight retention_days cleanup_interval r'"
  unfolding worker_reach_def by (rule further)

section \<open>The rate limit\<close>

text \<open>
  A warning is logged only by a thread whose time has reached the value in the cell, and that
  thread moves the cell one interval past its own time: two warnings are an interval apart, up
  to the saturation at the end of the 64-bit range.
\<close>

lemma should_log_loop_spec:
  assumes "should_log_loop now nxt l es = (b, l')"
  shows "interval_ms l' = interval_ms l \<and> (b \<longrightarrow> next_log_ms l' = saturating_add_u64 now (interval_ms l))"
  using assms by (induction now nxt l es rule: should_log_loop.induct) (auto simp: Let_def split: if_splits)

lemma should_log_alone:
  "should_log now [] l = (next_log_ms l \<le> now,
     if next_log_ms l \<le> now then l\<lparr>next_log_ms := saturating_add_u64 now (interval_ms l)\<rparr> else l)"
  by (simp add: should_log_def)

lemma should_log_spaced:
  assumes "should_log now es l = (True, l1)" and "should_log later [] l1 = (True, l2)"
    and "now + interval_ms l \<le> u64_max"
  shows "now + interval_ms l \<le> later"
  using assms should_log_loop_spec [of now "next_log_ms l" l es True l1]
  by (auto simp: should_log_def saturating_add_u64_def min_def split: if_splits)

section \<open>Where every event is\<close>

fun in_hand :: "worker_phase \<Rightarrow> query_event list" where
  "in_hand (Collecting es d) = es"
| "in_hand _ = []"

lemma channel_write_batch [simp]:
  "wk_channel (snd (write_batch midnight io ck es w)) = wk_channel w"
  "wk_senders_gone (snd (write_batch midnight io ck es w)) = wk_senders_gone w"
  "wk_next_cleanup (snd (write_batch midnight io ck es w)) = wk_next_cleanup w"
  by (auto simp: write_batch_def split: prod.splits sum.splits)

lemma channel_clean_if_due [simp]:
  "wk_channel (clean_if_due io ck days iv w) = wk_channel w"
  "wk_senders_gone (clean_if_due io ck days iv w) = wk_senders_gone w"
  by (auto simp: clean_if_due_def)

lemma finish_iteration_frame [simp]:
  "wk_channel (finish_iteration midnight io io' ck days iv es w) =
     (if es = [] \<and> channel_closed w then close_receiver (wk_channel w) else wk_channel w)"
  "wk_senders_gone (finish_iteration midnight io io' ck days iv es w) = wk_senders_gone w"
  "wk_phase (finish_iteration midnight io io' ck days iv es w) = (if es = [] \<and> channel_closed w then Stopped else Idle)"
  by (auto simp: finish_iteration_def Let_def channel_closed_def)

lemma first_event_frame:
  assumes "first_event branch signalled now w = Some (x, w1)"
  shows "wk_senders_gone w1 = wk_senders_gone w" "rec_capacity (wk_channel w1) = rec_capacity (wk_channel w)"
    "channel_closed w \<Longrightarrow> channel_closed w1"
    "case x of
       Some e \<Rightarrow> rec_queue (wk_channel w) = e # rec_queue (wk_channel w1)
     | None \<Rightarrow> rec_queue (wk_channel w1) = rec_queue (wk_channel w) \<and>
         (rec_queue (wk_channel w) = [] \<or> wk_next_cleanup w \<le> now)"
  using assms
  by (cases branch; cases "rec_queue (wk_channel w)"; auto simp: first_event_def recv_def Let_def channel_closed_def split: if_splits)+

text \<open>The four things a turn can be.\<close>

lemma worker_turn_cases:
  assumes "worker_turn midnight days iv io io' ck branch signalled w = Some (w', es)"
  obtains
    (First) e where "wk_phase w = Idle" "rec_queue (wk_channel w) = e # rec_queue (wk_channel w')"
      "wk_phase w' = Collecting [e] (wc_instant ck + BATCH_WAIT)" "es = []"
      "wk_senders_gone w' = wk_senders_gone w" "rec_capacity (wk_channel w') = rec_capacity (wk_channel w)"
      "channel_closed w \<Longrightarrow> channel_closed w'"
  | (Nothing) "wk_phase w = Idle"
      "wk_phase w' = Stopped \<Longrightarrow> rec_queue (wk_channel w') = [] \<and> rec_closed (wk_channel w')"
      "wk_phase w' \<noteq> Stopped \<Longrightarrow> rec_queue (wk_channel w') = rec_queue (wk_channel w)"
      "wk_phase w' = (if channel_closed w' then Stopped else Idle)" "es = []"
      "rec_queue (wk_channel w) = [] \<or> wk_next_cleanup w \<le> wc_instant ck"
      "wk_senders_gone w' = wk_senders_gone w" "rec_capacity (wk_channel w') = rec_capacity (wk_channel w)"
      "channel_closed w \<Longrightarrow> channel_closed w'"
  | (Another) e held d where "wk_phase w = Collecting held d" "length held < MAX_BATCH_SIZE"
      "rec_queue (wk_channel w) = e # rec_queue (wk_channel w')"
      "wk_phase w' = Collecting (held @ [e]) d" "es = []"
      "wk_senders_gone w' = wk_senders_gone w" "rec_capacity (wk_channel w') = rec_capacity (wk_channel w)"
      "rec_closed (wk_channel w') = rec_closed (wk_channel w)"
  | (Write) d where "wk_phase w = Collecting es d"
      "wk_channel w' = (if es = [] \<and> channel_closed w then close_receiver (wk_channel w) else wk_channel w)"
      "wk_phase w' = (if es = [] \<and> channel_closed w then Stopped else Idle)"
      "wk_senders_gone w' = wk_senders_gone w"
proof (cases "wk_phase w")
  case Idle
  with assms obtain x w1 where first: "first_event branch signalled (wc_instant ck) w = Some (x, w1)"
    by (auto simp: worker_turn_def Let_def split: option.splits)
  note frame = first_event_frame [OF first]
  show thesis
  proof (cases x)
    case None
    with assms Idle first have w': "w' = finish_iteration midnight io io' ck days iv [] w1" "es = []"
      by (auto simp: worker_turn_def)
    have closed: "channel_closed w' \<longleftrightarrow> channel_closed w1"
      by (auto simp: w'(1) channel_closed_def close_receiver_def)
    have "rec_capacity (wk_channel w') = rec_capacity (wk_channel w1)" by (simp add: w'(1) close_receiver_def)
    with Idle frame None closed w'(2) show thesis
      by (intro Nothing) (auto simp: w'(1) close_receiver_def split: if_splits)
  next
    case (Some e)
    with assms Idle first have "w' = w1\<lparr>wk_phase := Collecting [e] (wc_instant ck + BATCH_WAIT)\<rparr>" "es = []"
      by (auto simp: worker_turn_def)
    with Idle frame Some show thesis by (intro First [of e]) (simp_all add: channel_closed_def)
  qed
next
  case (Collecting held d)
  show thesis
  proof (cases "wk_channel w" rule: events.receive_cases)
    case Nothing
    with Collecting assms Write show thesis
      by (auto simp: worker_turn_def collect_event_def Let_def channel_closed_def split: if_splits)
  next
    case (Event e c)
    with Collecting assms Another Write recv_taken [OF Event(2)] show thesis
      by (auto simp: worker_turn_def collect_event_def Let_def channel_closed_def split: if_splits)
  qed
next
  case Stopped
  with assms show thesis by (simp add: worker_turn_def)
qed

definition worker_inv :: "worker_run \<Rightarrow> bool" where
  "worker_inv r \<longleftrightarrow>
     concat (run_written r) @ in_hand (wk_phase (run_worker r)) @ rec_queue (wk_channel (run_worker r)) @ run_lost r = run_accepted r \<and>
     (wk_phase (run_worker r) = Stopped \<longrightarrow> rec_queue (wk_channel (run_worker r)) = [] \<and> rec_closed (wk_channel (run_worker r))) \<and>
     (run_lost r \<noteq> [] \<longrightarrow> wk_phase (run_worker r) = Stopped) \<and>
     length (rec_queue (wk_channel (run_worker r))) \<le> rec_capacity (wk_channel (run_worker r)) \<and>
     rec_capacity (wk_channel (run_worker r)) = WORKER_CAPACITY \<and>
     list_all (\<lambda>b. b \<noteq> [] \<and> length b \<le> MAX_BATCH_SIZE) (run_written r) \<and>
     (case wk_phase (run_worker r) of Collecting es d \<Rightarrow> es \<noteq> [] \<and> length es \<le> MAX_BATCH_SIZE | _ \<Rightarrow> True)"

lemma worker_inv_step:
  assumes "worker_inv r" and "worker_step midnight days iv r r'"
  shows "worker_inv r'"
  using assms(2)
proof cases
  case (record_event e)
  with assms(1) show ?thesis
    by (auto simp: worker_inv_def events.content_record try_send_Sent accepting_def split: worker_phase.splits)
next
  case drop_senders
  with assms(1) show ?thesis by (simp add: worker_inv_def)
next
  case (turn io io' ck branch signalled w events)
  from turn(2) show ?thesis
  proof (cases rule: worker_turn_cases)
    case (First e)
    with assms(1) turn(1) show ?thesis by (auto simp: worker_inv_def MAX_BATCH_SIZE_def)
  next
    case Nothing
    with assms(1) turn(1) show ?thesis by (auto simp: worker_inv_def)
  next
    case (Another e held d)
    with assms(1) turn(1) show ?thesis by (auto simp: worker_inv_def)
  next
    case (Write d)
    with assms(1) turn(1) show ?thesis by (auto simp: worker_inv_def)
  qed
qed

interpretation queue_kept: inductive_invariant "run_from days iv" "worker_step midnight days iv" worker_inv for midnight days iv
proof
  show "worker_inv r" if "run_from days iv r" for r
    using that by (auto simp: run_from_def worker_inv_def worker_init_def recorder_channel_def close_receiver_def)
qed (rule worker_inv_step)

lemmas worker_inv_reach = queue_kept.always [folded worker_reach_def]


text \<open>The database is what the operations of the store make of the one the worker started on.\<close>

definition inserted :: "store_op list \<Rightarrow> query_event list list" where
  "inserted ops = List.map_filter (\<lambda>op. case op of St_insert io es \<Rightarrow> Some es | St_cleanup _ _ _ \<Rightarrow> None) ops"

lemma inserted_append [simp]: "inserted (xs @ ys) = inserted xs @ inserted ys"
  by (simp add: inserted_def map_filter_def)

lemma inserted_turn_ops [simp]: "inserted (turn_ops io io' ck days w w' es) = (if es = [] then [] else [es])"
  by (simp add: inserted_def turn_ops_def map_filter_simps)

lemma write_batch_db:
  "wk_db (snd (write_batch midnight io ck es w)) = (if es = [] then wk_db w else snd (insert_events io midnight (wk_db w) es))"
  by (auto simp: write_batch_def split: prod.splits sum.splits)

lemma finish_iteration_db:
  assumes "w' = finish_iteration midnight io io' ck days iv es w"
  shows "wk_db w' = foldl (store_step midnight) (wk_db w) (turn_ops io io' ck days w w' es)"
  unfolding assms
  by (auto simp: turn_ops_def) (auto simp: finish_iteration_def clean_if_due_def write_batch_db Let_def)

lemma worker_turn_db:
  assumes "worker_turn midnight days iv io io' ck branch signalled w = Some (w', es)"
  shows "wk_db w' = foldl (store_step midnight) (wk_db w) (turn_ops io io' ck days w w' es)"
proof (cases "wk_phase w")
  case Idle
  have first: "wk_db w1 = wk_db w \<and> wk_next_cleanup w1 = wk_next_cleanup w" if "first_event branch signalled (wc_instant ck) w = Some (e, w1)" for e w1
    using that by (auto simp: first_event_def Let_def split: select_branch.splits prod.splits option.splits if_splits)
  from assms Idle obtain e w1 where f: "first_event branch signalled (wc_instant ck) w = Some (e, w1)"
    by (auto simp: worker_turn_def Let_def split: option.splits)
  from first [OF this] have turn: "turn_ops io io' ck days w w' es = turn_ops io io' ck days w1 w' es" by (simp add: turn_ops_def)
  show ?thesis
  proof (cases e)
    case None
    with assms Idle f have "w' = finish_iteration midnight io io' ck days iv es w1" by (auto simp: worker_turn_def)
    from finish_iteration_db [OF this] first [OF f] show ?thesis by (simp add: turn)
  next
    case (Some x)
    with assms Idle f first [OF f] show ?thesis by (auto simp: worker_turn_def turn_ops_def)
  qed
next
  case (Collecting held d)
  from assms Collecting consider w1 where "collect_event held d (wc_instant ck) w = Some (Inl w1)" "w' = w1" "es = []"
    | "collect_event held d (wc_instant ck) w = Some (Inr es)" "w' = finish_iteration midnight io io' ck days iv es w"
    by (auto simp: worker_turn_def Let_def split: option.splits sum.splits)
  then show ?thesis
  proof cases
    case 1
    then show ?thesis by (auto simp: collect_event_def turn_ops_def split: prod.splits option.splits if_splits)
  qed (rule finish_iteration_db)
next
  case Stopped
  with assms show ?thesis by (simp add: worker_turn_def)
qed

definition db_follows :: "calendar \<Rightarrow> worker_run \<Rightarrow> bool" where
  "db_follows midnight r \<longleftrightarrow>
     wk_db (run_worker r) = foldl (store_step midnight) (run_initial r) (run_ops r) \<and> inserted (run_ops r) = run_written r"

interpretation db_kept: inductive_invariant "run_from days iv" "worker_step midnight days iv" "db_follows midnight" for midnight days iv
proof
  show "db_follows midnight r" if "run_from days iv r" for r
    using that by (auto simp: run_from_def db_follows_def worker_init_def inserted_def map_filter_simps)
next
  fix r r'
  assume kept: "db_follows midnight r" and "worker_step midnight days iv r r'"
  from this(2) show "db_follows midnight r'"
  proof cases
    case (turn io io' ck branch signalled w events)
    with kept worker_turn_db [OF turn(2)] show ?thesis by (simp add: db_follows_def)
  qed (use kept in \<open>simp_all add: db_follows_def\<close>)
qed

lemmas worker_db_reach = db_kept.always [folded worker_reach_def, unfolded db_follows_def]

text \<open>
  What became of the batches: each one with whether \<open>insert_events\<close> returned success for it, given
  the database at that moment. The events of the batches that succeeded are the stored ones.
\<close>

fun insert_outcomes :: "calendar \<Rightarrow> database \<Rightarrow> store_op list \<Rightarrow> (query_event list \<times> bool) list" where
  "insert_outcomes midnight db [] = []"
| "insert_outcomes midnight db (op # ops) =
     (case op of
        St_insert io es \<Rightarrow> [(es, is_ok (fst (insert_events io midnight db es)))]
      | St_cleanup _ _ _ \<Rightarrow> []) @ insert_outcomes midnight (store_step midnight db op) ops"

definition stored_events :: "calendar \<Rightarrow> database \<Rightarrow> store_op list \<Rightarrow> query_event list" where
  "stored_events midnight db ops = concat (map fst (filter snd (insert_outcomes midnight db ops)))"

lemma insert_outcomes_append:
  "insert_outcomes midnight db (xs @ ys) =
     insert_outcomes midnight db xs @ insert_outcomes midnight (foldl (store_step midnight) db xs) ys"
  by (induction xs arbitrary: db) simp_all

lemma insert_outcomes_batches: "map fst (insert_outcomes midnight db ops) = inserted ops"
  by (induction ops arbitrary: db) (simp_all add: inserted_def map_filter_simps split: store_op.splits)

lemma stored_rows_append: "stored_rows i (xs @ ys) = stored_rows i xs @ stored_rows (i + int (length xs)) ys"
  by (induction xs arbitrary: i) (simp_all add: algebra_simps)

lemma insert_loop_sequence:
  "insert_loop io midnight n db es = Ok db' \<Longrightarrow> sequence db' = sequence db + int (length es)"
proof (induction es arbitrary: n db)
  case (Cons e es)
  then obtain db1 where "insert_event midnight db e = Ok db1" "insert_loop io midnight (Suc n) db1 es = Ok db'"
    by (auto simp: and_then_Ok_iff split: if_splits)
  with Cons.IH show ?case by (auto elim!: insert_event_Ok)
qed simp

text \<open>
  The log table after any operations: the rows it had and one for each stored event, in this order
  and with consecutive identifiers, less some that a clean-up found too old.
\<close>

definition rows_accounted :: "calendar \<Rightarrow> database \<Rightarrow> store_op list \<Rightarrow> bool" where
  "rows_accounted midnight db ops \<longleftrightarrow>
     (let all = query_logs db @ stored_rows (sequence db) (stored_events midnight db ops);
          rows = query_logs (foldl (store_step midnight) db ops) in
      subseq rows all \<and> (\<forall>x \<in> set all - set rows. \<exists>cutoff \<in> cutoffs ops. lr_timestamp_ms x < cutoff))"

lemma rows_accounted_snoc:
  assumes "rows_accounted midnight db ops"
    and "sequence (foldl (store_step midnight) db ops) = sequence db + int (length (stored_events midnight db ops))"
  shows "rows_accounted midnight db (ops @ [op]) \<and>
    sequence (foldl (store_step midnight) db (ops @ [op])) = sequence db + int (length (stored_events midnight db (ops @ [op])))"
proof (cases op)
  case (St_insert io es)
  let ?db = "foldl (store_step midnight) db ops"
  obtain r db' where ins: "insert_events io midnight ?db es = (r, db')" by fastforce
  have cut: "cutoffs (ops @ [op]) = cutoffs ops" by (auto simp: cutoffs_def St_insert)
  show ?thesis
  proof (cases r)
    case (Inl e)
    with insert_events_cases [OF ins] have "db' = ?db" by auto
    with Inl ins assms cut show ?thesis
      by (simp add: rows_accounted_def stored_events_def insert_outcomes_append St_insert Let_def)
  next
    case (Inr u)
    with insert_events_cases [OF ins] have "insert_loop io midnight 0 ?db es = Ok db'" by auto
    from insert_loop_rows [OF this] insert_loop_sequence [OF this] Inr ins assms cut show ?thesis
      by (auto simp: rows_accounted_def stored_events_def insert_outcomes_append St_insert Let_def stored_rows_append
          simp flip: append_assoc intro: list_emb_append_mono)
  qed
next
  case (St_cleanup io days now)
  let ?db = "foldl (store_step midnight) db ops"
  have same: "stored_events midnight db (ops @ [op]) = stored_events midnight db ops"
    by (simp add: stored_events_def insert_outcomes_append St_cleanup)
  have sub: "cutoffs ops \<subseteq> cutoffs (ops @ [op])" by (auto simp: cutoffs_def)
  obtain r db' where cl: "cleanup io days now ?db = (r, db')" by fastforce
  consider "db' = ?db" | "0 < days" "db' = cleaned (now - int days * STORE_DAY_MS) ?db"
    using cleanup_cases [OF cl] by blast
  then show ?thesis
  proof cases
    case 1
    moreover have "foldl (store_step midnight) db (ops @ [op]) = db'" using cl by (simp add: St_cleanup)
    ultimately show ?thesis using assms sub unfolding rows_accounted_def Let_def same by fastforce
  next
    case 2
    have cutoff: "now - int days * STORE_DAY_MS \<in> cutoffs (ops @ [op])" using 2(1) by (auto simp: cutoffs_def St_cleanup)
    have rows: "query_logs db' = filter (\<lambda>x. \<not> lr_timestamp_ms x < now - int days * STORE_DAY_MS) (query_logs ?db)"
      and seq: "sequence db' = sequence ?db"
      using 2(2) by (simp_all add: cleaned_def delete_logs_def Let_def)
    let ?all = "query_logs db @ stored_rows (sequence db) (stored_events midnight db ops)"
    have old: "subseq (query_logs ?db) ?all" "\<forall>x \<in> set ?all - set (query_logs ?db). \<exists>cutoff \<in> cutoffs ops. lr_timestamp_ms x < cutoff"
      using assms(1) by (simp_all add: rows_accounted_def Let_def)
    have "subseq (query_logs db') (query_logs ?db)" by (simp add: rows)
    then have "subseq (query_logs db') ?all" using old(1) by (rule subseq_order.trans)
    moreover have "\<exists>cutoff \<in> cutoffs (ops @ [op]). lr_timestamp_ms x < cutoff" if "x \<in> set ?all - set (query_logs db')" for x
    proof (cases "x \<in> set (query_logs ?db)")
      case True
      with that have "lr_timestamp_ms x < now - int days * STORE_DAY_MS" by (simp add: rows)
      with cutoff show ?thesis by blast
    next
      case False
      with that old(2) sub show ?thesis by blast
    qed
    moreover have "foldl (store_step midnight) db (ops @ [op]) = db'" using cl by (simp add: St_cleanup)
    ultimately show ?thesis using assms(2) seq unfolding rows_accounted_def Let_def same by simp
  qed
qed

lemma rows_accounted: "rows_accounted midnight db ops"
proof -
  have "rows_accounted midnight db ops \<and>
    sequence (foldl (store_step midnight) db ops) = sequence db + int (length (stored_events midnight db ops))"
  proof (induction ops rule: rev_induct)
    case Nil
    show ?case by (simp add: rows_accounted_def stored_events_def)
  next
    case (snoc op ops)
    then show ?case by (intro rows_accounted_snoc) blast+
  qed
  then show ?thesis by blast
qed

lemma stop_drops_only_when_due:
  assumes "worker_inv r" and "worker_turn midnight days iv io io' ck branch signalled (run_worker r) = Some (w, es)"
    and "wk_phase w = Stopped" and "rec_queue (wk_channel (run_worker r)) \<noteq> []"
  shows "wk_next_cleanup (run_worker r) \<le> wc_instant ck"
  using assms(2)
proof (cases rule: worker_turn_cases)
  case (Write d)
  with assms(1,3) show ?thesis by (auto simp: worker_inv_def split: if_splits)
qed (use assms in auto)

text \<open>C13. Where every event is. In every reachable state of the writer, the batches handed to the
  database, the batch being collected, the queue and the events dropped with the receiver when the
  writer stopped, put together, are exactly the accepted events in the order they were recorded;
  a batch has between 1 and 128 events and the queue never exceeds 4096. Events are dropped with the
  receiver only by the turn that stops the writer, and only when a clean-up is due at that turn. Of
  the batches handed over, each is stored whole or, when the insertion fails, not at all: the log
  table is the one the writer started on followed by one row for each event of the batches that
  succeeded, in this order and with consecutive identifiers, less only rows older than the cutoff
  of some clean-up of the run. The database is exactly what these insertions and clean-ups make of the
  one the writer started on, so a sound database stays sound.\<close>

theorem worker_accounts_for_events:
  assumes "worker_reach midnight days iv r"
  shows "concat (run_written r) @ in_hand (wk_phase (run_worker r)) @ rec_queue (wk_channel (run_worker r)) @ run_lost r = run_accepted r \<and>
    list_all (\<lambda>b. 1 \<le> length b \<and> length b \<le> 128) (run_written r) \<and>
    length (rec_queue (wk_channel (run_worker r))) \<le> 4096 \<and>
    (run_lost r \<noteq> [] \<longrightarrow> wk_phase (run_worker r) = Stopped) \<and>
    (\<forall>io io' ck branch signalled w es.
      worker_turn midnight days iv io io' ck branch signalled (run_worker r) = Some (w, es) \<and> wk_phase w = Stopped \<and>
      rec_queue (wk_channel (run_worker r)) \<noteq> [] \<longrightarrow> wk_next_cleanup (run_worker r) \<le> wc_instant ck) \<and>
    map fst (insert_outcomes midnight (run_initial r) (run_ops r)) = run_written r \<and>
    (let stored = concat (map fst (filter snd (insert_outcomes midnight (run_initial r) (run_ops r))));
         all = query_logs (run_initial r) @ stored_rows (sequence (run_initial r)) stored;
         rows = query_logs (wk_db (run_worker r)) in
     subseq rows all \<and> (\<forall>x \<in> set all - set rows. \<exists>cutoff \<in> cutoffs (run_ops r). lr_timestamp_ms x < cutoff)) \<and>
    wk_db (run_worker r) = foldl (store_step midnight) (run_initial r) (run_ops r) \<and> inserted (run_ops r) = run_written r \<and>
    (calendar_laws midnight \<and> database_inv (run_initial r) \<longrightarrow> database_inv (wk_db (run_worker r)))"
proof -
  have sound: "database_inv (foldl (store_step midnight) db ops)" if "calendar_laws midnight" "database_inv db" for db ops
    using that by (induction ops arbitrary: db) (simp_all add: store_step_inv)
  note db = worker_db_reach [OF assms] and inv = worker_inv_reach [OF assms]
  have "let all = query_logs (run_initial r) @ stored_rows (sequence (run_initial r)) (stored_events midnight (run_initial r) (run_ops r));
         rows = query_logs (wk_db (run_worker r)) in
     subseq rows all \<and> (\<forall>x \<in> set all - set rows. \<exists>cutoff \<in> cutoffs (run_ops r). lr_timestamp_ms x < cutoff)"
    using rows_accounted [of midnight "run_initial r" "run_ops r"] db unfolding rows_accounted_def by simp
  moreover have "map fst (insert_outcomes midnight (run_initial r) (run_ops r)) = run_written r"
    using db by (simp add: insert_outcomes_batches)
  moreover have "list_all (\<lambda>b. 1 \<le> length b \<and> length b \<le> 128) (run_written r)"
    "length (rec_queue (wk_channel (run_worker r))) \<le> 4096"
    using inv by (auto simp: worker_inv_def MAX_BATCH_SIZE_def WORKER_CAPACITY_def list_all_iff Suc_le_eq)
  moreover have "concat (run_written r) @ in_hand (wk_phase (run_worker r)) @ rec_queue (wk_channel (run_worker r)) @ run_lost r = run_accepted r"
    "run_lost r \<noteq> [] \<longrightarrow> wk_phase (run_worker r) = Stopped"
    using inv by (simp_all add: worker_inv_def)
  moreover have "database_inv (wk_db (run_worker r))" if "calendar_laws midnight" "database_inv (run_initial r)"
    using sound [OF that] db by simp
  ultimately show ?thesis
    using db stop_drops_only_when_due [OF inv] unfolding stored_events_def Let_def by blast
qed

section \<open>Stopping\<close>

lemma drained_when_stopped:
  assumes "worker_inv r" and "worker_turn midnight days iv io io' ck branch signalled (run_worker r) = Some (w, es)"
    and "wk_phase w = Stopped" and "wc_instant ck < wk_next_cleanup (run_worker r)"
  shows "concat (run_written r) = run_accepted r"
  using assms(2)
proof (cases rule: worker_turn_cases)
  case (Write d)
  with assms(1,3) show ?thesis by (auto simp: worker_inv_def split: if_splits)
qed (use assms in \<open>auto simp: worker_inv_def\<close>)

text \<open>The inputs of one turn; \<open>select!\<close> goes on waiting when the named branch is not ready, and a
  closed channel always is.\<close>

type_synonym turn_input = "sql_io \<times> sql_io \<times> worker_clock \<times> select_branch \<times> bool"

definition ready_turn :: "calendar \<Rightarrow> nat \<Rightarrow> duration \<Rightarrow> worker_state \<Rightarrow> turn_input \<Rightarrow> worker_state" where
  "ready_turn midnight days iv w = (\<lambda>(io, io', ck, branch, signalled).
     case worker_turn midnight days iv io io' ck branch signalled w of
       Some (w', es) \<Rightarrow> w'
     | None \<Rightarrow> (case worker_turn midnight days iv io io' ck Event_branch signalled w of
          Some (w', es) \<Rightarrow> w' | None \<Rightarrow> w))"

definition turns_left :: "worker_state \<Rightarrow> nat" where
  "turns_left w = (case wk_phase w of
     Stopped \<Rightarrow> 0
   | Idle \<Rightarrow> 2 * length (rec_queue (wk_channel w)) + 1
   | Collecting es d \<Rightarrow> 2 * length (rec_queue (wk_channel w)) + 2)"

lemma turn_progress:
  assumes "channel_closed w" and "worker_turn midnight days iv io io' ck branch signalled w = Some (w', es)"
  shows "channel_closed w' \<and> turns_left w' < turns_left w"
  using assms(2)
proof (cases rule: worker_turn_cases)
  case (Write d)
  with assms(1) show ?thesis by (auto simp: channel_closed_def turns_left_def close_receiver_def)
qed (use assms(1) in \<open>auto simp: channel_closed_def turns_left_def\<close>)

lemma closed_turn_ready:
  assumes "channel_closed w" and "wk_phase w \<noteq> Stopped"
  shows "worker_turn midnight days iv io io' ck Event_branch signalled w \<noteq> None"
  using assms
  by (cases "wk_phase w")
    (auto simp: worker_turn_def first_event_def collect_event_def recv_def Let_def split: list.splits)

lemma ready_turn_progress:
  assumes "channel_closed w"
  shows "channel_closed (ready_turn midnight days iv w x) \<and>
    turns_left (ready_turn midnight days iv w x) \<le> turns_left w - 1"
proof (cases "wk_phase w = Stopped")
  case True
  with assms show ?thesis by (auto simp: ready_turn_def worker_turn_def turns_left_def split: prod.splits)
next
  case False
  obtain io io' ck branch signalled where x: "x = (io, io', ck, branch, signalled)" by (cases x)
  show ?thesis
  proof (cases "worker_turn midnight days iv io io' ck branch signalled w")
    case None
    obtain w' es where "worker_turn midnight days iv io io' ck Event_branch signalled w = Some (w', es)"
      using closed_turn_ready [OF assms False] by fastforce
    with None turn_progress [OF assms this] show ?thesis by (auto simp: ready_turn_def x)
  next
    case (Some y)
    then obtain w' es where "worker_turn midnight days iv io io' ck branch signalled w = Some (w', es)" by (cases y) auto
    with turn_progress [OF assms this] show ?thesis by (auto simp: ready_turn_def x)
  qed
qed

lemma ready_turns_progress:
  "channel_closed w \<Longrightarrow> channel_closed (foldl (ready_turn midnight days iv) w xs) \<and>
     turns_left (foldl (ready_turn midnight days iv) w xs) \<le> turns_left w - length xs"
proof (induction xs arbitrary: w)
  case (Cons x xs)
  let ?w = "ready_turn midnight days iv w x"
  have step: "channel_closed ?w" "turns_left ?w \<le> turns_left w - 1"
    using ready_turn_progress [OF Cons.prems] by blast+
  with Cons.IH [OF step(1)] show ?case by (auto intro: order_trans)
qed simp

text \<open>C12. The writer stops after its channel is closed: whatever the database does and whichever
  ready branch is chosen, it needs at most two turns per queued event and two more; and when it
  stops before a clean-up is due, it has first handed every accepted event to the database.\<close>

theorem worker_drains_and_stops:
  assumes "worker_reach midnight days iv r" and "channel_closed (run_worker r)"
  shows "(2 * length (rec_queue (wk_channel (run_worker r))) + 2 \<le> length xs \<longrightarrow>
      wk_phase (foldl (ready_turn midnight days iv) (run_worker r) xs) = Stopped) \<and>
    (\<forall>io io' ck branch signalled w es.
      worker_turn midnight days iv io io' ck branch signalled (run_worker r) = Some (w, es) \<longrightarrow>
      wk_phase w = Stopped \<longrightarrow> wc_instant ck < wk_next_cleanup (run_worker r) \<longrightarrow>
      concat (run_written r) = run_accepted r)"
proof (intro conjI impI allI)
  let ?q = "length (rec_queue (wk_channel (run_worker r)))"
  assume "2 * ?q + 2 \<le> length xs"
  moreover have "turns_left (run_worker r) \<le> 2 * ?q + 2" by (auto simp: turns_left_def split: worker_phase.splits)
  ultimately have "turns_left (foldl (ready_turn midnight days iv) (run_worker r) xs) = 0"
    using ready_turns_progress [OF assms(2), of midnight days iv xs] by linarith
  then show "wk_phase (foldl (ready_turn midnight days iv) (run_worker r) xs) = Stopped"
    by (auto simp: turns_left_def split: worker_phase.splits)
next
  fix io io' ck branch signalled w es
  assume "worker_turn midnight days iv io io' ck branch signalled (run_worker r) = Some (w, es)"
    and "wk_phase w = Stopped" and "wc_instant ck < wk_next_cleanup (run_worker r)"
  then show "concat (run_written r) = run_accepted r"
    by (rule drained_when_stopped [OF worker_inv_reach [OF assms(1)]])
qed


section \<open>A concrete run\<close>

definition worker_clock_at :: "instant \<Rightarrow> worker_clock" where
  "worker_clock_at t = \<lparr>wc_instant = t, wc_utc_ms = 1000\<rparr>"

definition run_start :: worker_run where
  "run_start = \<lparr>run_worker = worker_init True sample_io 0 10 (worker_clock_at 0) empty_database (recorder_channel WORKER_CAPACITY),
     run_accepted = [], run_written = [], run_lost = [], run_initial = empty_database, run_ops = [St_cleanup sample_io 0 1000]\<rparr>"

text \<open>One event is recorded, then the last sender goes away.\<close>

definition run_closed :: worker_run where
  "run_closed = \<lparr>run_worker = (run_worker run_start)\<lparr>wk_senders_gone := True,
       wk_channel := (recorder_channel WORKER_CAPACITY)\<lparr>rec_queue := [sample_event 1000 ''a.test'' True]\<rparr>\<rparr>,
     run_accepted = [sample_event 1000 ''a.test'' True], run_written = [], run_lost = [],
     run_initial = empty_database, run_ops = [St_cleanup sample_io 0 1000]\<rparr>"

lemma run_closed_reach: "worker_reach utc_midnight 0 10 run_closed"
proof -
  let ?e = "sample_event 1000 ''a.test'' True"
  have "worker_reach utc_midnight 0 10 run_start"
    using worker_start [of utc_midnight 0 10 True sample_io "worker_clock_at 0" empty_database]
    by (simp add: run_start_def worker_clock_at_def)
  moreover have "worker_step utc_midnight 0 10 run_start
      (run_start\<lparr>run_worker := (run_worker run_start)\<lparr>wk_channel := try_record ?e (wk_channel (run_worker run_start))\<rparr>,
        run_accepted := run_accepted run_start @ (if fst (try_send ?e (wk_channel (run_worker run_start))) = Sent then [?e] else [])\<rparr>)"
    (is "worker_step _ _ _ _ ?r")
    by (rule record_event) (simp add: run_start_def worker_init_def)
  moreover have "worker_step utc_midnight 0 10 ?r (?r\<lparr>run_worker := (run_worker ?r)\<lparr>wk_senders_gone := True\<rparr>\<rparr>)"
    by (rule drop_senders)
  moreover have "?r\<lparr>run_worker := (run_worker ?r)\<lparr>wk_senders_gone := True\<rparr>\<rparr> = run_closed"
    by (simp add: run_start_def run_closed_def worker_init_def try_record_def try_send_def recorder_channel_def WORKER_CAPACITY_def)
  ultimately show ?thesis by (metis worker_more)
qed

theorem worker_accounts_for_events_witness:
  "in_hand (wk_phase (run_worker run_closed)) @ rec_queue (wk_channel (run_worker run_closed)) @ run_lost run_closed =
     run_accepted run_closed"
  using worker_accounts_for_events [OF run_closed_reach] by (simp add: run_closed_def)

lemma run_closed_channel: "channel_closed (run_worker run_closed)"
  by (simp add: run_closed_def channel_closed_def)

theorem worker_drains_and_stops_witness:
  "wk_phase (foldl (ready_turn utc_midnight 0 10) (run_worker run_closed)
     (replicate 4 (sample_io, sample_io, worker_clock_at 0, Event_branch, False))) = Stopped"
  using worker_drains_and_stops [OF run_closed_reach run_closed_channel]
  by (simp add: run_closed_def)

text \<open>C40. The exception: when the clean-up is due at the moment the channel is closed and
  \<open>select!\<close> takes that branch, the iteration has no event, finds the channel closed and ends
  the worker although an accepted event is still queued. The event is dropped with the receiver: it
  is not handed to the database, and the log stays empty.\<close>

theorem worker_can_drop_queue:
  "\<exists>r. worker_reach utc_midnight 0 10 r \<and> wk_phase (run_worker r) = Stopped \<and>
     run_accepted r = [sample_event 1000 ''a.test'' True] \<and> run_lost r = [sample_event 1000 ''a.test'' True] \<and>
     run_written r = [] \<and> query_logs (wk_db (run_worker r)) = []"
proof -
  let ?w = "run_worker run_closed"
  have ready: "first_event Cleanup_branch False 10 ?w = Some (None, ?w)" and idle: "wk_phase ?w = Idle"
    by (simp_all add: first_event_def run_closed_def run_start_def worker_init_def worker_clock_at_def)
  let ?f = "finish_iteration utc_midnight sample_io sample_io (worker_clock_at 10) 0 10 [] ?w"
  have "worker_turn utc_midnight 0 10 sample_io sample_io (worker_clock_at 10) Cleanup_branch False ?w = Some (?f, [])"
    using ready idle by (simp add: worker_turn_def worker_clock_at_def)
  from worker_more [OF run_closed_reach turn [OF this]] run_closed_channel
  obtain ops where reach: "worker_reach utc_midnight 0 10
      (run_closed\<lparr>run_worker := ?f, run_lost := [sample_event 1000 ''a.test'' True], run_ops := ops\<rparr>)"
    by (auto simp: run_closed_def)
  have "query_logs (wk_db ?f) = []"
    by (simp add: finish_iteration_def write_batch_def clean_if_due_def Let_def cleanup_def run_closed_def run_start_def
        worker_init_def empty_database_def)
  with reach run_closed_channel show ?thesis
    by (intro exI [of _ "run_closed\<lparr>run_worker := ?f, run_lost := [sample_event 1000 ''a.test'' True], run_ops := ops\<rparr>"])
      (auto simp: run_closed_def)
qed

section \<open>The handle\<close>

text \<open>
  \<open>StoreWorker\<close>: which of its four parts are still there, and what its methods do to the thread.
  \<open>recv_timeout\<close>, \<open>join\<close> and the spawning of the reaper succeed or fail as the environment says.
\<close>

record store_worker =
  sw_recorder :: bool
  sw_shutdown :: bool
  sw_thread :: bool
  sw_stopped :: bool

datatype worker_effect =
    Signalled_shutdown | Dropped_shutdown | Joined | Warned_panic | Warned_timeout
  | Reaper_holds bool | Warned_no_reaper

definition worker_started :: store_worker where
  "worker_started = \<lparr>sw_recorder = True, sw_shutdown = True, sw_thread = True, sw_stopped = True\<rparr>"

text \<open>Starting: \<open>spawned\<close> tells whether the thread could be created; the channel it reads is the recorder's.\<close>

definition worker_start_handle :: "bool \<Rightarrow> (store_worker \<times> recorder) option" where
  "worker_start_handle spawned = (if spawned then Some (worker_started, recorder_channel WORKER_CAPACITY) else None)"

text \<open>The recorder of a handle; without one it is a panic, the value \<open>None\<close>.\<close>

definition worker_recorder :: "store_worker \<times> recorder \<Rightarrow> recorder option" where
  "worker_recorder h = (if sw_recorder (fst h) then Some (snd h) else None)"

text \<open>\<open>stopped\<close> is the time after which the thread reports its end, if it does.\<close>

definition stopped_in_time :: "duration option \<Rightarrow> bool" where
  "stopped_in_time stopped = (case stopped of None \<Rightarrow> False | Some d \<Rightarrow> d \<le> SHUTDOWN_TIMEOUT)"

definition worker_stop :: "duration option \<Rightarrow> bool \<Rightarrow> store_worker \<Rightarrow> worker_effect list \<times> store_worker" where
  "worker_stop stopped join_ok h =
     ((if sw_shutdown h then [Signalled_shutdown] else []) @
      (if sw_stopped h \<and> stopped_in_time stopped
       then (if sw_thread h then [if join_ok then Joined else Warned_panic] else [])
       else (if sw_thread h then [Warned_timeout] else [])),
      \<lparr>sw_recorder = False, sw_shutdown = False, sw_thread = False, sw_stopped = False\<rparr>)"

definition spawn_reaper :: "bool \<Rightarrow> store_worker \<Rightarrow> worker_effect list \<times> store_worker" where
  "spawn_reaper spawned h =
     (let dropped = (if sw_shutdown h then [Dropped_shutdown] else []) in
      if \<not> sw_thread h then (dropped, h\<lparr>sw_shutdown := False\<rparr>)
      else if \<not> sw_stopped h then (dropped, h\<lparr>sw_shutdown := False, sw_thread := False\<rparr>)
      else (if spawned then [Reaper_holds (sw_shutdown h)] else dropped @ [Warned_no_reaper],
            h\<lparr>sw_shutdown := False, sw_thread := False, sw_stopped := False\<rparr>))"

text \<open>The reaper: it keeps the sender until the thread has ended, then joins the thread.\<close>

definition reap_store_worker :: "bool \<Rightarrow> bool \<Rightarrow> worker_effect list" where
  "reap_store_worker holds join_ok =
     (if join_ok then [Joined] else [Warned_panic]) @ (if holds then [Dropped_shutdown] else [])"

definition worker_drop :: "bool \<Rightarrow> store_worker \<Rightarrow> worker_effect list \<times> store_worker" where
  "worker_drop spawned h = spawn_reaper spawned (h\<lparr>sw_recorder := False\<rparr>)"

text \<open>\<open>shutdown\<close> and \<open>detach\<close> take the handle by value, so it is dropped when they return.\<close>

definition worker_shutdown :: "duration option \<Rightarrow> bool \<Rightarrow> bool \<Rightarrow> store_worker \<Rightarrow> worker_effect list" where
  "worker_shutdown stopped join_ok spawned h =
     (let (e1, h) = worker_stop stopped join_ok h; (e2, h) = worker_drop spawned h in e1 @ e2)"

definition detach :: "bool \<Rightarrow> store_worker \<Rightarrow> worker_effect list" where
  "detach spawned h =
     (let h = h\<lparr>sw_recorder := False\<rparr>; (e1, h) = spawn_reaper spawned h; (e2, h) = worker_drop spawned h in e1 @ e2)"

text \<open>
  Shutting down signals the thread exactly once and never leaves a reaper behind; detaching
  never signals it: the reaper keeps the sender until the thread ends by itself.
\<close>

lemma worker_shutdown_effects:
  "worker_shutdown stopped join_ok spawned worker_started =
     [Signalled_shutdown, if stopped_in_time stopped then (if join_ok then Joined else Warned_panic) else Warned_timeout]"
  by (simp add: worker_shutdown_def worker_stop_def worker_drop_def spawn_reaper_def worker_started_def Let_def)

lemma detach_effects:
  "detach spawned worker_started = (if spawned then [Reaper_holds True] else [Dropped_shutdown, Warned_no_reaper])"
  by (simp add: detach_def worker_drop_def spawn_reaper_def worker_started_def Let_def)

end
