(* ===== verification/Store_Schema.thy ===== *)
theory Store_Schema
  imports Store
begin

text \<open>
  Opening the database file (\<open>src/dashboard/store.rs\<close>): creation, migration and validation of the
  schema. A catalog is what the pragmas \<open>user_version\<close>, \<open>table_info\<close>, \<open>foreign_key_list\<close>,
  \<open>index_list\<close> and \<open>index_info\<close> report; names that SQLite may report as \<open>NULL\<close> are options. What
  SQLite makes of a statement is the environment's: whether it succeeds, and which identifier the
  probing insertion of \<open>validate_schema_behavior\<close> reads back.
\<close>

definition SCHEMA_VERSION :: int where
  "SCHEMA_VERSION = 2"

record column =
  c_name :: string
  c_type :: string
  c_not_null :: bool
  c_pk :: nat

record foreign_key =
  fk_table :: string
  fk_from :: string
  fk_to :: "string option"
  fk_on_delete :: string

record catalog =
  cat_journal :: string
  cat_version :: int
  cat_tables :: "(string \<times> column list) list"
  cat_foreign_keys :: "foreign_key list"
  cat_indexes :: "(string \<times> string \<times> string option list) list"

datatype schema_error =
    Sql_error | Newer_schema int | Missing_table string | Bad_primary_key string
  | Missing_column string string | Bad_column string string | No_cascade
  | Missing_index string | Bad_index string | Probe_failed | Not_rowid_alias

record probe_io =
  pb_statement :: "nat \<Rightarrow> bool"
  pb_stored_id :: "int \<Rightarrow> int option"
  pb_rollback :: bool

record schema_io =
  si_connect :: bool
  si_create :: bool
  si_migrate :: bool
  si_probe :: probe_io

text \<open>The file: its schema and its rows.\<close>

record disk =
  dk_catalog :: catalog
  dk_data :: database

section \<open>Definitions\<close>

abbreviation col :: "string \<Rightarrow> string \<Rightarrow> bool \<Rightarrow> nat \<Rightarrow> column" where
  "col n t nn pk \<equiv> \<lparr>c_name = n, c_type = t, c_not_null = nn, c_pk = pk\<rparr>"

definition stats_columns :: "column list" where
  "stats_columns = [col ''bucket_ms'' ''INTEGER'' False 1, col ''total_queries'' ''INTEGER'' True 0,
     col ''blocked_queries'' ''INTEGER'' True 0, col ''cache_hits'' ''INTEGER'' True 0]"

definition required_columns :: "(string \<times> column list) list" where
  "required_columns =
     [(''query_logs'', [col ''id'' ''INTEGER'' False 1, col ''timestamp_ms'' ''INTEGER'' True 0,
        col ''domain'' ''TEXT'' True 0, col ''query_type'' ''TEXT'' True 0, col ''response_code'' ''TEXT'' True 0,
        col ''duration_ms'' ''INTEGER'' True 0, col ''blocked'' ''INTEGER'' True 0,
        col ''cache_hit'' ''INTEGER'' True 0, col ''upstream'' ''TEXT'' False 0]),
      (''query_response_ips'', [col ''query_id'' ''INTEGER'' True 1, col ''ip'' ''TEXT'' True 2]),
      (''query_hourly_stats'', stats_columns),
      (''query_daily_stats'', stats_columns)]"

definition required_indexes :: "(string \<times> string \<times> string list) list" where
  "required_indexes =
     [(''query_logs'', ''query_logs_time_idx'', [''timestamp_ms'', ''id'']),
      (''query_logs'', ''query_logs_domain_idx'', [''domain'']),
      (''query_response_ips'', ''query_response_ips_ip_idx'', [''ip''])]"

text \<open>The batch of \<open>CREATE\<close> statements for an empty file, as the pragmas then report it.\<close>

definition created_tables :: "(string \<times> column list) list" where
  "created_tables =
     [(''query_logs'', [col ''id'' ''INTEGER'' False 1, col ''timestamp_ms'' ''INTEGER'' True 0,
        col ''domain'' ''TEXT'' True 0, col ''query_type'' ''TEXT'' True 0, col ''response_code'' ''TEXT'' True 0,
        col ''duration_ms'' ''INTEGER'' True 0, col ''blocked'' ''INTEGER'' True 0,
        col ''cache_hit'' ''INTEGER'' True 0, col ''upstream'' ''TEXT'' False 0]),
      (''query_response_ips'', [col ''query_id'' ''INTEGER'' True 1, col ''ip'' ''TEXT'' True 2]),
      (''query_hourly_stats'', [col ''bucket_ms'' ''INTEGER'' False 1, col ''total_queries'' ''INTEGER'' True 0,
        col ''blocked_queries'' ''INTEGER'' True 0, col ''cache_hits'' ''INTEGER'' True 0]),
      (''query_daily_stats'', [col ''bucket_ms'' ''INTEGER'' False 1, col ''total_queries'' ''INTEGER'' True 0,
        col ''blocked_queries'' ''INTEGER'' True 0, col ''cache_hits'' ''INTEGER'' True 0])]"

definition table_exists :: "catalog \<Rightarrow> string \<Rightarrow> bool" where
  "table_exists cat t \<longleftrightarrow> t \<in> fst ` set (cat_tables cat)"

definition create_schema :: "catalog \<Rightarrow> catalog option" where
  "create_schema cat =
     (if list_ex (\<lambda>(t, cs). table_exists cat t) created_tables \<or>
         list_ex (\<lambda>i. i \<in> (\<lambda>(t, i, cs). i) ` set (cat_indexes cat))
           [''query_logs_time_idx'', ''query_logs_domain_idx'', ''query_response_ips_ip_idx'']
      then None
      else Some (cat\<lparr>cat_version := 2, cat_tables := cat_tables cat @ created_tables,
        cat_foreign_keys := [\<lparr>fk_table = ''query_logs'', fk_from = ''query_id'', fk_to = Some ''id'', fk_on_delete = ''CASCADE''\<rparr>],
        cat_indexes := cat_indexes cat @
          [(''query_logs'', ''query_logs_time_idx'', [Some ''timestamp_ms'', Some ''id'']),
           (''query_logs'', ''query_logs_domain_idx'', [Some ''domain'']),
           (''query_response_ips'', ''query_response_ips_ip_idx'', [Some ''ip''])]\<rparr>))"

definition add_column :: "string \<Rightarrow> column \<Rightarrow> catalog \<Rightarrow> catalog" where
  "add_column t c cat = cat\<lparr>cat_tables := map (\<lambda>(n, cs). (n, if n = t then cs @ [c] else cs)) (cat_tables cat)\<rparr>"

definition migrate_to_current :: "catalog \<Rightarrow> catalog" where
  "migrate_to_current cat =
     (let cat = (case map_of (cat_tables cat) ''query_logs'' of
                   None \<Rightarrow> cat
                 | Some columns \<Rightarrow>
                     if list_ex (\<lambda>c. c_name c = ''upstream'') columns then cat
                     else add_column ''query_logs'' (col ''upstream'' ''TEXT'' False 0) cat)
      in cat\<lparr>cat_version := SCHEMA_VERSION\<rparr>)"

definition validate_primary_key_columns ::
  "string \<Rightarrow> (nat \<times> string) list \<Rightarrow> (nat \<times> string) list \<Rightarrow> (unit, schema_error) result" where
  "validate_primary_key_columns tbl actual expected =
     (if length actual = length expected \<and>
         list_all (\<lambda>((ao, an), (eo, en)). ao = eo \<and> eq_ignore_ascii_case an en) (zip actual expected)
      then Ok () else Err (Bad_primary_key tbl))"

definition validate_column :: "string \<Rightarrow> column list \<Rightarrow> column \<Rightarrow> (unit, schema_error) result" where
  "validate_column tbl columns req =
     (case find (\<lambda>c. c_name c = c_name req) columns of
        None \<Rightarrow> Err (Missing_column tbl (c_name req))
      | Some c \<Rightarrow>
          if \<not> eq_ignore_ascii_case (c_type c) (c_type req) \<or> (c_not_null req \<and> \<not> c_not_null c) \<or> c_pk c \<noteq> c_pk req
          then Err (Bad_column tbl (c_name req)) else Ok ())"

definition primary_key :: "column list \<Rightarrow> (nat \<times> string) list" where
  "primary_key columns = map (\<lambda>c. (c_pk c, c_name c)) (filter (\<lambda>c. c_pk c > 0) columns)"

definition validate_table :: "catalog \<Rightarrow> string \<times> column list \<Rightarrow> (unit, schema_error) result" where
  "validate_table cat = (\<lambda>(tbl, expected). case map_of (cat_tables cat) tbl of
     None \<Rightarrow> Err (Missing_table tbl)
   | Some columns \<Rightarrow>
       and_then (validate_primary_key_columns tbl (sort_key fst (primary_key columns)) (primary_key expected)) (\<lambda>_.
       and_then (collect_results (validate_column tbl columns) expected) (\<lambda>_. Ok ())))"

definition has_cascade :: "foreign_key list \<Rightarrow> (bool, schema_error) result" where
  "has_cascade fks =
     (if list_ex (\<lambda>k. fk_to k = None) fks then Err Sql_error
      else Ok (list_ex (\<lambda>k. fk_table k = ''query_logs'' \<and> fk_from k = ''query_id'' \<and> fk_to k = Some ''id'' \<and>
             eq_ignore_ascii_case (fk_on_delete k) ''CASCADE'') fks))"

definition validate_index :: "catalog \<Rightarrow> string \<times> string \<times> string list \<Rightarrow> (unit, schema_error) result" where
  "validate_index cat = (\<lambda>(tbl, idx, expected).
     case find (\<lambda>(t, i, cs). t = tbl \<and> i = idx) (cat_indexes cat) of
       None \<Rightarrow> Err (Missing_index idx)
     | Some (t, i, columns) \<Rightarrow>
         if None \<in> set columns then Err Sql_error
         else if columns \<noteq> map Some expected then Err (Bad_index idx) else Ok ())"

text \<open>
  The probe: a log row, an address of it, and a row in each of the aggregate tables, inside a
  savepoint that is rolled back whatever came of them.
\<close>

definition probe_event :: query_event where
  "probe_event = \<lparr>timestamp_ms = 0, domain = ''schema-probe.invalid'', query_type = ''A'', response_code_text = ''NOERROR'',
     duration_ms = 0, ev_blocked = False, ev_cache_hit = False, response_ips = [''192.0.2.1''], ev_upstream = None\<rparr>"

definition probe_inserts :: "probe_io \<Rightarrow> database \<Rightarrow> (database, schema_error) result" where
  "probe_inserts P db =
     (if \<not> pb_statement P 1 then Err Probe_failed
      else and_then (ok_or Probe_failed (insert_log probe_event 0 db)) (\<lambda>(i, db).
        and_then (ok_or Probe_failed (pb_stored_id P i)) (\<lambda>stored_id.
        if stored_id \<noteq> i then Err Not_rowid_alias
        else if \<not> pb_statement P 2 \<or> (i, ''192.0.2.1'') \<in> set (query_response_ips db) then Err Probe_failed
        else let db = insert_ip i db ''192.0.2.1'' in
          if \<not> pb_statement P 3 then Err Probe_failed
          else let db = db\<lparr>query_hourly_stats := upsert 0 False False (query_hourly_stats db)\<rparr> in
            if \<not> pb_statement P 4 then Err Probe_failed
            else Ok (db\<lparr>query_daily_stats := upsert 0 False False (query_daily_stats db)\<rparr>))))"

definition validate_schema_behavior :: "probe_io \<Rightarrow> database \<Rightarrow> (unit, schema_error) result \<times> database" where
  "validate_schema_behavior P db =
     (if \<not> pb_statement P 0 then (Err Sql_error, db)
      else let result = and_then (probe_inserts P db) (\<lambda>_. Ok ()) in
        if \<not> pb_rollback P then (Err Sql_error, db) else (result, db))"

definition validate_schema :: "probe_io \<Rightarrow> database \<Rightarrow> catalog \<Rightarrow> (unit, schema_error) result \<times> database" where
  "validate_schema P db cat =
     (case and_then (collect_results (validate_table cat) required_columns) (\<lambda>_.
           and_then (has_cascade (cat_foreign_keys cat)) (\<lambda>cascade.
           if \<not> cascade then Err No_cascade
           else and_then (collect_results (validate_index cat) required_indexes) (\<lambda>_. Ok ()))) of
        Err e \<Rightarrow> (Err e, db)
      | Ok _ \<Rightarrow> validate_schema_behavior P db)"

text \<open>\<open>Store::open\<close>: the result and the file afterwards.\<close>

definition store_open :: "schema_io \<Rightarrow> disk \<Rightarrow> (unit, schema_error) result \<times> disk" where
  "store_open io dk =
     (let cat = dk_catalog dk; db = dk_data dk;
          validated = (\<lambda>cat. case validate_schema (si_probe io) db cat of (r, db) \<Rightarrow> (r, \<lparr>dk_catalog = cat, dk_data = db\<rparr>));
          failed = (\<lambda>e cat. (Err e, \<lparr>dk_catalog = cat, dk_data = db\<rparr>)) in
      if \<not> si_connect io then failed Sql_error cat
      else let cat = (if eq_ignore_ascii_case (cat_journal cat) ''wal'' then cat else cat\<lparr>cat_journal := ''wal''\<rparr>) in
        if cat_version cat > SCHEMA_VERSION then failed (Newer_schema (cat_version cat)) cat
        else if cat_version cat = 0
        then (case (if si_create io then create_schema cat else None) of
                None \<Rightarrow> failed Sql_error cat
              | Some cat \<Rightarrow> validated cat)
        else if cat_version cat < SCHEMA_VERSION
        then (if \<not> si_migrate io then failed Sql_error cat else validated (migrate_to_current cat))
        else validated cat)"

text \<open>The probe leaves no trace.\<close>

lemma probe_rolled_back [simp]: "snd (validate_schema_behavior P db) = db" "snd (validate_schema P db cat) = db"
  by (auto simp: validate_schema_behavior_def validate_schema_def Let_def split: sum.splits)

definition probe_ok :: "probe_io \<Rightarrow> database \<Rightarrow> bool" where
  "probe_ok P db \<longleftrightarrow> (\<forall>n \<le> 4. pb_statement P n) \<and> pb_rollback P \<and> in_i64 (sequence db + 1) \<and>
     pb_stored_id P (sequence db + 1) = Some (sequence db + 1) \<and> (sequence db + 1, ''192.0.2.1'') \<notin> set (query_response_ips db)"

lemma probe_ok_iff: "fst (validate_schema_behavior P db) = Ok () \<longleftrightarrow> probe_ok P db"
proof -
  have "(\<forall>n \<le> 4. pb_statement P n) \<longleftrightarrow> pb_statement P 0 \<and> pb_statement P 1 \<and> pb_statement P 2 \<and> pb_statement P 3 \<and> pb_statement P 4"
    by (auto simp: le_Suc_eq numeral_eq_Suc)
  then show ?thesis
    by (auto simp: validate_schema_behavior_def probe_inserts_def insert_log_def probe_ok_def and_then_Ok_iff Let_def split: if_splits)
qed

section \<open>What validation accepts\<close>

lemma collect_results_unit_Ok:
  "(\<exists>us. collect_results f xs = Ok us) \<longleftrightarrow> list_all (\<lambda>x. is_ok (f x)) xs"
proof (induction xs)
  case (Cons x xs)
  then show ?case by (cases "f x") (auto simp: and_then_Ok_iff)
qed simp

lemma is_ok_collect: "is_ok (collect_results f xs) \<longleftrightarrow> list_all (\<lambda>x. is_ok (f x)) xs"
  by (simp add: is_ok_iff [of "collect_results f xs"] collect_results_unit_Ok)

lemma and_then_unit_Ok: "and_then r (\<lambda>_. s) = Ok u \<longleftrightarrow> is_ok r \<and> s = Ok u"
  by (auto simp: and_then_Ok_iff is_ok_iff)

lemma is_ok_and_then: "is_ok (and_then r (\<lambda>_. s)) \<longleftrightarrow> is_ok r \<and> is_ok s"
  by (cases r) auto

definition column_fits :: "column list \<Rightarrow> column \<Rightarrow> bool" where
  "column_fits columns req \<longleftrightarrow> (\<exists>c. find (\<lambda>c. c_name c = c_name req) columns = Some c \<and>
     eq_ignore_ascii_case (c_type c) (c_type req) \<and> (c_not_null req \<longrightarrow> c_not_null c) \<and> c_pk c = c_pk req)"

definition key_fits :: "column list \<Rightarrow> column list \<Rightarrow> bool" where
  "key_fits columns expected \<longleftrightarrow> list_all2 (\<lambda>a e. fst a = fst e \<and> eq_ignore_ascii_case (snd a) (snd e))
     (sort_key fst (primary_key columns)) (primary_key expected)"

lemma validate_column_ok: "is_ok (validate_column tbl columns req) \<longleftrightarrow> column_fits columns req"
  by (auto simp: validate_column_def column_fits_def split: option.splits)

lemma validate_key_ok:
  "is_ok (validate_primary_key_columns tbl (sort_key fst (primary_key columns)) (primary_key expected)) \<longleftrightarrow> key_fits columns expected"
  by (simp add: validate_primary_key_columns_def key_fits_def list_all2_iff list_all_iff split_beta)

lemma validate_table_ok:
  "is_ok (validate_table cat (tbl, expected)) \<longleftrightarrow>
     (\<exists>columns. map_of (cat_tables cat) tbl = Some columns \<and> key_fits columns expected \<and> list_all (column_fits columns) expected)"
  by (auto simp: validate_table_def is_ok_and_then is_ok_collect validate_key_ok validate_column_ok split: option.splits)

lemma validate_schema_ok:
  "fst (validate_schema P db cat) = Ok u \<longleftrightarrow> list_all (\<lambda>t. is_ok (validate_table cat t)) required_columns \<and>
     has_cascade (cat_foreign_keys cat) = Ok True \<and>
     list_all (\<lambda>i. is_ok (validate_index cat i)) required_indexes \<and> probe_ok P db"
proof -
  let ?r = "and_then (collect_results (validate_table cat) required_columns) (\<lambda>_.
     and_then (has_cascade (cat_foreign_keys cat)) (\<lambda>cascade.
     if \<not> cascade then Err No_cascade
     else and_then (collect_results (validate_index cat) required_indexes) (\<lambda>_. Ok ())))"
  have "and_then (has_cascade (cat_foreign_keys cat)) (\<lambda>c. if \<not> c then Err No_cascade else r) = Ok () \<longleftrightarrow>
      has_cascade (cat_foreign_keys cat) = Ok True \<and> r = Ok ()" for r :: "(unit, schema_error) result"
    by (cases "has_cascade (cat_foreign_keys cat)") auto
  then have "?r = Ok () \<longleftrightarrow> list_all (\<lambda>t. is_ok (validate_table cat t)) required_columns \<and>
     has_cascade (cat_foreign_keys cat) = Ok True \<and> list_all (\<lambda>i. is_ok (validate_index cat i)) required_indexes"
    by (simp add: and_then_unit_Ok is_ok_collect)
  moreover have "fst (validate_schema P db cat) = Ok u \<longleftrightarrow> ?r = Ok () \<and> fst (validate_schema_behavior P db) = Ok ()"
    by (simp add: validate_schema_def split: sum.splits)
  ultimately show ?thesis by (simp add: probe_ok_iff)
qed

section \<open>Migration\<close>

definition upstream_column :: column where
  "upstream_column = col ''upstream'' ''TEXT'' False 0"

lemma find_append_other: "find P xs = Some y \<Longrightarrow> find P (xs @ ys) = Some y"
  by (induction xs) auto

lemma column_fits_append: "column_fits cs req \<Longrightarrow> column_fits (cs @ ds) req"
  by (auto simp: column_fits_def find_append_other)

lemma upstream_fits: "\<not> list_ex (\<lambda>c. c_name c = ''upstream'') cs \<Longrightarrow> column_fits (cs @ [upstream_column]) upstream_column"
proof -
  assume "\<not> list_ex (\<lambda>c. c_name c = ''upstream'') cs"
  then have "find (\<lambda>c. c_name c = ''upstream'') (cs @ [upstream_column]) = Some upstream_column"
    by (induction cs) (auto simp: upstream_column_def)
  then show ?thesis by (simp add: column_fits_def upstream_column_def eq_ignore_ascii_case_def)
qed

lemma key_fits_append: "key_fits cs expected \<Longrightarrow> key_fits (cs @ [upstream_column]) expected"
  by (simp add: key_fits_def primary_key_def upstream_column_def)

lemma map_of_add_column:
  "map_of (cat_tables (add_column t c cat)) n =
     (case map_of (cat_tables cat) n of None \<Rightarrow> None | Some cs \<Rightarrow> Some (if n = t then cs @ [c] else cs))"
proof -
  have "map_of (map (\<lambda>(n, cs). (n, if n = t then cs @ [c] else cs)) ts) n =
      (case map_of ts n of None \<Rightarrow> None | Some cs \<Rightarrow> Some (if n = t then cs @ [c] else cs))" for ts
    by (induction ts) auto
  then show ?thesis by (simp add: add_column_def)
qed

text \<open>What a version 1 file has: everything but the column.\<close>

definition v1_columns :: "(string \<times> column list) list" where
  "v1_columns = map (\<lambda>(t, cs). (t, filter (\<lambda>c. c_name c \<noteq> ''upstream'') cs)) required_columns"

lemma required_split:
  "required_columns = (''query_logs'', snd (hd v1_columns) @ [upstream_column]) # tl v1_columns"
  "fst (hd v1_columns) = ''query_logs''" "v1_columns = hd v1_columns # tl v1_columns"
  "list_all (\<lambda>(t, cs). t \<noteq> ''query_logs'') (tl v1_columns)"
  by (simp_all add: required_columns_def v1_columns_def upstream_column_def stats_columns_def)

lemma primary_key_upstream: "primary_key (cs @ [upstream_column]) = primary_key cs"
  by (simp add: primary_key_def upstream_column_def)

lemma migrate_frame [simp]:
  "cat_version (migrate_to_current cat) = 2"
  "cat_foreign_keys (migrate_to_current cat) = cat_foreign_keys cat"
  "cat_indexes (migrate_to_current cat) = cat_indexes cat"
  "cat_journal (migrate_to_current cat) = cat_journal cat"
  by (auto simp: migrate_to_current_def SCHEMA_VERSION_def add_column_def Let_def split: option.splits)

lemma migrate_tables:
  "map_of (cat_tables (migrate_to_current cat)) t =
     (if t = ''query_logs'' then map_option (\<lambda>cs. if list_ex (\<lambda>c. c_name c = ''upstream'') cs then cs else cs @ [upstream_column])
        (map_of (cat_tables cat) t)
      else map_of (cat_tables cat) t)"
  by (auto simp: migrate_to_current_def map_of_add_column upstream_column_def Let_def split: option.splits)

lemma migrate_validates:
  assumes "list_all (\<lambda>t. is_ok (validate_table cat t)) v1_columns"
    and "\<forall>cs. map_of (cat_tables cat) ''query_logs'' = Some cs \<longrightarrow> \<not> list_ex (\<lambda>c. c_name c = ''upstream'') cs"
  shows "list_all (\<lambda>t. is_ok (validate_table (migrate_to_current cat) t)) required_columns"
proof -
  obtain logs where logs: "v1_columns = (''query_logs'', logs) # tl v1_columns" "snd (hd v1_columns) = logs"
    using required_split(2,3) by (metis prod.collapse)
  have heads: "is_ok (validate_table cat (''query_logs'', logs))" and rest: "list_all (\<lambda>t. is_ok (validate_table cat t)) (tl v1_columns)"
    using assms(1) by (subst (asm) logs(1), simp)+
  from heads obtain cs where cs: "map_of (cat_tables cat) ''query_logs'' = Some cs" "key_fits cs logs" "list_all (column_fits cs) logs"
    by (auto simp: validate_table_ok)
  have up: "\<not> list_ex (\<lambda>c. c_name c = ''upstream'') cs" using assms(2) cs(1) by blast
  have "is_ok (validate_table (migrate_to_current cat) (''query_logs'', logs @ [upstream_column]))"
    using cs up upstream_fits [OF up] column_fits_append
    by (auto simp: validate_table_ok migrate_tables list_all_iff key_fits_def primary_key_upstream)
  moreover have "is_ok (validate_table (migrate_to_current cat) t)" if "t \<in> set (tl v1_columns)" for t
  proof -
    obtain n cs where t: "t = (n, cs)" by (cases t)
    have "n \<noteq> ''query_logs''" "is_ok (validate_table cat (n, cs))"
      using that rest required_split(4) unfolding t list_all_iff by auto
    then show ?thesis by (simp add: t validate_table_ok migrate_tables)
  qed
  ultimately show ?thesis by (subst required_split(1)) (auto simp: logs(2) list_all_iff)
qed

lemma validate_index_cong: "cat_indexes cat = cat_indexes cat' \<Longrightarrow> validate_index cat = validate_index cat'"
  by (simp add: validate_index_def)


section \<open>Opening\<close>

lemma open_version_2:
  assumes "si_connect io" and "eq_ignore_ascii_case (cat_journal (dk_catalog dk)) ''wal''" and "cat_version (dk_catalog dk) = 2"
  shows "store_open io dk = (fst (validate_schema (si_probe io) (dk_data dk) (dk_catalog dk)), dk)"
  using assms by (simp add: store_open_def SCHEMA_VERSION_def split_beta Let_def)

text \<open>Opening never touches the rows.\<close>

lemma open_keeps_rows [simp]: "dk_data (snd (store_open io dk)) = dk_data dk"
  by (simp add: store_open_def Let_def split_beta split: option.splits)

lemma open_Ok:
  assumes "store_open io dk = (Ok u, dk')"
  shows "si_connect io \<and> eq_ignore_ascii_case (cat_journal (dk_catalog dk')) ''wal'' \<and> cat_version (dk_catalog dk') = 2 \<and>
    dk_data dk' = dk_data dk \<and> fst (validate_schema (si_probe io) (dk_data dk') (dk_catalog dk')) = Ok ()"
  using assms
  by (auto simp: store_open_def Let_def create_schema_def SCHEMA_VERSION_def eq_ignore_ascii_case_def split_beta
      split: if_splits option.splits)

text \<open>
  On an empty file the created schema is the required one. The catalog is concrete, so this is
  evaluated.
\<close>

definition empty_catalog :: catalog where
  "empty_catalog = \<lparr>cat_journal = ''delete'', cat_version = 0, cat_tables = [], cat_foreign_keys = [], cat_indexes = []\<rparr>"

definition current_catalog :: catalog where
  "current_catalog = \<lparr>cat_journal = ''wal'', cat_version = 2, cat_tables = created_tables,
     cat_foreign_keys = [\<lparr>fk_table = ''query_logs'', fk_from = ''query_id'', fk_to = Some ''id'', fk_on_delete = ''CASCADE''\<rparr>],
     cat_indexes = [(''query_logs'', ''query_logs_time_idx'', [Some ''timestamp_ms'', Some ''id'']),
       (''query_logs'', ''query_logs_domain_idx'', [Some ''domain'']),
       (''query_response_ips'', ''query_response_ips_ip_idx'', [Some ''ip''])]\<rparr>"

lemma create_empty: "create_schema (empty_catalog\<lparr>cat_journal := ''wal''\<rparr>) = Some current_catalog"
  by (simp add: create_schema_def empty_catalog_def current_catalog_def table_exists_def created_tables_def)

lemma current_tables_ok: "list_all (\<lambda>t. is_ok (validate_table current_catalog t)) required_columns"
  by (simp add: required_columns_def validate_table_ok current_catalog_def created_tables_def stats_columns_def
      key_fits_def column_fits_def primary_key_def eq_ignore_ascii_case_def)

lemma current_indexes_ok: "list_all (\<lambda>i. is_ok (validate_index current_catalog i)) required_indexes"
  by (simp add: required_indexes_def validate_index_def current_catalog_def)

lemma current_validates: "probe_ok P db \<Longrightarrow> fst (validate_schema P db current_catalog) = Ok ()"
  unfolding validate_schema_ok using current_tables_ok current_indexes_ok
  by (simp add: current_catalog_def has_cascade_def eq_ignore_ascii_case_def)

lemma open_empty:
  assumes "si_connect io" and "si_create io" and "probe_ok (si_probe io) db"
  shows "store_open io \<lparr>dk_catalog = empty_catalog, dk_data = db\<rparr> = (Ok (), \<lparr>dk_catalog = current_catalog, dk_data = db\<rparr>)"
  using assms create_empty current_validates [of "si_probe io" db]
  by (simp add: store_open_def empty_catalog_def SCHEMA_VERSION_def eq_ignore_ascii_case_def to_lowercase_def to_lower_def split_beta Let_def)

text \<open>
  What a file must have to be accepted, measured on the schema a new file gets: every table with
  the same primary key and, for each of its columns, a column of that name, type, key position and
  at least that constraint; the foreign key from the addresses to the log with the cascade, no
  foreign key with an unnamed target; and every index, on the same table and over exactly the same
  columns in the same order.
\<close>

definition schema_complete :: "catalog \<Rightarrow> bool" where
  "schema_complete cat \<longleftrightarrow>
     (\<forall>(t, expected) \<in> set (cat_tables current_catalog). \<exists>columns. map_of (cat_tables cat) t = Some columns \<and>
        key_fits columns expected \<and> (\<forall>c \<in> set expected. column_fits columns c)) \<and>
     (\<forall>k \<in> set (cat_foreign_keys cat). fk_to k \<noteq> None) \<and>
     (\<exists>k \<in> set (cat_foreign_keys cat). fk_table k = ''query_logs'' \<and> fk_from k = ''query_id'' \<and> fk_to k = Some ''id'' \<and>
        eq_ignore_ascii_case (fk_on_delete k) ''CASCADE'') \<and>
     (\<forall>(t, i, columns) \<in> set (cat_indexes current_catalog).
        find (\<lambda>(t', i', cs). t' = t \<and> i' = i) (cat_indexes cat) = Some (t, i, columns))"

definition index_columns :: "catalog \<Rightarrow> string \<Rightarrow> string \<Rightarrow> string option list option" where
  "index_columns cat t i = map_option (\<lambda>(t', i', cs). cs) (find (\<lambda>(t', i', cs). t' = t \<and> i' = i) (cat_indexes cat))"

lemma has_cascade_ok:
  "has_cascade fks = Ok True \<longleftrightarrow> (\<forall>k \<in> set fks. fk_to k \<noteq> None) \<and>
     (\<exists>k \<in> set fks. fk_table k = ''query_logs'' \<and> fk_from k = ''query_id'' \<and> fk_to k = Some ''id'' \<and>
        eq_ignore_ascii_case (fk_on_delete k) ''CASCADE'')"
  by (auto simp: has_cascade_def list_ex_iff)

lemma validate_index_ok:
  "is_ok (validate_index cat (t, i, columns)) \<longleftrightarrow>
     find (\<lambda>(t', i', cs). t' = t \<and> i' = i) (cat_indexes cat) = Some (t, i, map Some columns)"
proof (cases "find (\<lambda>(t', i', cs). t' = t \<and> i' = i) (cat_indexes cat)")
  case (Some entry)
  then have "(\<lambda>(t', i', cs). t' = t \<and> i' = i) entry" by (metis (no_types, lifting) find_Some_iff)
  with Some show ?thesis by (cases entry) (auto simp: validate_index_def)
qed (simp add: validate_index_def)

lemma schema_complete_iff:
  "schema_complete cat \<longleftrightarrow> list_all (\<lambda>t. is_ok (validate_table cat t)) required_columns \<and>
     has_cascade (cat_foreign_keys cat) = Ok True \<and> list_all (\<lambda>i. is_ok (validate_index cat i)) required_indexes"
proof -
  have "cat_tables current_catalog = required_columns"
    by (simp add: current_catalog_def created_tables_def required_columns_def stats_columns_def)
  moreover have "cat_indexes current_catalog = map (\<lambda>(t, i, cs). (t, i, map Some cs)) required_indexes"
    by (simp add: current_catalog_def required_indexes_def)
  ultimately show ?thesis
    by (auto simp: schema_complete_def has_cascade_ok list_all_iff validate_table_ok validate_index_ok)
qed

lemma validate_schema_complete:
  "fst (validate_schema P db cat) = Ok u \<longleftrightarrow> schema_complete cat \<and> probe_ok P db"
  by (auto simp: validate_schema_ok schema_complete_iff)

text \<open>C30. Opening the history: an empty file gets exactly the current schema; a file that has been
  opened once opens again and is not changed; a file of a newer version is refused and keeps
  its tables. Whatever is accepted is in write-ahead mode, has the current version and the
  complete schema: every required table with its key, column types and constraints, the cascade
  on the addresses, and each of the three indexes on its table over exactly its columns. For a
  file of the current version this is decisive: it is accepted exactly when its schema is complete
  and the probing rows can be inserted and rolled back, so a missing or a wrong index, column, key
  or foreign key is refused. The rows are never changed, and a schema in which the rows of the
  program cannot be inserted is not accepted.\<close>

theorem open_schema:
  assumes "si_connect io" and "si_create io" and "probe_ok (si_probe io) db"
  shows "store_open io \<lparr>dk_catalog = empty_catalog, dk_data = db\<rparr> = (Ok (), \<lparr>dk_catalog = current_catalog, dk_data = db\<rparr>) \<and>
    (\<forall>dk dk'. store_open io dk = (Ok (), dk') \<longrightarrow> store_open io dk' = (Ok (), dk') \<and> cat_version (dk_catalog dk') = 2 \<and>
       eq_ignore_ascii_case (cat_journal (dk_catalog dk')) ''wal'' \<and> schema_complete (dk_catalog dk') \<and>
       index_columns (dk_catalog dk') ''query_logs'' ''query_logs_time_idx'' = Some [Some ''timestamp_ms'', Some ''id''] \<and>
       index_columns (dk_catalog dk') ''query_logs'' ''query_logs_domain_idx'' = Some [Some ''domain''] \<and>
       index_columns (dk_catalog dk') ''query_response_ips'' ''query_response_ips_ip_idx'' = Some [Some ''ip''] \<and>
       has_cascade (cat_foreign_keys (dk_catalog dk')) = Ok True \<and> is_ok (probe_inserts (si_probe io) (dk_data dk))) \<and>
    (\<forall>dk. cat_version (dk_catalog dk) = 2 \<longrightarrow>
       (fst (store_open io dk) = Ok () \<longleftrightarrow> schema_complete (dk_catalog dk) \<and> probe_ok (si_probe io) (dk_data dk))) \<and>
    (\<forall>dk. dk_data (snd (store_open io dk)) = dk_data dk) \<and>
    (\<forall>dk. 2 < cat_version (dk_catalog dk) \<longrightarrow> fst (store_open io dk) = Err (Newer_schema (cat_version (dk_catalog dk))) \<and>
       cat_tables (dk_catalog (snd (store_open io dk))) = cat_tables (dk_catalog dk))"
proof (intro conjI allI impI)
  show "store_open io \<lparr>dk_catalog = empty_catalog, dk_data = db\<rparr> = (Ok (), \<lparr>dk_catalog = current_catalog, dk_data = db\<rparr>)"
    using assms by (rule open_empty)
next
  fix dk dk'
  assume "store_open io dk = (Ok (), dk')"
  note ok = open_Ok [OF this]
  then show "store_open io dk' = (Ok (), dk')" using open_version_2 [of io dk'] by metis
  show "cat_version (dk_catalog dk') = 2" and "eq_ignore_ascii_case (cat_journal (dk_catalog dk')) ''wal''" using ok by blast+
  show complete: "schema_complete (dk_catalog dk')" using ok by (simp add: validate_schema_complete)
  then show "index_columns (dk_catalog dk') ''query_logs'' ''query_logs_time_idx'' = Some [Some ''timestamp_ms'', Some ''id'']"
    and "index_columns (dk_catalog dk') ''query_logs'' ''query_logs_domain_idx'' = Some [Some ''domain'']"
    and "index_columns (dk_catalog dk') ''query_response_ips'' ''query_response_ips_ip_idx'' = Some [Some ''ip'']"
    by (simp_all add: schema_complete_def index_columns_def current_catalog_def)
  show "has_cascade (cat_foreign_keys (dk_catalog dk')) = Ok True" using ok by (simp add: validate_schema_ok)
  from ok have "fst (validate_schema_behavior (si_probe io) (dk_data dk)) = Ok ()" by (auto simp: validate_schema_ok probe_ok_iff)
  then show "is_ok (probe_inserts (si_probe io) (dk_data dk))"
    by (auto simp: validate_schema_behavior_def and_then_Ok_iff Let_def split: if_splits)
next
  fix dk :: disk
  assume "cat_version (dk_catalog dk) = 2"
  then show "fst (store_open io dk) = Ok () \<longleftrightarrow> schema_complete (dk_catalog dk) \<and> probe_ok (si_probe io) (dk_data dk)"
    using assms(1) by (simp add: store_open_def SCHEMA_VERSION_def Let_def split_beta validate_schema_complete schema_complete_def)
next
  fix dk :: disk
  assume "2 < cat_version (dk_catalog dk)"
  then show "fst (store_open io dk) = Err (Newer_schema (cat_version (dk_catalog dk)))"
    and "cat_tables (dk_catalog (snd (store_open io dk))) = cat_tables (dk_catalog dk)"
    using assms(1) by (auto simp: store_open_def SCHEMA_VERSION_def Let_def)
qed simp

definition sample_schema_io :: schema_io where
  "sample_schema_io = \<lparr>si_connect = True, si_create = True, si_migrate = True, si_probe = \<lparr>pb_statement = (\<lambda>n. True), pb_stored_id = Some, pb_rollback = True\<rparr>\<rparr>"

lemma sample_probe_ok: "probe_ok (si_probe sample_schema_io) empty_database"
  by (simp add: probe_ok_def sample_schema_io_def empty_database_def in_i64_def i64_min_def i64_max_def)

lemma sample_db_probe: "probe_ok (si_probe sample_schema_io) sample_db"
  using sample_db_eq by (simp add: probe_ok_def sample_schema_io_def in_i64_def i64_min_def i64_max_def)

theorem open_schema_witness:
  "store_open sample_schema_io \<lparr>dk_catalog = empty_catalog, dk_data = empty_database\<rparr> =
     (Ok (), \<lparr>dk_catalog = current_catalog, dk_data = empty_database\<rparr>) \<and>
   schema_complete current_catalog \<and>
   fst (store_open sample_schema_io
     \<lparr>dk_catalog = current_catalog\<lparr>cat_indexes := tl (cat_indexes current_catalog)\<rparr>, dk_data = empty_database\<rparr>) \<noteq> Ok ()"
proof -
  have io: "si_connect sample_schema_io" "si_create sample_schema_io" by (simp_all add: sample_schema_io_def)
  note props = open_schema [OF io sample_probe_ok]
  have "\<not> schema_complete (current_catalog\<lparr>cat_indexes := tl (cat_indexes current_catalog)\<rparr>)"
    by (simp add: schema_complete_def current_catalog_def)
  then show ?thesis
    using props [THEN conjunct1] props [THEN conjunct2, THEN conjunct1, rule_format, OF props [THEN conjunct1]]
      props [THEN conjunct2, THEN conjunct2, THEN conjunct1, rule_format,
        of "\<lparr>dk_catalog = current_catalog\<lparr>cat_indexes := tl (cat_indexes current_catalog)\<rparr>, dk_data = empty_database\<rparr>"]
    by (simp add: current_catalog_def)
qed

text \<open>Migration: a version 1 file that has everything required except the upstream column
  opens, gains exactly that column as the last one of the log table, and keeps every other
  table, index and foreign key.\<close>

theorem open_migrates:
  assumes "si_connect io" and "si_migrate io" and "cat_version cat = 1" and "cat_journal cat = ''wal''"
    and "list_all (\<lambda>t. is_ok (validate_table cat t)) v1_columns"
    and "map_of (cat_tables cat) ''query_logs'' = Some logs" and "\<not> list_ex (\<lambda>c. c_name c = ''upstream'') logs"
    and "has_cascade (cat_foreign_keys cat) = Ok True"
    and "list_all (\<lambda>i. is_ok (validate_index cat i)) required_indexes" and "probe_ok (si_probe io) db"
  shows "\<exists>cat'. store_open io \<lparr>dk_catalog = cat, dk_data = db\<rparr> = (Ok (), \<lparr>dk_catalog = cat', dk_data = db\<rparr>) \<and> cat_version cat' = 2 \<and>
    map_of (cat_tables cat') = (map_of (cat_tables cat))(''query_logs'' \<mapsto> logs @ [upstream_column]) \<and>
    cat_indexes cat' = cat_indexes cat \<and> cat_foreign_keys cat' = cat_foreign_keys cat"
proof (intro exI conjI)
  let ?cat' = "migrate_to_current cat"
  have "fst (validate_schema (si_probe io) db ?cat') = Ok ()"
    using assms(5-) migrate_validates [OF assms(5)] validate_index_cong [of ?cat' cat]
    by (simp add: validate_schema_ok)
  then show "store_open io \<lparr>dk_catalog = cat, dk_data = db\<rparr> = (Ok (), \<lparr>dk_catalog = ?cat', dk_data = db\<rparr>)"
    using assms(1-4) by (simp add: store_open_def SCHEMA_VERSION_def eq_ignore_ascii_case_def split_beta Let_def)
  show "map_of (cat_tables ?cat') = (map_of (cat_tables cat))(''query_logs'' \<mapsto> logs @ [upstream_column])"
    using assms(6,7) by (auto simp: migrate_tables)
qed simp_all

definition v1_catalog :: catalog where
  "v1_catalog = current_catalog\<lparr>cat_version := 1, cat_tables := v1_columns\<rparr>"

lemma v1_tables_ok: "list_all (\<lambda>t. is_ok (validate_table v1_catalog t)) v1_columns"
  by (simp add: v1_columns_def required_columns_def validate_table_ok v1_catalog_def stats_columns_def
      key_fits_def column_fits_def primary_key_def eq_ignore_ascii_case_def)

theorem open_migrates_witness:
  "\<exists>cat'. store_open sample_schema_io \<lparr>dk_catalog = v1_catalog, dk_data = empty_database\<rparr> =
     (Ok (), \<lparr>dk_catalog = cat', dk_data = empty_database\<rparr>) \<and> cat_version cat' = 2"
proof -
  have "validate_index v1_catalog = validate_index current_catalog"
    by (rule validate_index_cong) (simp add: v1_catalog_def)
  then have "list_all (\<lambda>i. is_ok (validate_index v1_catalog i)) required_indexes" using current_indexes_ok by simp
  moreover have "map_of (cat_tables v1_catalog) ''query_logs'' = Some (snd (hd v1_columns))"
    "\<not> list_ex (\<lambda>c. c_name c = ''upstream'') (snd (hd v1_columns))"
    by (simp_all add: v1_catalog_def v1_columns_def required_columns_def)
  ultimately show ?thesis
    using open_migrates [of sample_schema_io v1_catalog "snd (hd v1_columns)" empty_database] v1_tables_ok sample_probe_ok
    by (auto simp: sample_schema_io_def v1_catalog_def current_catalog_def has_cascade_def eq_ignore_ascii_case_def)
qed

end
