(* ===== verification/Utf8.thy ===== *)
theory Utf8
  imports Prelude
begin

text \<open>
  Byte sequences as text, the part of the standard library the sources use: the check
  \<open>std::str::from_utf8\<close> and the lossy decoding \<open>String::from_utf8_lossy\<close>.
\<close>

section \<open>Well-formed sequences\<close>

text \<open>Which byte sequences are well-formed.\<close>

abbreviation continuation :: "nat \<Rightarrow> bool" where
  "continuation b \<equiv> 128 \<le> b \<and> b \<le> 191"

text \<open>The second byte of a long sequence: no overlong forms, no surrogates, nothing past U+10FFFF.\<close>

definition second_ok :: "nat \<Rightarrow> nat \<Rightarrow> bool" where
  "second_ok b c \<longleftrightarrow> (if b = 224 then 160 else if b = 240 then 144 else 128) \<le> c \<and>
     c \<le> (if b = 237 then 159 else if b = 244 then 143 else 191)"

fun utf8_valid :: "nat list \<Rightarrow> bool" where
  "utf8_valid [] = True"
| "utf8_valid (b # bs) =
     (if b < 128 then utf8_valid bs
      else if 194 \<le> b \<and> b \<le> 223 then (case bs of c # r \<Rightarrow> continuation c \<and> utf8_valid r | _ \<Rightarrow> False)
      else if 224 \<le> b \<and> b \<le> 239 then
        (case bs of c # d # r \<Rightarrow> second_ok b c \<and> continuation d \<and> utf8_valid r | _ \<Rightarrow> False)
      else if 240 \<le> b \<and> b \<le> 244 then
        (case bs of c # d # e # r \<Rightarrow> second_ok b c \<and> continuation d \<and> continuation e \<and> utf8_valid r | _ \<Rightarrow> False)
      else False)"

definition from_utf8 :: "string \<Rightarrow> bool" where
  "from_utf8 s = utf8_valid (map of_char s)"

section \<open>Lossy decoding\<close>

text \<open>
  The next chunk of a non-empty sequence: whether it is a well-formed character, and its length. An
  ill-formed chunk is the longest prefix that could have begun a character, at least one byte.
\<close>

definition utf8_chunk :: "nat \<Rightarrow> nat list \<Rightarrow> bool \<times> nat" where
  "utf8_chunk b bs =
     (if b < 128 then (True, 1)
      else if 194 \<le> b \<and> b \<le> 223 then
        (case bs of c # _ \<Rightarrow> if continuation c then (True, 2) else (False, 1) | [] \<Rightarrow> (False, 1))
      else if 224 \<le> b \<and> b \<le> 239 then
        (case bs of
           [] \<Rightarrow> (False, 1)
         | c # r \<Rightarrow> if \<not> second_ok b c then (False, 1)
             else (case r of d # _ \<Rightarrow> if continuation d then (True, 3) else (False, 2) | [] \<Rightarrow> (False, 2)))
      else if 240 \<le> b \<and> b \<le> 244 then
        (case bs of
           [] \<Rightarrow> (False, 1)
         | c # r \<Rightarrow> if \<not> second_ok b c then (False, 1)
             else (case r of
                 [] \<Rightarrow> (False, 2)
               | d # r' \<Rightarrow> if \<not> continuation d then (False, 2)
                   else (case r' of e # _ \<Rightarrow> if continuation e then (True, 4) else (False, 3) | [] \<Rightarrow> (False, 3))))
      else (False, 1))"

text \<open>Each ill-formed chunk becomes the replacement character.\<close>

function utf8_lossy :: "nat list \<Rightarrow> nat list" where
  "utf8_lossy [] = []"
| "utf8_lossy (b # bs) = (case utf8_chunk b bs of (ok, n) \<Rightarrow>
     (if ok then take n (b # bs) else [239, 191, 189]) @ utf8_lossy (drop (n - 1) bs))"
  by pat_completeness auto
termination
  by (relation "measure length") (auto simp: less_Suc_eq_le)

definition from_utf8_lossy :: "u8 list \<Rightarrow> string" where
  "from_utf8_lossy bytes = map char_of (utf8_lossy (map unat bytes))"

text \<open>A sequence is well-formed when its first chunk is and the rest is.\<close>

lemma lead_cases:
  fixes b :: nat
  obtains "b < 128" | "\<not> b < 128" "194 \<le> b \<and> b \<le> 223" | "\<not> b < 128" "\<not> (194 \<le> b \<and> b \<le> 223)" "224 \<le> b \<and> b \<le> 239"
    | "\<not> b < 128" "\<not> (194 \<le> b \<and> b \<le> 223)" "\<not> (224 \<le> b \<and> b \<le> 239)" "240 \<le> b \<and> b \<le> 244"
    | "\<not> b < 128" "\<not> (194 \<le> b \<and> b \<le> 223)" "\<not> (224 \<le> b \<and> b \<le> 239)" "\<not> (240 \<le> b \<and> b \<le> 244)"
  by blast

lemma utf8_valid_chunk:
  "utf8_valid (b # bs) \<longleftrightarrow> fst (utf8_chunk b bs) \<and> utf8_valid (drop (snd (utf8_chunk b bs) - 1) bs)"
  unfolding utf8_valid.simps(2) [of b bs] utf8_chunk_def
  by (cases b rule: lead_cases)
    (simp_all only: if_True if_False, auto simp del: utf8_valid.simps(2) split: list.splits)

lemma utf8_chunk_length: "utf8_chunk b bs = (True, n) \<Longrightarrow> 1 \<le> n \<and> n \<le> Suc (length bs)"
  unfolding utf8_chunk_def
  by (cases b rule: lead_cases) (simp_all only: if_True if_False, auto split: list.splits if_splits)

text \<open>A well-formed chunk depends on its own bytes only.\<close>

lemma utf8_chunk_take: "utf8_chunk b bs = (True, n) \<Longrightarrow> utf8_chunk b (take (n - 1) bs @ rest) = (True, n)"
  unfolding utf8_chunk_def
  by (cases b rule: lead_cases) (simp_all only: if_True if_False, auto split: list.splits if_splits)

lemma utf8_lossy_valid: "utf8_valid bs \<Longrightarrow> utf8_lossy bs = bs"
proof (induction bs rule: utf8_lossy.induct)
  case (2 b bs)
  obtain ok n where c: "utf8_chunk b bs = (ok, n)" by fastforce
  from "2.prems" c have v: "ok" "utf8_valid (drop (n - 1) bs)" by (simp_all only: utf8_valid_chunk [of b bs] fst_conv snd_conv)
  with "2.IH" [OF c [symmetric]] c show ?case
    using utf8_chunk_length [of b bs n] by (cases n) simp_all
qed simp

lemma utf8_valid_lossy: "utf8_valid (utf8_lossy bs)"
proof (induction bs rule: utf8_lossy.induct)
  case (2 b bs)
  obtain ok n where c: "utf8_chunk b bs = (ok, n)" by fastforce
  note IH = "2.IH" [OF c [symmetric]]
  show ?case
  proof (cases ok)
    case True
    with c have n: "1 \<le> n" "n - 1 \<le> length bs" and
      chunk: "utf8_chunk b (take (n - 1) bs @ utf8_lossy (drop (n - 1) bs)) = (True, n)"
      using utf8_chunk_length [of b bs n] utf8_chunk_take [of b bs n] by auto
    have "utf8_lossy (b # bs) = b # take (n - 1) bs @ utf8_lossy (drop (n - 1) bs)"
      using n(1) c True by (cases n) simp_all
    with chunk IH n(2) show ?thesis using utf8_valid_chunk [of b "take (n - 1) bs @ utf8_lossy (drop (n - 1) bs)"] by simp
  qed (use c IH in \<open>simp add: second_ok_def\<close>)
qed simp

end
