(* ===== verification/Query_Params.thy ===== *)
theory Query_Params
  imports Store Utf8
begin

text \<open>
  The query string of the log endpoint (\<open>src/dashboard/http.rs\<close>): the check of its percent
  encoding, and the validation of the three parameters. A query string is its bytes.
\<close>

record api_error =
  status :: nat
  client_message :: string

definition bad_request :: "string \<Rightarrow> api_error" where
  "bad_request message = \<lparr>status = 400, client_message = message\<rparr>"

text \<open>\<open>str::chars().count()\<close>: a character starts at every byte that does not continue one.\<close>

definition chars_count :: "string \<Rightarrow> nat" where
  "chars_count s = length (filter (\<lambda>c. \<not> continuation (of_char c)) s)"

section \<open>The percent encoding\<close>

definition invalid_query :: api_error where
  "invalid_query = bad_request ''invalid query parameters''"

text \<open>The loop: the argument is the rest of the bytes from the current index on.\<close>

fun decode_query :: "string \<Rightarrow> (string, api_error) result" where
  "decode_query [] = Ok []"
| "decode_query (c # rest) =
     (if c = CHR ''%'' then
        (case rest of
           h # l # rest' \<Rightarrow>
             if \<not> from_utf8 [h, l] then Err invalid_query
             else (case u8_from_str_radix16 [h, l] of
                     None \<Rightarrow> Err invalid_query
                   | Some v \<Rightarrow> and_then (decode_query rest') (\<lambda>d. Ok (char_of v # d)))
         | _ \<Rightarrow> Err invalid_query)
      else and_then (decode_query rest) (\<lambda>d. Ok (c # d)))"

definition validate_query_encoding :: "string \<Rightarrow> (unit, api_error) result" where
  "validate_query_encoding query =
     and_then (decode_query query) (\<lambda>decoded. if from_utf8 decoded then Ok () else Err invalid_query)"

section \<open>The parameters\<close>

record query_params =
  qp_raw_page :: "string option"
  qp_raw_page_size :: "string option"
  qp_raw_search :: "string option"

record validated_query_params =
  vq_page :: nat
  vq_page_size :: nat
  vq_search :: "string option"

definition parse_parameter :: "string option \<Rightarrow> string \<Rightarrow> nat \<Rightarrow> (nat, api_error) result" where
  "parse_parameter v name dflt = (case v of
     None \<Rightarrow> Ok dflt
   | Some s \<Rightarrow> ok_or (bad_request (name @ '' must be an integer'')) (parse_u64 s))"

definition validate_params :: "query_params \<Rightarrow> (validated_query_params, api_error) result" where
  "validate_params p =
     and_then (parse_parameter (qp_raw_page p) ''page'' 1) (\<lambda>page.
     if page < 1 then Err (bad_request ''page must be at least 1'')
     else and_then (parse_parameter (qp_raw_page_size p) ''page_size'' 50) (\<lambda>page_size.
     if \<not> (1 \<le> page_size \<and> page_size \<le> 200) then Err (bad_request ''page_size must be between 1 and 200'')
     else case Option.bind (checked_u64 ((page - 1) * page_size)) i64_try_from_u64 of
       None \<Rightarrow> Err (bad_request ''page offset is out of range'')
     | Some offset \<Rightarrow>
         let search = map_option trim (qp_raw_search p) in
         if (case search of None \<Rightarrow> False | Some s \<Rightarrow> chars_count s > 253)
         then Err (bad_request ''search must be at most 253 characters'')
         else Ok \<lparr>vq_page = page, vq_page_size = page_size, vq_search = search\<rparr>))"

section \<open>Encoding and decoding\<close>

text \<open>
  The reference: a client encodes a text by writing every byte either as itself or, always for
  the percent sign, as a percent sign and two hexadecimal digits.
\<close>

definition hex_upper :: "nat \<Rightarrow> char" where
  "hex_upper d = char_of (if d < 10 then 48 + d else 55 + d)"

definition encode_query :: "(char \<Rightarrow> bool) \<Rightarrow> string \<Rightarrow> string" where
  "encode_query keep s = concat (map (\<lambda>c. if keep c then [c]
     else [CHR ''%'', hex_upper (of_char c div 16), hex_upper (of_char c mod 16)]) s)"

lemma of_hex_upper: "d < 16 \<Longrightarrow> (of_char (hex_upper d) :: nat) = (if d < 10 then 48 + d else 55 + d)"
  by (simp add: hex_upper_def)

lemma hex_digit_hex_upper: "d < 16 \<Longrightarrow> hex_digit (hex_upper d) = Some d"
  by (simp add: hex_digit_def of_hex_upper Let_def)

lemma hex_upper_not_plus: "d < 16 \<Longrightarrow> hex_upper d \<noteq> CHR ''+''"
proof
  assume "d < 16" "hex_upper d = CHR ''+''"
  then have "(of_char (CHR ''+'') :: nat) = (if d < 10 then 48 + d else 55 + d)" using of_hex_upper by metis
  then show False by (simp split: if_splits)
qed

lemma of_char_less_256: "(of_char c :: nat) < 256"
  by simp

lemma nibbles: "(of_char c :: nat) div 16 < 16" "(of_char c :: nat) mod 16 < 16"
  using of_char_less_256 [of c] by (simp_all add: less_mult_imp_div_less)

lemma hex_pair:
  "u8_from_str_radix16 [hex_upper (of_char c div 16), hex_upper (of_char c mod 16)] = Some (of_char c)"
proof -
  have "(of_char c :: nat) \<le> 255" using of_char_less_256 [of c] by linarith
  then show ?thesis
    using nibbles [of c]
    by (simp add: u8_from_str_radix16_def from_str_radix_def hex_upper_not_plus hex_digit_hex_upper)
qed

lemma hex_pair_utf8: "d < 16 \<Longrightarrow> e < 16 \<Longrightarrow> from_utf8 [hex_upper d, hex_upper e]"
  by (auto simp: from_utf8_def of_hex_upper)

lemma decode_encode: "\<not> keep (CHR ''%'') \<Longrightarrow> decode_query (encode_query keep s) = Ok s"
proof (induction s)
  case (Cons c s)
  have "from_utf8 [hex_upper (of_char c div 16), hex_upper (of_char c mod 16)]" by (rule hex_pair_utf8 [OF nibbles])
  with Cons hex_pair [of c] show ?case by (auto simp: encode_query_def)
qed (simp add: encode_query_def)

text \<open>C37. The encoding check accepts every properly encoded text: whichever bytes the client
  leaves as they are, encoding a byte sequence is accepted exactly when the sequence is
  well-formed UTF-8, and the bytes it decodes are the original ones.\<close>

theorem query_encoding_roundtrip:
  assumes "\<not> keep (CHR ''%'')"
  shows "decode_query (encode_query keep s) = Ok s \<and>
    validate_query_encoding (encode_query keep s) = (if from_utf8 s then Ok () else Err (bad_request ''invalid query parameters''))"
  using decode_encode [of keep s] assms by (simp add: validate_query_encoding_def invalid_query_def)

theorem query_encoding_roundtrip_witness:
  "validate_query_encoding (encode_query (\<lambda>c. c = CHR ''a'') [CHR ''a'', CHR 0xC3, CHR 0xA9]) = Ok ()"
  using query_encoding_roundtrip [of "\<lambda>c. c = CHR ''a''" "[CHR ''a'', CHR 0xC3, CHR 0xA9]"]
  by (simp add: from_utf8_def)

text \<open>The check is not strict: because the integer parser allows a leading plus sign, a percent
  sign followed by a plus sign and one hexadecimal digit passes as the encoding of that digit's
  value, although it is not a percent encoding.\<close>

theorem query_encoding_accepts_sign:
  "let q = [CHR ''%'', CHR ''+'', CHR ''1''] in decode_query q = Ok [CHR 0x01] \<and> validate_query_encoding q = Ok ()"
  by (simp add: validate_query_encoding_def from_utf8_def u8_from_str_radix16_def from_str_radix_def hex_digit_def char_of_def bit_Suc_0_0)

section \<open>Validated parameters\<close>

lemma validate_params_Ok:
  assumes "validate_params p = Ok v"
  shows "parse_parameter (qp_raw_page p) ''page'' 1 = Ok (vq_page v) \<and> 1 \<le> vq_page v \<and>
     parse_parameter (qp_raw_page_size p) ''page_size'' 50 = Ok (vq_page_size v) \<and>
     1 \<le> vq_page_size v \<and> vq_page_size v \<le> 200 \<and>
     Option.bind (checked_u64 ((vq_page v - 1) * vq_page_size v)) i64_try_from_u64 \<noteq> None \<and>
     vq_search v = map_option trim (qp_raw_search p) \<and>
     (case vq_search v of None \<Rightarrow> True | Some s \<Rightarrow> chars_count s \<le> 253)"
proof -
  obtain page size where parsed: "parse_parameter (qp_raw_page p) ''page'' 1 = Ok page"
      "parse_parameter (qp_raw_page_size p) ''page_size'' 50 = Ok size"
    using assms by (auto simp: validate_params_def and_then_Ok_iff split: if_splits)
  obtain off where off: "Option.bind (checked_u64 ((page - 1) * size)) i64_try_from_u64 = Some off"
    using assms unfolding validate_params_def parsed and_then_simps by (auto split: if_splits option.splits)
  show ?thesis
    using assms unfolding validate_params_def parsed and_then_simps off option.case Let_def
    by (auto simp: parsed off [simplified] split: if_splits option.splits)
qed

text \<open>What the endpoint passes on is what the store accepts: validation succeeds with the given
  or default values within their bounds, and with validated parameters the store never rejects
  the page size or the offset, whatever else may fail.\<close>

theorem validated_params_accepted:
  assumes "validate_params p = Ok v"
  shows "1 \<le> vq_page v \<and> 1 \<le> vq_page_size v \<and> vq_page_size v \<le> 200 \<and>
    (qp_raw_page p = None \<longrightarrow> vq_page v = 1) \<and> (qp_raw_page_size p = None \<longrightarrow> vq_page_size v = 50) \<and>
    queries_before io now (vq_page v) (vq_page_size v) (vq_search v) deadline db \<notin> {Err Bad_page_size, Err Offset_range}"
proof -
  note ok = validate_params_Ok [OF assms]
  let ?B = "{Err Bad_page_size, Err Offset_range} :: (query_page, store_error) result set"
  obtain B where B: "B = ?B" by blast
  have fine: "Ok x \<notin> B" "Err Statement_error \<notin> B" for x by (simp_all add: B)
  from ok obtain off where off: "Option.bind (checked_u64 ((vq_page v - 1) * vq_page_size v)) i64_try_from_u64 = Some off" by blast
  have page: "max (vq_page v) 1 = vq_page v" using ok by simp
  have conn: "and_then (read_connection io d now) g \<notin> B" if "g () \<notin> B" for d g
    using that by (auto simp: read_connection_def B split: option.splits)
  have rows: "and_then (collect_results query_record_of rs) g \<notin> B" if "\<And>x. g x \<notin> B" for rs g
  proof (cases "collect_results query_record_of rs")
    case (Inl e)
    then have "e = Row_conversion"
      by (induction rs) (auto simp: query_record_of_def and_then_def split: sum.splits if_splits)
    with Inl show ?thesis by (simp add: B)
  qed (use that in simp)
  have "queries_before io now (vq_page v) (vq_page_size v) (vq_search v) deadline db \<notin> B"
    unfolding queries_before_def queries_with_deadline_def Let_def page off option.case
    using ok by (auto simp: MAX_QUERY_PAGE_SIZE_def fine intro!: conn rows split: if_splits)
  with ok show ?thesis unfolding B by (auto simp: parse_parameter_def)
qed

theorem validated_params_accepted_witness:
  "\<exists>v. validate_params \<lparr>qp_raw_page = Some ''3'', qp_raw_page_size = None, qp_raw_search = Some '' a ''\<rparr> = Ok v \<and> vq_page_size v = 50"
proof -
  let ?p = "\<lparr>qp_raw_page = Some ''3'', qp_raw_page_size = None, qp_raw_search = Some '' a ''\<rparr>"
  have "validate_params ?p = Ok \<lparr>vq_page = 3, vq_page_size = 50, vq_search = Some ''a''\<rparr>"
    by (simp add: validate_params_def parse_parameter_def parse_u64_def from_str_radix_def dec_digit_def Let_def
        u64_max_def in_i64_def i64_min_def i64_max_def trim_def is_ws_def chars_count_def)
  with validated_params_accepted [OF this] show ?thesis by simp
qed

end
