(* ===== verification/Http_Api.thy ===== *)
theory Http_Api
  imports State_Machine Query_Params Upstream_Metrics
begin

text \<open>
  The dashboard's HTTP interface (\<open>src/dashboard/http.rs\<close>): routes, limited and timed database
  reads, error replies, the values sent to the browser.

  Parameters: the decoder of the query string (\<open>serde_urlencoded\<close>, through \<open>axum\<close>), the calendar's
  printer, what SQLite reports for a failed statement, and the moments at which a permit is
  granted and a blocking task ends. The files of the page are opaque texts.
\<close>

definition DATABASE_ERROR :: string where
  "DATABASE_ERROR = ''dashboard database unavailable''"

definition DATABASE_TIMEOUT :: string where
  "DATABASE_TIMEOUT = ''dashboard database request timed out''"

definition DATABASE_READ_CONCURRENCY :: nat where
  "DATABASE_READ_CONCURRENCY = 4"

definition DATABASE_REQUEST_TIMEOUT :: duration where
  "DATABASE_REQUEST_TIMEOUT = from_secs 2"

section \<open>Errors\<close>

datatype sqlite_code = Operation_interrupted | Database_busy | Database_locked | Other_code

datatype read_failure = Sqlite_failure sqlite_code | Other_sqlite | Other_failure store_error

datatype dashboard_read_error = Read_timeout | Read_database | Read_join

definition api_database :: api_error where
  "api_database = \<lparr>status = 500, client_message = DATABASE_ERROR\<rparr>"

definition database_timeout :: api_error where
  "database_timeout = \<lparr>status = 503, client_message = DATABASE_TIMEOUT\<rparr>"

definition from_read :: "dashboard_read_error \<Rightarrow> api_error" where
  "from_read e = (case e of
     Read_timeout \<Rightarrow> database_timeout
   | Read_database \<Rightarrow> api_database
   | Read_join \<Rightarrow> api_database)"

definition classify_sqlite_error_ref :: "read_failure \<Rightarrow> bool \<Rightarrow> dashboard_read_error" where
  "classify_sqlite_error_ref e deadline_exhausted =
     (if (case e of
            Sqlite_failure c \<Rightarrow> deadline_exhausted \<and> c \<in> {Operation_interrupted, Database_busy, Database_locked}
          | _ \<Rightarrow> False)
      then Read_timeout else Read_database)"

text \<open>Which failures of the store carry an error of the SQLite binding, and which code it has.\<close>

definition read_failure_of :: "sqlite_code \<Rightarrow> store_error \<Rightarrow> read_failure" where
  "read_failure_of code e = (case e of
     Connect_error \<Rightarrow> Sqlite_failure code
   | Statement_error \<Rightarrow> Sqlite_failure code
   | Row_conversion \<Rightarrow> Other_sqlite
   | _ \<Rightarrow> Other_failure e)"

section \<open>Timed reads\<close>

datatype permit_outcome = Permit_at instant | Limiter_closed | No_permit

datatype task_outcome = Finished_at instant | Panicked_at instant | Not_finished

record call_env =
  ce_start :: instant
  ce_permit :: permit_outcome
  ce_task :: task_outcome
  ce_code :: sqlite_code

definition database_operation ::
  "call_env \<Rightarrow> duration \<Rightarrow> (instant \<Rightarrow> ('a, dashboard_read_error) result) \<Rightarrow> ('a, dashboard_read_error) result" where
  "database_operation env timeout operation =
     (let deadline = ce_start env + timeout in
      case ce_permit env of
        No_permit \<Rightarrow> Err Read_timeout
      | Limiter_closed \<Rightarrow> Err Read_database
      | Permit_at t \<Rightarrow>
          if t > deadline then Err Read_timeout
          else (case ce_task env of
                  Not_finished \<Rightarrow> Err Read_timeout
                | Panicked_at t' \<Rightarrow> if t' > deadline then Err Read_timeout else Err Read_join
                | Finished_at t' \<Rightarrow> if t' > deadline then Err Read_timeout else operation deadline))"

text \<open>The moment the operation ends is also the moment its error is classified.\<close>

definition end_of_task :: "call_env \<Rightarrow> instant" where
  "end_of_task env = (case ce_task env of Finished_at t \<Rightarrow> t | Panicked_at t \<Rightarrow> t | Not_finished \<Rightarrow> ce_start env)"

definition database_call :: "call_env \<Rightarrow> (instant \<Rightarrow> ('a, store_error) result) \<Rightarrow> ('a, api_error) result" where
  "database_call env operation =
     map_err from_read (database_operation env DATABASE_REQUEST_TIMEOUT (\<lambda>deadline.
       map_err (\<lambda>e. case read_failure_of (ce_code env) e of
                      Other_failure _ \<Rightarrow> Read_database
                    | s \<Rightarrow> classify_sqlite_error_ref s (deadline \<le> end_of_task env))
         (operation deadline)))"

section \<open>Values sent\<close>

record query_record_dto =
  dto_id :: int
  dto_timestamp :: string
  dto_domain :: string
  dto_query_type :: string
  dto_response_code :: string
  dto_duration_ms :: nat
  dto_blocked :: bool
  dto_cache_hit :: bool
  dto_response_ips :: "string list"
  dto_upstream :: "string option"

record query_page_dto =
  pd_page :: nat
  pd_page_size :: nat
  pd_total :: int
  pd_records :: "query_record_dto list"

record trend_bucket_dto =
  td_timestamp :: string
  td_total_queries :: int
  td_blocked_queries :: int
  td_cache_hits :: int

record trend_dto =
  td_start :: string
  td_end :: string
  td_granularity :: string
  td_buckets :: "trend_bucket_dto list"

record cache_curve_dto =
  cd_memory_bytes :: nat
  cd_max_memory_bytes :: nat
  cd_current_entries :: nat
  cd_current :: "cache_sample option"
  cd_points :: "cache_sample list"

type_synonym printer = "int \<Rightarrow> string option"

definition query_record_dto_of :: "printer \<Rightarrow> query_record \<Rightarrow> (query_record_dto, unit) result" where
  "query_record_dto_of rfc3339 v =
     and_then (ok_or () (rfc3339 (qr_timestamp_ms v))) (\<lambda>t.
     Ok \<lparr>dto_id = qr_id v, dto_timestamp = t, dto_domain = qr_domain v, dto_query_type = qr_query_type v,
       dto_response_code = qr_response_code v, dto_duration_ms = qr_duration_ms v, dto_blocked = qr_blocked v,
       dto_cache_hit = qr_cache_hit v, dto_response_ips = qr_response_ips v, dto_upstream = qr_upstream v\<rparr>)"

definition query_page_dto_of :: "printer \<Rightarrow> query_page \<Rightarrow> (query_page_dto, unit) result" where
  "query_page_dto_of rfc3339 v =
     and_then (collect_results (query_record_dto_of rfc3339) (qp_records v)) (\<lambda>rs.
     Ok \<lparr>pd_page = qp_page v, pd_page_size = qp_page_size v, pd_total = qp_total v, pd_records = rs\<rparr>)"

definition trend_bucket_dto_of :: "printer \<Rightarrow> trend_bucket \<Rightarrow> (trend_bucket_dto, unit) result" where
  "trend_bucket_dto_of rfc3339 v =
     and_then (ok_or () (rfc3339 (tb_bucket_ms v))) (\<lambda>t.
     Ok \<lparr>td_timestamp = t, td_total_queries = tb_total_queries v, td_blocked_queries = tb_blocked_queries v,
         td_cache_hits = tb_cache_hits v\<rparr>)"

definition trend_dto_of :: "printer \<Rightarrow> trend_response \<Rightarrow> (trend_dto, unit) result" where
  "trend_dto_of rfc3339 v =
     and_then (ok_or () (rfc3339 (tr_start_ms v))) (\<lambda>s.
     and_then (ok_or () (rfc3339 (tr_end_ms v))) (\<lambda>e.
     and_then (collect_results (trend_bucket_dto_of rfc3339) (tr_buckets v)) (\<lambda>bs.
     Ok \<lparr>td_start = s, td_end = e, td_granularity = tr_granularity v, td_buckets = bs\<rparr>)))"

section \<open>Handlers\<close>

record http_state =
  hs_store :: database
  hs_upstreams :: "metric_member list"
  hs_retention_days :: nat
  hs_cache :: cache
  hs_sampler :: sampler_state

record http_env =
  he_call :: call_env
  he_io :: sql_io
  he_midnight :: calendar
  he_rfc3339 :: printer
  he_utc_ms :: int
  he_rounding :: rounding
  he_stats :: stats_heap
  he_params :: "string \<Rightarrow> query_params option"

text \<open>The moment the read starts, in the blocking task.\<close>

definition read_at :: "http_env \<Rightarrow> instant" where
  "read_at env = (case ce_permit (he_call env) of Permit_at t \<Rightarrow> t | _ \<Rightarrow> ce_start (he_call env))"

definition trend_endpoint :: "http_env \<Rightarrow> http_state \<Rightarrow> (trend_dto, api_error) result" where
  "trend_endpoint env st =
     and_then (database_call (he_call env) (\<lambda>deadline.
       trend_before (he_io env) (he_midnight env) (read_at env) (hs_retention_days st) (he_utc_ms env) deadline (hs_store st))) (\<lambda>v.
     map_err (\<lambda>_. api_database) (trend_dto_of (he_rfc3339 env) v))"

definition queries_endpoint :: "http_env \<Rightarrow> string option \<Rightarrow> http_state \<Rightarrow> (query_page_dto, api_error) result" where
  "queries_endpoint env raw_query st =
     (let raw = (case raw_query of None \<Rightarrow> [] | Some q \<Rightarrow> q) in
      and_then (validate_query_encoding raw) (\<lambda>_.
      and_then (ok_or (bad_request ''invalid query parameters'') (he_params env raw)) (\<lambda>params.
      and_then (validate_params params) (\<lambda>p.
      and_then (database_call (he_call env) (\<lambda>deadline.
        queries_before (he_io env) (read_at env) (vq_page p) (vq_page_size p) (vq_search p) deadline (hs_store st))) (\<lambda>v.
      map_err (\<lambda>_. api_database) (query_page_dto_of (he_rfc3339 env) v))))))"

definition rankings_endpoint :: "http_env \<Rightarrow> http_state \<Rightarrow> (ranking list, api_error) result" where
  "rankings_endpoint env st = database_call (he_call env) (\<lambda>deadline.
     rankings_before (he_io env) (read_at env) deadline (hs_store st))"

definition upstreams_endpoint :: "http_env \<Rightarrow> http_state \<Rightarrow> upstream_snapshot list" where
  "upstreams_endpoint env st = metrics_snapshot (he_rounding env) (he_utc_ms env) (he_stats env) (hs_upstreams st)"

definition response_time_endpoint :: "http_env \<Rightarrow> http_state \<Rightarrow> (response_time_summary, api_error) result" where
  "response_time_endpoint env st = database_call (he_call env) (\<lambda>deadline.
     response_time_before (he_rounding env) (he_io env) (read_at env) deadline (hs_store st))"

definition cache_curve_endpoint :: "http_state \<Rightarrow> cache_curve_dto" where
  "cache_curve_endpoint st = (case memory_stats (hs_cache st) of (mem, max_mem) \<Rightarrow>
     \<lparr>cd_memory_bytes = mem, cd_max_memory_bytes = max_mem, cd_current_entries = cache_len (hs_cache st),
      cd_current = sampler_latest (hs_sampler st), cd_points = points (hs_sampler st)\<rparr>)"

section \<open>Routes\<close>

datatype asset = Index_html | Style_css | Chart_js | App_js

definition content_type :: "asset \<Rightarrow> string" where
  "content_type a = (case a of
     Index_html \<Rightarrow> ''text/html; charset=utf-8''
   | Style_css \<Rightarrow> ''text/css; charset=utf-8''
   | Chart_js \<Rightarrow> ''text/javascript; charset=utf-8''
   | App_js \<Rightarrow> ''text/javascript; charset=utf-8'')"

datatype endpoint = Asset_route asset | Trend_route | Queries_route | Rankings_route | Upstreams_route
  | Response_time_route | Cache_curve_route

definition router :: "(string \<times> endpoint) list" where
  "router = [(''/'', Asset_route Index_html), (''/assets/style.css'', Asset_route Style_css),
     (''/assets/chart.js'', Asset_route Chart_js), (''/assets/app.js'', Asset_route App_js),
     (''/style.css'', Asset_route Style_css), (''/chart.js'', Asset_route Chart_js), (''/app.js'', Asset_route App_js),
     (''/api/dashboard/trend'', Trend_route), (''/api/dashboard/queries'', Queries_route),
     (''/api/dashboard/rankings'', Rankings_route), (''/api/dashboard/upstreams'', Upstreams_route),
     (''/api/dashboard/response-time'', Response_time_route), (''/api/dashboard/cache-curve'', Cache_curve_route)]"

datatype reply_body =
    Asset_body string asset | Trend_body trend_dto | Page_body query_page_dto | Rankings_body "ranking list"
  | Upstreams_body "upstream_snapshot list" | Time_body response_time_summary | Curve_body cache_curve_dto
  | Error_body string

text \<open>Status and body of the reply; an error is the status and the client message alone.\<close>

definition into_response :: "('a \<Rightarrow> reply_body) \<Rightarrow> ('a, api_error) result \<Rightarrow> nat \<times> reply_body" where
  "into_response f r = (case r of Ok a \<Rightarrow> (200, f a) | Err e \<Rightarrow> (status e, Error_body (client_message e)))"

definition serve_endpoint :: "http_env \<Rightarrow> endpoint \<Rightarrow> string option \<Rightarrow> http_state \<Rightarrow> nat \<times> reply_body" where
  "serve_endpoint env ep raw_query st = (case ep of
     Asset_route a \<Rightarrow> (200, Asset_body (content_type a) a)
   | Trend_route \<Rightarrow> into_response Trend_body (trend_endpoint env st)
   | Queries_route \<Rightarrow> into_response Page_body (queries_endpoint env raw_query st)
   | Rankings_route \<Rightarrow> into_response Rankings_body (rankings_endpoint env st)
   | Upstreams_route \<Rightarrow> (200, Upstreams_body (upstreams_endpoint env st))
   | Response_time_route \<Rightarrow> into_response Time_body (response_time_endpoint env st)
   | Cache_curve_route \<Rightarrow> (200, Curve_body (cache_curve_endpoint st)))"

section \<open>Error replies\<close>


definition on_time :: "call_env \<Rightarrow> bool" where
  "on_time env \<longleftrightarrow> (\<exists>t t'. ce_permit env = Permit_at t \<and> ce_task env = Finished_at t' \<and>
     t \<le> ce_start env + DATABASE_REQUEST_TIMEOUT \<and> t' < ce_start env + DATABASE_REQUEST_TIMEOUT)"

lemma database_call_cases:
  assumes "database_call env operation = r"
  obtains (Value) a where "r = Ok a" "operation (ce_start env + DATABASE_REQUEST_TIMEOUT) = Ok a"
  | (Timeout) "r = Err database_timeout" "\<not> on_time env"
  | (Failed) "r = Err api_database"
  using assms
  by (auto simp: database_call_def database_operation_def from_read_def classify_sqlite_error_ref_def end_of_task_def
      on_time_def Let_def map_err_def split: permit_outcome.splits task_outcome.splits if_splits sum.splits read_failure.splits)

lemma decode_query_error: "decode_query s = Err e \<Longrightarrow> e = invalid_query"
proof (induction s rule: decode_query.induct)
  case (2 c rest)
  show ?case
  proof (cases "c = CHR ''%''")
    case False
    with 2 show ?thesis by (cases "decode_query rest") auto
  next
    case True
    consider "length rest < 2" | h l r where "rest = h # l # r" by (cases rest rule: remdups_adj.cases) auto
    then show ?thesis
    proof cases
      case 1
      with 2(3) True show ?thesis by (cases rest rule: remdups_adj.cases) auto
    next
      case (2 h l r)
      with "2.IH"(1) "2.prems" True show ?thesis
        by (cases "u8_from_str_radix16 [h, l]"; cases "decode_query r") (auto split: if_splits)
    qed
  qed
qed simp

lemma validation_errors:
  "validate_query_encoding q = Err e \<Longrightarrow> status e = 400"
  "validate_params p = Err e \<Longrightarrow> status e = 400"
proof -
  show "validate_query_encoding q = Err e \<Longrightarrow> status e = 400"
    using decode_query_error [of q]
    by (cases "decode_query q") (auto simp: validate_query_encoding_def invalid_query_def bad_request_def split: if_splits)
  have "parse_parameter v n d = Err e' \<Longrightarrow> status e' = 400" for v n d e'
    by (auto simp: parse_parameter_def ok_or_def bad_request_def split: option.splits)
  note parse = this
  assume bad: "validate_params p = Err e"
  show "status e = 400"
  proof (cases "parse_parameter (qp_raw_page p) ''page'' 1")
    case (Inl e')
    with bad parse [OF Inl] show ?thesis unfolding validate_params_def Inl by simp
  next
    case page: (Inr page)
    show ?thesis
    proof (cases "parse_parameter (qp_raw_page_size p) ''page_size'' 50")
      case (Inl e')
      from bad parse [OF Inl] show ?thesis
        unfolding validate_params_def page Inl and_then_simps by (auto simp: bad_request_def split: if_splits)
    next
      case (Inr size)
      from bad show ?thesis
        unfolding validate_params_def page Inr and_then_simps Let_def
        by (auto simp: bad_request_def split: if_splits option.splits)
    qed
  qed
qed

text \<open>
  When a read is out of time, given what it came to: no permit or no end of the task within two
  seconds of the request, or an end at the very deadline with an interruption or a lock reported
  for opening the file or running a statement.
\<close>

definition timed_out :: "call_env \<Rightarrow> (bool, store_error) result \<Rightarrow> bool" where
  "timed_out call r \<longleftrightarrow>
     (let deadline = ce_start call + 2000000000 in
      ce_permit call = No_permit \<or>
      (\<exists>t. ce_permit call = Permit_at t \<and>
        (deadline < t \<or> ce_task call = Not_finished \<or>
         (\<exists>t'. (ce_task call = Finished_at t' \<or> ce_task call = Panicked_at t') \<and> deadline < t') \<or>
         (ce_task call = Finished_at deadline \<and> r \<in> {Err Connect_error, Err Statement_error} \<and>
          ce_code call \<in> {Operation_interrupted, Database_busy, Database_locked}))))"

text \<open>Otherwise it fails when the limiter is closed, the task panics, the store reports an error, or
  a moment cannot be printed (\<open>Ok False\<close>).\<close>

definition read_fails :: "call_env \<Rightarrow> (bool, store_error) result \<Rightarrow> bool" where
  "read_fails call r \<longleftrightarrow> ce_permit call = Limiter_closed \<or> (\<exists>t. ce_task call = Panicked_at t) \<or> r \<noteq> Ok True"

definition printed :: "('a \<Rightarrow> ('b, unit) result) \<Rightarrow> ('a, store_error) result \<Rightarrow> (bool, store_error) result" where
  "printed g r = (case r of Err e \<Rightarrow> Err e | Ok v \<Rightarrow> Ok (is_ok (g v)))"

definition read_reply :: "call_env \<Rightarrow> (bool, store_error) result \<Rightarrow> nat \<times> reply_body \<Rightarrow> bool" where
  "read_reply call r reply \<longleftrightarrow>
     (if timed_out call r then reply = (503, Error_body ''dashboard database request timed out'')
      else if read_fails call r then reply = (500, Error_body ''dashboard database unavailable'')
      else fst reply = 200)"

lemma database_call_timed_out:
  "timed_out call (printed g (op (ce_start call + DATABASE_REQUEST_TIMEOUT))) \<Longrightarrow> database_call call op = Err database_timeout"
  by (auto simp: database_call_def database_operation_def from_read_def classify_sqlite_error_ref_def end_of_task_def
      read_failure_of_def timed_out_def printed_def DATABASE_REQUEST_TIMEOUT_def from_secs_def Let_def map_err_def
      split: permit_outcome.splits task_outcome.splits sum.splits)

lemma database_call_in_time:
  "\<not> timed_out call (printed g (op (ce_start call + DATABASE_REQUEST_TIMEOUT))) \<Longrightarrow>
     database_call call op =
       (if ce_permit call = Limiter_closed \<or> (\<exists>t. ce_task call = Panicked_at t) then Err api_database
        else map_err (\<lambda>_. api_database) (op (ce_start call + DATABASE_REQUEST_TIMEOUT)))"
  by (auto simp: database_call_def database_operation_def from_read_def classify_sqlite_error_ref_def end_of_task_def
      read_failure_of_def timed_out_def printed_def DATABASE_REQUEST_TIMEOUT_def from_secs_def Let_def map_err_def
      split: permit_outcome.splits task_outcome.splits sum.splits store_error.splits)

lemma read_reply_call_dto:
  "read_reply call (printed g (op (ce_start call + DATABASE_REQUEST_TIMEOUT)))
     (into_response f (and_then (database_call call op) (\<lambda>v. map_err (\<lambda>_. api_database) (g v))))"
proof (cases "timed_out call (printed g (op (ce_start call + DATABASE_REQUEST_TIMEOUT)))")
  case True
  then show ?thesis
    by (simp add: database_call_timed_out read_reply_def into_response_def database_timeout_def DATABASE_TIMEOUT_def)
next
  case False
  then show ?thesis
    by (auto simp: database_call_in_time read_reply_def read_fails_def into_response_def printed_def api_database_def
        DATABASE_ERROR_def map_err_def split: sum.splits)
qed

lemma read_reply_call:
  "read_reply call (printed Ok (op (ce_start call + DATABASE_REQUEST_TIMEOUT))) (into_response f (database_call call op))"
proof -
  have "and_then (database_call call op) (\<lambda>v. map_err (\<lambda>_. api_database) (Ok v)) = database_call call op"
    by (cases "database_call call op") (simp_all add: map_err_def)
  then show ?thesis using read_reply_call_dto [of call Ok op f] by simp
qed

text \<open>The log request is acceptable when it decodes and its parameters are in range.\<close>

definition accepted_params :: "http_env \<Rightarrow> string option \<Rightarrow> validated_query_params option" where
  "accepted_params env q =
     (let raw = (case q of None \<Rightarrow> [] | Some q \<Rightarrow> q) in
      case validate_query_encoding raw of
        Err _ \<Rightarrow> None
      | Ok _ \<Rightarrow> Option.bind (he_params env raw) (\<lambda>params. case validate_params params of Err _ \<Rightarrow> None | Ok p \<Rightarrow> Some p))"

text \<open>The log endpoint: rejected with 400, or a timed read with validated parameters.\<close>

lemma queries_endpoint_cases:
  obtains (Rejected) e where "queries_endpoint env q st = Err e" "status e = 400" "accepted_params env q = None"
  | (Accepted) params p where "validate_query_encoding (case q of None \<Rightarrow> [] | Some q \<Rightarrow> q) = Ok ()"
      "he_params env (case q of None \<Rightarrow> [] | Some q \<Rightarrow> q) = Some params" "validate_params params = Ok p"
      "queries_endpoint env q st = and_then (database_call (he_call env) (\<lambda>deadline.
         queries_before (he_io env) (read_at env) (vq_page p) (vq_page_size p) (vq_search p) deadline (hs_store st)))
         (\<lambda>v. map_err (\<lambda>_. api_database) (query_page_dto_of (he_rfc3339 env) v))"
proof (cases "validate_query_encoding (case q of None \<Rightarrow> [] | Some q \<Rightarrow> q)")
  case (Inl e)
  with validation_errors(1) [OF Inl] Rejected show thesis by (simp add: queries_endpoint_def accepted_params_def Let_def)
next
  case enc: (Inr u)
  show thesis
  proof (cases "he_params env (case q of None \<Rightarrow> [] | Some q \<Rightarrow> q)")
    case None
    with enc Rejected show thesis by (simp add: queries_endpoint_def accepted_params_def bad_request_def Let_def)
  next
    case (Some params)
    with enc Rejected Accepted validation_errors(2) [of params] show thesis
      by (cases "validate_params params") (simp_all add: queries_endpoint_def accepted_params_def Let_def)
  qed
qed

text \<open>The read behind an endpoint and whether its moments can be printed; \<open>None\<close> when it reads nothing.\<close>

definition endpoint_read :: "http_env \<Rightarrow> endpoint \<Rightarrow> string option \<Rightarrow> http_state \<Rightarrow> (bool, store_error) result option" where
  "endpoint_read env ep q st =
     (let deadline = ce_start (he_call env) + 2000000000; io = he_io env; now = read_at env; db = hs_store st in
      case ep of
        Trend_route \<Rightarrow> Some (printed (trend_dto_of (he_rfc3339 env))
          (trend_before io (he_midnight env) now (hs_retention_days st) (he_utc_ms env) deadline db))
      | Queries_route \<Rightarrow> map_option (\<lambda>p. printed (query_page_dto_of (he_rfc3339 env))
          (queries_before io now (vq_page p) (vq_page_size p) (vq_search p) deadline db)) (accepted_params env q)
      | Rankings_route \<Rightarrow> Some (printed Ok (rankings_before io now deadline db))
      | Response_time_route \<Rightarrow> Some (printed Ok (response_time_before (he_rounding env) io now deadline db))
      | _ \<Rightarrow> None)"

lemma request_timeout: "DATABASE_REQUEST_TIMEOUT = 2000000000"
  by (simp add: DATABASE_REQUEST_TIMEOUT_def from_secs_def)

lemma queries_reply:
  "case accepted_params env q of
     None \<Rightarrow> \<exists>text. serve_endpoint env Queries_route q st = (400, Error_body text)
   | Some p \<Rightarrow> read_reply (he_call env) (printed (query_page_dto_of (he_rfc3339 env))
       (queries_before (he_io env) (read_at env) (vq_page p) (vq_page_size p) (vq_search p)
         (ce_start (he_call env) + DATABASE_REQUEST_TIMEOUT) (hs_store st))) (serve_endpoint env Queries_route q st)"
proof (cases rule: queries_endpoint_cases [of env q st])
  case (Rejected e)
  then show ?thesis by (simp add: serve_endpoint_def into_response_def)
next
  case (Accepted params p)
  then have "accepted_params env q = Some p" by (simp add: accepted_params_def)
  then show ?thesis unfolding serve_endpoint_def endpoint.case Accepted(4) option.case
    using read_reply_call_dto [of "he_call env" _ "\<lambda>deadline. queries_before (he_io env) (read_at env) (vq_page p)
        (vq_page_size p) (vq_search p) deadline (hs_store st)"] by simp
qed

lemma serve_endpoint_reply:
  "case endpoint_read env ep q st of
     Some r \<Rightarrow> read_reply (he_call env) r (serve_endpoint env ep q st)
   | None \<Rightarrow> if ep = Queries_route then \<exists>text. serve_endpoint env ep q st = (400, Error_body text)
       else fst (serve_endpoint env ep q st) = 200"
proof (cases ep)
  case Queries_route
  then show ?thesis using queries_reply [of env q st]
    by (simp add: endpoint_read_def request_timeout Let_def split: option.splits)
next
  case Trend_route
  show ?thesis
    unfolding Trend_route endpoint_read_def serve_endpoint_def trend_endpoint_def Let_def endpoint.case option.case request_timeout [symmetric]
    by (rule read_reply_call_dto)
next
  case Rankings_route
  show ?thesis
    unfolding Rankings_route endpoint_read_def serve_endpoint_def rankings_endpoint_def Let_def endpoint.case option.case request_timeout [symmetric]
    by (rule read_reply_call)
next
  case Response_time_route
  show ?thesis
    unfolding Response_time_route endpoint_read_def serve_endpoint_def response_time_endpoint_def Let_def endpoint.case option.case request_timeout [symmetric]
    by (rule read_reply_call)
qed (simp_all add: endpoint_read_def serve_endpoint_def)

text \<open>C22. Which status is answered, and when. A reply of the dashboard has status 400 exactly when
  it is for the log and the request does not decode or has a parameter out of range. It has status
  503, with its fixed text, exactly when the endpoint reads the database and the read is out of
  time: no permit within two seconds of the request, no end of the task within them, or an end at
  the deadline with an interruption or a lock reported by the database. It has status 500, with its
  fixed text, exactly when the read is not out of time but the limiter is closed, the task panics,
  the store reports an error, or a moment cannot be printed. Otherwise it has status 200. The
  client never sees the error itself.\<close>

theorem api_replies:
  "let (s, b) = serve_endpoint env ep q st; call = he_call env in
     (s = 400 \<longleftrightarrow> ep = Queries_route \<and> accepted_params env q = None) \<and>
     (s = 503 \<longleftrightarrow> (\<exists>r. endpoint_read env ep q st = Some r \<and> timed_out call r)) \<and>
     (s = 500 \<longleftrightarrow> (\<exists>r. endpoint_read env ep q st = Some r \<and> \<not> timed_out call r \<and> read_fails call r)) \<and>
     (s = 200 \<longleftrightarrow> endpoint_read env ep q st = None \<and> ep \<noteq> Queries_route \<or>
        (\<exists>r. endpoint_read env ep q st = Some r \<and> \<not> timed_out call r \<and> \<not> read_fails call r)) \<and>
     s \<in> {200, 400, 500, 503} \<and>
     (s = 503 \<longrightarrow> b = Error_body ''dashboard database request timed out'') \<and>
     (s = 500 \<longrightarrow> b = Error_body ''dashboard database unavailable'')"
proof -
  have none: "endpoint_read env Queries_route q st = None \<longleftrightarrow> accepted_params env q = None"
    by (simp add: endpoint_read_def Let_def)
  show ?thesis
    using serve_endpoint_reply [of ep env q st] none
    by (cases "endpoint_read env ep q st"; cases "serve_endpoint env ep q st")
      (auto simp: read_reply_def Let_def split: if_splits)
qed

section \<open>The log endpoint\<close>

definition record_shown :: "printer \<Rightarrow> database \<Rightarrow> log_row \<Rightarrow> query_record_dto \<Rightarrow> bool" where
  "record_shown rfc3339 db r d \<longleftrightarrow> dto_id d = lr_id r \<and> rfc3339 (lr_timestamp_ms r) = Some (dto_timestamp d) \<and>
     dto_domain d = lr_domain r \<and> dto_query_type d = lr_query_type r \<and> dto_response_code d = lr_response_code r \<and>
     dto_duration_ms d = nat (lr_duration_ms r) \<and> dto_blocked d = lr_blocked r \<and>
     dto_cache_hit d = lr_cache_hit r \<and> dto_response_ips d = row_ips db r \<and> dto_upstream d = lr_upstream r"

lemma record_dto_Ok:
  "rfc3339 (lr_timestamp_ms r) = Some t \<Longrightarrow>
     \<exists>d. query_record_dto_of rfc3339 (shown_record db r) = Ok d \<and> record_shown rfc3339 db r d"
  by (simp add: query_record_dto_of_def shown_record_def record_shown_def)

lemma page_dto_Ok:
  assumes "\<forall>r \<in> set rows. rfc3339 (lr_timestamp_ms r) \<noteq> None" and "qp_records v = map (shown_record db) rows"
  shows "\<exists>ds. query_page_dto_of rfc3339 v =
      Ok \<lparr>pd_page = qp_page v, pd_page_size = qp_page_size v, pd_total = qp_total v, pd_records = ds\<rparr> \<and>
    list_all2 (record_shown rfc3339 db) rows ds"
proof -
  have "\<exists>ds. collect_results (query_record_dto_of rfc3339) (map (shown_record db) rows) = Ok ds \<and>
      list_all2 (record_shown rfc3339 db) rows ds"
    using assms(1)
  proof (induction rows)
    case (Cons r rows)
    then obtain ds t where "collect_results (query_record_dto_of rfc3339) (map (shown_record db) rows) = Ok ds"
      "list_all2 (record_shown rfc3339 db) rows ds" "rfc3339 (lr_timestamp_ms r) = Some t" by auto
    with record_dto_Ok [of rfc3339 r t db] show ?case by auto
  qed simp
  with assms(2) show ?thesis by (auto simp: query_page_dto_of_def)
qed

lemma queries_endpoint_ok:
  assumes "validate_query_encoding q = Ok ()" and "he_params env q = Some params" and "validate_params params = Ok p"
    and "on_time (he_call env)" and "database_inv (hs_store st)"
    and "io_connect (he_io env) \<and> (\<forall>d. io_busy_timeout (he_io env) d)" and "\<forall>n. io_statement (he_io env) n"
    and "\<forall>r \<in> set (query_logs (hs_store st)). he_rfc3339 env (lr_timestamp_ms r) \<noteq> None"
  shows "\<exists>page rows. queries_endpoint env (Some q) st = Ok page \<and>
    rows = take (vq_page_size p) (drop ((vq_page p - 1) * vq_page_size p)
      (newest_first (filter (found_by (hs_store st) (vq_search p)) (query_logs (hs_store st))))) \<and>
    pd_page page = vq_page p \<and>
    pd_total page = int (length (filter (found_by (hs_store st) (vq_search p)) (query_logs (hs_store st)))) \<and>
    list_all2 (record_shown (he_rfc3339 env) (hs_store st)) rows (pd_records page)"
proof -
  let ?db = "hs_store st" and ?d = "ce_start (he_call env) + DATABASE_REQUEST_TIMEOUT"
  let ?rows = "take (vq_page_size p) (drop ((vq_page p - 1) * vq_page_size p)
      (newest_first (filter (found_by ?db (vq_search p)) (query_logs ?db))))"
  note ok = validate_params_Ok [OF assms(3)]
  have page: "max (vq_page p) 1 = vq_page p" using ok by simp
  have fits: "in_i64 (int ((max (vq_page p) 1 - 1) * vq_page_size p))" 
  proof -
    obtain off n where "n = (vq_page p - 1) * vq_page_size p" "Option.bind (checked_u64 n) i64_try_from_u64 = Some off"
      using ok by blast
    then show ?thesis unfolding page by (auto simp: bind_eq_Some_conv simp del: of_nat_mult)
  qed
  obtain t t' where t: "ce_permit (he_call env) = Permit_at t" "ce_task (he_call env) = Finished_at t'" "t \<le> ?d" "t' \<le> ?d"
    using assms(4) by (auto simp: on_time_def)
  have conn: "read_connection (he_io env) (Some ?d) (read_at env) = Ok ()"
    using assms(6) t by (simp add: read_connection_def read_at_def)
  obtain v where v: "queries_before (he_io env) (read_at env) (vq_page p) (vq_page_size p) (vq_search p) ?d ?db = Ok v"
      "qp_page v = vq_page p" "qp_total v = int (length (filter (found_by ?db (vq_search p)) (query_logs ?db)))"
      "qp_records v = map (shown_record ?db) ?rows"
    using queries_page_eq [OF assms(5) _ _ fits conn assms(7), of "vq_search p"] ok
    by (simp add: queries_before_def Let_def page [unfolded One_nat_def])
  have "\<forall>r \<in> set ?rows. he_rfc3339 env (lr_timestamp_ms r) \<noteq> None"
    using assms(8) by (auto simp: newest_first_def dest!: in_set_takeD in_set_dropD)
  from page_dto_Ok [OF this v(4)] obtain ds where ds: "query_page_dto_of (he_rfc3339 env) v =
      Ok \<lparr>pd_page = qp_page v, pd_page_size = qp_page_size v, pd_total = qp_total v, pd_records = ds\<rparr>"
      "list_all2 (record_shown (he_rfc3339 env) ?db) ?rows ds" by blast
  have "database_call (he_call env) (\<lambda>deadline. queries_before (he_io env) (read_at env) (vq_page p) (vq_page_size p) (vq_search p) deadline ?db) = Ok v"
    using t v(1) by (simp add: database_call_def database_operation_def)
  then show ?thesis
    using assms(1-3) ds v(2,3) by (auto simp: queries_endpoint_def)
qed

text \<open>C21. The log endpoint end to end: a well-encoded request with valid parameters, read within
  the two seconds from a sound database, is answered with status 200 and exactly the requested
  slice of the rows found, newest first, each with its printed time and all its addresses, and
  the total number of rows found.\<close>

theorem log_page_served:
  assumes "validate_query_encoding q = Ok ()" and "he_params env q = Some params" and "validate_params params = Ok p"
    and "on_time (he_call env)" and "database_inv (hs_store st)"
    and "io_connect (he_io env) \<and> (\<forall>d. io_busy_timeout (he_io env) d)" and "\<forall>n. io_statement (he_io env) n"
    and "\<forall>r \<in> set (query_logs (hs_store st)). he_rfc3339 env (lr_timestamp_ms r) \<noteq> None"
  shows "\<exists>page. serve_endpoint env Queries_route (Some q) st = (200, Page_body page) \<and> pd_page page = vq_page p \<and>
    pd_total page = int (length (filter (found_by (hs_store st) (vq_search p)) (query_logs (hs_store st)))) \<and>
    list_all2 (record_shown (he_rfc3339 env) (hs_store st))
      (take (vq_page_size p) (drop ((vq_page p - 1) * vq_page_size p)
        (newest_first (filter (found_by (hs_store st) (vq_search p)) (query_logs (hs_store st))))))
      (pd_records page)"
  using queries_endpoint_ok [OF assms] by (auto simp: serve_endpoint_def into_response_def)

definition sample_call :: call_env where
  "sample_call = \<lparr>ce_start = 0, ce_permit = Permit_at 0, ce_task = Finished_at 5, ce_code = Other_code\<rparr>"

definition sample_http_env :: http_env where
  "sample_http_env = \<lparr>he_call = sample_call, he_io = sample_io, he_midnight = utc_midnight, he_rfc3339 = (\<lambda>t. Some ''t''),
     he_utc_ms = 0, he_rounding = exact, he_stats = [],
     he_params = (\<lambda>q. Some \<lparr>qp_raw_page = None, qp_raw_page_size = None, qp_raw_search = None\<rparr>)\<rparr>"

definition sample_http_state :: http_state where
  "sample_http_state = \<lparr>hs_store = sample_db, hs_upstreams = [], hs_retention_days = 7, hs_cache = cache_new 1,
     hs_sampler = sampler_default\<rparr>"

lemma sample_on_time: "on_time (he_call sample_http_env)"
  by (simp add: on_time_def sample_http_env_def sample_call_def DATABASE_REQUEST_TIMEOUT_def from_secs_def)

theorem api_replies_witness:
  "fst (serve_endpoint sample_http_env Rankings_route None sample_http_state) = 200 \<and>
   serve_endpoint (sample_http_env\<lparr>he_call := sample_call\<lparr>ce_permit := No_permit\<rparr>\<rparr>) Rankings_route None sample_http_state =
     (503, Error_body ''dashboard database request timed out'') \<and>
   serve_endpoint (sample_http_env\<lparr>he_call := sample_call\<lparr>ce_task := Panicked_at 5\<rparr>\<rparr>) Rankings_route None sample_http_state =
     (500, Error_body ''dashboard database unavailable'')"
proof (intro conjI)
  have "endpoint_read sample_http_env Rankings_route None sample_http_state = Some (Ok True)"
    by (simp add: endpoint_read_def printed_def sample_http_env_def sample_http_state_def Let_def rankings_before_def
        rankings_with_deadline_def sample_io_def sample_call_def read_at_def read_connection_def io_connect_def)
  then show "fst (serve_endpoint sample_http_env Rankings_route None sample_http_state) = 200"
    using api_replies [of sample_http_env Rankings_route None sample_http_state]
    by (cases "serve_endpoint sample_http_env Rankings_route None sample_http_state")
      (simp add: timed_out_def read_fails_def sample_http_env_def sample_call_def)
  let ?late = "sample_http_env\<lparr>he_call := sample_call\<lparr>ce_permit := No_permit\<rparr>\<rparr>"
  show "serve_endpoint ?late Rankings_route None sample_http_state = (503, Error_body ''dashboard database request timed out'')"
    using api_replies [of ?late Rankings_route None sample_http_state]
    by (cases "serve_endpoint ?late Rankings_route None sample_http_state")
      (auto simp: timed_out_def endpoint_read_def Let_def)
  let ?panics = "sample_http_env\<lparr>he_call := sample_call\<lparr>ce_task := Panicked_at 5\<rparr>\<rparr>"
  show "serve_endpoint ?panics Rankings_route None sample_http_state = (500, Error_body ''dashboard database unavailable'')"
    using api_replies [of ?panics Rankings_route None sample_http_state]
    by (cases "serve_endpoint ?panics Rankings_route None sample_http_state")
      (auto simp: timed_out_def read_fails_def endpoint_read_def Let_def sample_call_def)
qed

lemma sample_request_ok:
  "validate_query_encoding [] = Ok ()"
  "he_params sample_http_env [] = Some \<lparr>qp_raw_page = None, qp_raw_page_size = None, qp_raw_search = None\<rparr>"
  "validate_params \<lparr>qp_raw_page = None, qp_raw_page_size = None, qp_raw_search = None\<rparr> =
     Ok \<lparr>vq_page = 1, vq_page_size = 50, vq_search = None\<rparr>"
  "io_connect (he_io sample_http_env) \<and> (\<forall>d. io_busy_timeout (he_io sample_http_env) d)"
  "\<forall>n. io_statement (he_io sample_http_env) n"
  by (simp_all add: validate_query_encoding_def from_utf8_def sample_http_env_def)
    (simp_all add: sample_io_def validate_params_def parse_parameter_def Let_def in_i64_def i64_min_def i64_max_def)

theorem log_page_served_witness:
  "\<exists>page. serve_endpoint sample_http_env Queries_route (Some []) sample_http_state = (200, Page_body page) \<and> pd_page page = 1"
proof -
  have sound: "database_inv (hs_store sample_http_state)" using sample_db_inv by (simp add: sample_http_state_def)
  have printed: "\<forall>r \<in> set (query_logs (hs_store sample_http_state)). he_rfc3339 sample_http_env (lr_timestamp_ms r) \<noteq> None"
    by (simp add: sample_http_env_def)
  obtain page where "serve_endpoint sample_http_env Queries_route (Some []) sample_http_state = (200, Page_body page)"
      "pd_page page = 1"
    using log_page_served [OF sample_request_ok(1-3) sample_on_time sound sample_request_ok(4,5) printed] by auto
  then show ?thesis by blast
qed

section \<open>At most four reads at a time\<close>

text \<open>
  \<open>database_operation\<close> seen from all requests: a request waits for a permit until its deadline,
  then for its task; the permit moves into the blocking task and comes back only when the task
  ends, also when nobody waits for it any more. A running task is its deadline and whether its
  request still waits.
\<close>

record read_pool =
  rp_available :: nat
  rp_waiting :: "instant list"
  rp_running :: "(instant \<times> bool) list"
  rp_now :: instant

inductive pool_step :: "read_pool \<Rightarrow> read_pool \<Rightarrow> bool" where
  request: "pool_step p (p\<lparr>rp_waiting := rp_waiting p @ [rp_now p + DATABASE_REQUEST_TIMEOUT]\<rparr>)"
| grant: "i < length (rp_waiting p) \<Longrightarrow> 0 < rp_available p \<Longrightarrow> rp_now p \<le> rp_waiting p ! i \<Longrightarrow>
    pool_step p (p\<lparr>rp_available := rp_available p - 1, rp_waiting := remove_nth i (rp_waiting p),
      rp_running := rp_running p @ [(rp_waiting p ! i, True)]\<rparr>)"
| no_permit: "i < length (rp_waiting p) \<Longrightarrow> rp_waiting p ! i \<le> rp_now p \<Longrightarrow>
    pool_step p (p\<lparr>rp_waiting := remove_nth i (rp_waiting p)\<rparr>)"
| give_up: "i < length (rp_running p) \<Longrightarrow> rp_running p ! i = (d, True) \<Longrightarrow> d \<le> rp_now p \<Longrightarrow>
    pool_step p (p\<lparr>rp_running := (rp_running p)[i := (d, False)]\<rparr>)"
| finish: "i < length (rp_running p) \<Longrightarrow>
    pool_step p (p\<lparr>rp_available := rp_available p + 1, rp_running := remove_nth i (rp_running p)\<rparr>)"
| pass: "t \<ge> rp_now p \<Longrightarrow> pool_step p (p\<lparr>rp_now := t\<rparr>)"

definition pool_new :: "instant \<Rightarrow> read_pool" where
  "pool_new now = \<lparr>rp_available = DATABASE_READ_CONCURRENCY, rp_waiting = [], rp_running = [], rp_now = now\<rparr>"

definition pool_init :: "read_pool \<Rightarrow> bool" where
  "pool_init p \<longleftrightarrow> (\<exists>now. p = pool_new now)"

definition pool_reach :: "read_pool \<Rightarrow> bool" where
  "pool_reach = reachable pool_init pool_step"

definition pool_inv :: "read_pool \<Rightarrow> bool" where
  "pool_inv p \<longleftrightarrow> rp_available p + length (rp_running p) = DATABASE_READ_CONCURRENCY \<and>
     list_all (\<lambda>(d, w). \<not> w \<longrightarrow> d \<le> rp_now p) (rp_running p) \<and>
     list_all (\<lambda>d. d \<le> rp_now p + DATABASE_REQUEST_TIMEOUT) (rp_waiting p)"

lemma list_all_list_update: "list_all P xs \<Longrightarrow> P x \<Longrightarrow> list_all P (xs[i := x])"
  by (auto simp: list_all_iff dest!: set_update_subset_insert [THEN subsetD])

lemma pool_inv_step:
  assumes "pool_inv p" and "pool_step p p'"
  shows "pool_inv p'"
  using assms(2,1)
proof cases
  case (pass t)
  with assms(1) show ?thesis by (auto simp: pool_inv_def list_all_iff)
qed (auto simp: pool_inv_def length_remove_nth list_all_remove_nth list_all_list_update)

interpretation pool: inductive_invariant pool_init pool_step pool_inv
proof
  show "pool_inv p" if "pool_init p" for p
    using that by (auto simp: pool_init_def pool_inv_def pool_new_def)
qed (rule pool_inv_step)

text \<open>Load on the database: however many requests arrive and time out, at most four reads run
  at any time, every permit is either free or held by a running read, a read that nobody waits
  for any more is past its deadline, and no request waits longer than two seconds for a permit.\<close>

theorem reads_bounded:
  assumes "pool_reach p"
  shows "length (rp_running p) \<le> 4 \<and> rp_available p = 4 - length (rp_running p) \<and>
    (\<forall>(d, w) \<in> set (rp_running p). w \<or> d \<le> rp_now p) \<and>
    (\<forall>d \<in> set (rp_waiting p). d \<le> rp_now p + DATABASE_REQUEST_TIMEOUT)"
  using pool.always [OF assms [unfolded pool_reach_def]] by (auto simp: pool_inv_def DATABASE_READ_CONCURRENCY_def list_all_iff)

theorem reads_bounded_witness:
  "let p = pool_new 7 in length (rp_running p) \<le> 4 \<and> rp_available p = 4 - length (rp_running p)"
proof -
  have "pool_reach (pool_new 7)" unfolding pool_reach_def by (rule initial) (auto simp: pool_init_def)
  from reads_bounded [OF this] show ?thesis by (simp add: Let_def)
qed

end
