(* ===== verification/History.thy ===== *)
theory History
  imports Store_Worker Http_Api
begin

text \<open>
  The query history from end to end: what the recorder accepted (\<open>dashboard/mod.rs\<close>), the writer
  stored (\<open>dashboard/store.rs\<close>) and the log endpoint shows (\<open>dashboard/http.rs\<close>).

  \<open>event_stored\<close> relates an event to its row in a database, \<open>event_reported\<close> to its entry on a page.
\<close>

section \<open>Events and rows\<close>

definition event_stored :: "database \<Rightarrow> query_event \<Rightarrow> log_row \<Rightarrow> bool" where
  "event_stored db e r \<longleftrightarrow> lr_timestamp_ms r = timestamp_ms e \<and> lr_domain r = domain e \<and> lr_query_type r = query_type e \<and>
     lr_response_code r = response_code_text e \<and> lr_duration_ms r = int (duration_ms e) \<and> lr_blocked r = ev_blocked e \<and>
     lr_cache_hit r = ev_cache_hit e \<and> lr_upstream r = ev_upstream e \<and>
     {ip. (lr_id r, ip) \<in> set (query_response_ips db)} = set (response_ips e)"

definition event_reported :: "printer \<Rightarrow> query_event \<Rightarrow> query_record_dto \<Rightarrow> bool" where
  "event_reported rfc3339 e d \<longleftrightarrow> rfc3339 (timestamp_ms e) = Some (dto_timestamp d) \<and> dto_domain d = domain e \<and>
     dto_query_type d = query_type e \<and> dto_response_code d = response_code_text e \<and> dto_duration_ms d = duration_ms e \<and>
     dto_blocked d = ev_blocked e \<and> dto_cache_hit d = ev_cache_hit e \<and> dto_upstream d = ev_upstream e \<and>
     dto_response_ips d = sorted_list_of_set (set (response_ips e))"

lemma event_stored_cong:
  "event_stored db e r \<Longrightarrow> (\<And>ip. (lr_id r, ip) \<in> set (query_response_ips db') \<longleftrightarrow> (lr_id r, ip) \<in> set (query_response_ips db)) \<Longrightarrow>
     event_stored db' e r"
  by (simp add: event_stored_def)

lemma row_ids: "database_inv db \<Longrightarrow> r \<in> set (query_logs db) \<Longrightarrow> lr_id r \<le> sequence db"
  by (auto simp: database_inv_def logs_inv_def list_all_iff)

lemma ip_ids: "database_inv db \<Longrightarrow> (i, ip) \<in> set (query_response_ips db) \<Longrightarrow> i \<le> sequence db"
proof -
  assume inv: "database_inv db" and "(i, ip) \<in> set (query_response_ips db)"
  then have "i \<in> lr_id ` set (query_logs db)" by (auto simp: database_inv_def ips_inv_def)
  then show ?thesis using row_ids [OF inv] by auto
qed

section \<open>Store operations keep the relation\<close>

lemma insert_event_stored:
  assumes inv: "database_inv db" and stored: "list_all2 (event_stored db) es (query_logs db)"
    and ins: "insert_event midnight db e = Ok db'"
  shows "list_all2 (event_stored db') (es @ [e]) (query_logs db')"
  using ins
proof (rule insert_event_Ok)
  fix daily new
  let ?r = "\<lparr>lr_id = sequence db + 1, lr_timestamp_ms = timestamp_ms e,
       lr_domain = domain e, lr_query_type = query_type e, lr_response_code = response_code_text e,
       lr_duration_ms = int (duration_ms e), lr_blocked = ev_blocked e, lr_cache_hit = ev_cache_hit e,
       lr_upstream = ev_upstream e\<rparr>"
  assume logs: "query_logs db' = query_logs db @ [?r]" and ips: "query_response_ips db' = query_response_ips db @ new"
    and new: "set new \<subseteq> {sequence db + 1} \<times> set (response_ips e)"
      "{sequence db + 1} \<times> set (response_ips e) \<subseteq> set (query_response_ips db')"
  have "(sequence db + 1, ip) \<notin> set (query_response_ips db)" for ip using ip_ids [OF inv, of "sequence db + 1" ip] by auto
  then have "{ip. (sequence db + 1, ip) \<in> set (query_response_ips db')} = set (response_ips e)"
    using new unfolding ips by auto
  then have "event_stored db' e ?r" by (simp add: event_stored_def)
  moreover have "list_all2 (event_stored db') es (query_logs db)"
    using stored
  proof (rule list.rel_mono_strong)
    fix x r assume "r \<in> set (query_logs db)" "event_stored db x r"
    moreover from this(1) have "(lr_id r, ip) \<notin> set new" for ip using new(1) row_ids [OF inv, of r] by auto
    ultimately show "event_stored db' x r" by (auto simp: ips elim!: event_stored_cong)
  qed
  ultimately show ?thesis by (simp add: logs list_all2_appendI)
qed

lemma insert_loop_stored:
  assumes "calendar_laws midnight"
  shows "database_inv db \<Longrightarrow> list_all2 (event_stored db) es (query_logs db) \<Longrightarrow> insert_loop io midnight n db batch = Ok db' \<Longrightarrow>
    list_all2 (event_stored db') (es @ batch) (query_logs db')"
proof (induction batch arbitrary: n db es)
  case (Cons e batch)
  then obtain db1 where db1: "insert_event midnight db e = Ok db1" "insert_loop io midnight (Suc n) db1 batch = Ok db'"
    by (auto simp: and_then_Ok_iff split: if_splits)
  from Cons.IH [OF insert_event_inv [OF assms Cons.prems(1) db1(1)] insert_event_stored [OF Cons.prems(1,2) db1(1)] db1(2)]
  show ?case by simp
qed simp

text \<open>A clean-up keeps the addresses of the rows it keeps.\<close>

lemma cleaned_stored:
  assumes "database_inv db" and "r \<in> set (query_logs (cleaned cutoff db))" and "event_stored db e r"
  shows "event_stored (cleaned cutoff db) e r"
proof -
  have "sorted_wrt (<) (map lr_id (query_logs db))" using assms(1) by (simp add: database_inv_def logs_inv_def)
  then have inj: "inj_on lr_id (set (query_logs db))" by (simp add: strict_sorted_iff distinct_map)
  have r: "r \<in> set (query_logs db)" "\<not> lr_timestamp_ms r < cutoff"
    using assms(2) by (auto simp: cleaned_def delete_logs_def Let_def)
  then have "lr_id r \<notin> lr_id ` {x \<in> set (query_logs db). lr_timestamp_ms x < cutoff}"
    using inj by (auto simp: inj_on_def)
  then show ?thesis using assms(3) by (auto simp: cleaned_def delete_logs_def Let_def elim!: event_stored_cong)
qed

lemma list_all2_submset:
  assumes "list_all2 P xs ys" and "mset ys' \<subseteq># mset ys"
  shows "\<exists>xs'. mset xs' \<subseteq># mset xs \<and> list_all2 P xs' ys'"
proof -
  obtain rest where "mset ys = mset (ys' @ rest)" using assms(2) by (metis ex_mset mset_append mset_subset_eq_exists_conv)
  moreover have "list_all2 (\<lambda>y x. P x y) ys xs" using assms(1) by (simp add: list_all2_conv_all_nth)
  ultimately obtain ws where ws: "list_all2 (\<lambda>y x. P x y) (ys' @ rest) ws" "mset ws = mset xs"
    using list_all2_reorder_left_invariance by metis
  then obtain us vs where us: "ws = us @ vs" "list_all2 (\<lambda>y x. P x y) ys' us" by (auto simp: list_all2_append1)
  then have "list_all2 P us ys'" by (simp add: list_all2_conv_all_nth)
  moreover have "mset us \<subseteq># mset xs" unfolding ws(2) [symmetric] us(1) by simp
  ultimately show ?thesis by blast
qed

lemma cleaned_list_stored:
  assumes "database_inv db" and "list_all2 (event_stored db) es (query_logs db)"
  shows "\<exists>es'. mset es' \<subseteq># mset es \<and> list_all2 (event_stored (cleaned cutoff db)) es' (query_logs (cleaned cutoff db))"
proof -
  have "query_logs (cleaned cutoff db) = filter (\<lambda>r. \<not> lr_timestamp_ms r < cutoff) (query_logs db)"
    by (simp add: cleaned_def delete_logs_def Let_def)
  then have "mset (query_logs (cleaned cutoff db)) \<subseteq># mset (query_logs db)" by (simp add: multiset_filter_subset)
  from list_all2_submset [OF assms(2) this] obtain es' where "mset es' \<subseteq># mset es"
    "list_all2 (event_stored db) es' (query_logs (cleaned cutoff db))" by blast
  then show ?thesis using cleaned_stored [OF assms(1)] list.rel_mono_strong by metis
qed

definition rows_from :: "database \<Rightarrow> query_event list \<Rightarrow> bool" where
  "rows_from db written \<longleftrightarrow> (\<exists>es. mset es \<subseteq># mset written \<and> list_all2 (event_stored db) es (query_logs db))"

lemma rows_from_more: "rows_from db written \<Longrightarrow> rows_from db (written @ xs)"
  unfolding rows_from_def mset_append by (metis mset_subset_eq_add_left subset_mset.order_trans)

lemma store_step_rows:
  assumes "calendar_laws midnight" and inv: "database_inv db" and rows: "rows_from db written"
  shows "rows_from (store_step midnight db op) (written @ concat (inserted [op]))"
proof (cases op)
  case (St_insert io batch)
  have new: "concat (inserted [op]) = batch" by (simp add: St_insert inserted_def map_filter_simps)
  obtain r db' where ins: "insert_events io midnight db batch = (r, db')" by (cases "insert_events io midnight db batch")
  from insert_events_cases [OF ins] consider "db' = db" | "insert_loop io midnight 0 db batch = Ok db'" by blast
  then have "rows_from db' (written @ batch)"
  proof cases
    case 1
    then show ?thesis using rows by (simp add: rows_from_more)
  next
    case 2
    from rows obtain es where es: "mset es \<subseteq># mset written" "list_all2 (event_stored db) es (query_logs db)"
      by (auto simp: rows_from_def)
    then have "mset (es @ batch) \<subseteq># mset (written @ batch)" by simp
    with insert_loop_stored [OF assms(1) inv es(2) 2] show ?thesis unfolding rows_from_def by blast
  qed
  then show ?thesis by (simp add: new) (simp add: St_insert ins)
next
  case (St_cleanup io days now)
  have none: "concat (inserted [op]) = []" by (simp add: St_cleanup inserted_def map_filter_simps)
  obtain r db' where cl: "cleanup io days now db = (r, db')" by (cases "cleanup io days now db")
  from cleanup_cases [OF cl] consider "db' = db" | cutoff where "db' = cleaned cutoff db" by blast
  then have "rows_from db' written"
  proof cases
    case 2
    from rows obtain es where es: "mset es \<subseteq># mset written" "list_all2 (event_stored db) es (query_logs db)"
      by (auto simp: rows_from_def)
    then show ?thesis unfolding 2 rows_from_def using cleaned_list_stored [OF inv es(2)] subset_mset.order_trans by blast
  qed (use rows in simp)
  then show ?thesis by (simp add: none) (simp add: St_cleanup cl)
qed

text \<open>Over any history of operations, the rows are those of some of the events inserted, each once.\<close>

lemma store_run_rows:
  assumes "calendar_laws midnight"
  shows "rows_from (store_run midnight ops) (concat (inserted ops))"
proof (induction ops rule: rev_induct)
  case Nil
  show ?case by (simp add: store_run_def empty_database_def rows_from_def inserted_def map_filter_simps)
next
  case (snoc op ops)
  from store_step_rows [OF assms store_run_inv [OF assms] snoc, of op] show ?case by (simp add: store_run_def)
qed

section \<open>What a page shows\<close>

text \<open>An answer does not depend on statements that were not needed.\<close>

lemma queries_all_statements:
  "queries_with_deadline io deadline now page page_size search db = Ok v \<Longrightarrow>
     queries_with_deadline (io\<lparr>io_statement := \<lambda>n. True\<rparr>) deadline now page page_size search db = Ok v"
  by (auto simp: queries_with_deadline_def read_connection_def io_connect_def and_then_Ok_iff Let_def split: if_splits option.splits)

lemma queries_records:
  assumes "database_inv db" and "queries_with_deadline io deadline now page page_size search db = Ok v"
  shows "qp_records v = map (shown_record db) (take page_size (drop ((max page 1 - 1) * page_size)
      (newest_first (filter (found_by db search) (query_logs db)))))"
proof -
  let ?io = "io\<lparr>io_statement := \<lambda>n. True\<rparr>"
  note ok = queries_all_statements [OF assms(2)]
  have "1 \<le> page_size" "page_size \<le> 200" "in_i64 (int ((max page 1 - 1) * page_size))" "read_connection ?io deadline now = Ok ()"
    using ok by (auto simp: queries_with_deadline_def MAX_QUERY_PAGE_SIZE_def Let_def and_then_Ok_iff bind_eq_Some_conv
        simp del: of_nat_mult split: if_splits option.splits)
  from queries_page_eq [OF assms(1) this] ok show ?thesis by (auto simp: Let_def)
qed

lemma page_dto_shown:
  assumes "query_page_dto_of rfc3339 v = Ok page" and "qp_records v = map (shown_record db) rows"
  shows "list_all2 (record_shown rfc3339 db) rows (pd_records page)"
proof -
  from assms have "collect_results (query_record_dto_of rfc3339) (map (shown_record db) rows) = Ok (pd_records page)"
    by (auto simp: query_page_dto_of_def and_then_Ok_iff)
  then show ?thesis
    by (auto simp: collect_results_Ok_iff list_all2_map1 query_record_dto_of_def and_then_Ok_iff shown_record_def record_shown_def
        elim!: list.rel_mono_strong)
qed

lemma slice_submset: "mset (take n (drop m xs)) \<subseteq># mset xs"
  by (metis append_take_drop_id mset_append mset_subset_eq_add_left mset_subset_eq_add_right subset_mset.trans)

lemma newest_first_sorted: "sorted_wrt (\<lambda>a b. lr_timestamp_ms b \<le> lr_timestamp_ms a) (newest_first rows)"
proof -
  have "sorted (map (\<lambda>r. (- lr_timestamp_ms r, - lr_id r)) (newest_first rows))" by (simp add: newest_first_def)
  then show ?thesis unfolding sorted_map by (rule sorted_wrt_mono_rel [rotated]) auto
qed

lemma served_page_rows:
  assumes "database_inv (hs_store st)" and "serve_endpoint env Queries_route q st = (200, Page_body page)"
  obtains rows where "mset rows \<subseteq># mset (query_logs (hs_store st))" "sorted_wrt (\<lambda>a b. lr_timestamp_ms b \<le> lr_timestamp_ms a) rows"
    "list_all2 (record_shown (he_rfc3339 env) (hs_store st)) rows (pd_records page)"
proof -
  have "queries_endpoint env q st = Ok page"
    using assms(2) by (cases "queries_endpoint env q st") (auto simp: serve_endpoint_def into_response_def)
  then obtain p :: validated_query_params and v where dto: "query_page_dto_of (he_rfc3339 env) v = Ok page" and call: "database_call (he_call env) (\<lambda>deadline.
        queries_before (he_io env) (read_at env) (vq_page p) (vq_page_size p) (vq_search p) deadline (hs_store st)) = Ok v"
    by (auto simp: queries_endpoint_def Let_def and_then_Ok_iff)
  let ?rows = "take (vq_page_size p) (drop ((max (vq_page p) 1 - 1) * vq_page_size p)
      (newest_first (filter (found_by (hs_store st) (vq_search p)) (query_logs (hs_store st)))))"
  from call obtain d where "queries_with_deadline (he_io env) (Some d) (read_at env) (vq_page p) (vq_page_size p) (vq_search p) (hs_store st) = Ok v"
    by (cases rule: database_call_cases) (auto simp: queries_before_def)
  from page_dto_shown [OF dto queries_records [OF assms(1) this]] have "list_all2 (record_shown (he_rfc3339 env) (hs_store st)) ?rows (pd_records page)" .
  moreover have "mset ?rows \<subseteq># mset (query_logs (hs_store st))"
    by (intro subset_mset.trans [OF slice_submset]) (simp add: newest_first_def multiset_filter_subset)
  moreover have "sorted_wrt (\<lambda>a b. lr_timestamp_ms b \<le> lr_timestamp_ms a) ?rows"
    by (intro sorted_wrt_take sorted_wrt_drop newest_first_sorted)
  ultimately show ?thesis using that by blast
qed

text \<open>A row and its entry on the page, seen as the event.\<close>

lemma shown_event:
  assumes "database_inv db" and "event_stored db e r" and "record_shown rfc3339 db r d"
  shows "event_reported rfc3339 e d"
proof -
  have "distinct (query_response_ips db)" using assms(1) by (simp add: database_inv_def ips_inv_def)
  then have "distinct (row_ips db r)" by (auto simp: row_ips_def distinct_map inj_on_def)
  moreover have "set (row_ips db r) = set (response_ips e)" using assms(2) by (force simp: row_ips_def event_stored_def)
  moreover have "sorted (row_ips db r)" by (simp add: row_ips_def)
  ultimately have "row_ips db r = sorted_list_of_set (set (response_ips e))"
    by (metis sorted_list_of_set.idem_if_sorted_distinct)
  with assms(2,3) show ?thesis by (simp add: event_stored_def record_shown_def event_reported_def)
qed

text \<open>
  The history shown is the history that was written: for any run of the writer on a new database,
  every record of a served page shows one of the events of its batches, no event more often than it
  was written, newest first.
\<close>

lemma history_shown:
  assumes "calendar_laws midnight" and "worker_reach midnight days iv r" and "run_initial r = empty_database"
    and "hs_store st = wk_db (run_worker r)" and "serve_endpoint env Queries_route q st = (200, Page_body page)"
  shows "\<exists>es. mset es \<subseteq># mset (concat (run_written r)) \<and> sorted_wrt (\<lambda>a b. timestamp_ms b \<le> timestamp_ms a) es \<and>
    list_all2 (event_reported (he_rfc3339 env)) es (pd_records page)"
proof -
  have db: "hs_store st = store_run midnight (run_ops r)" "inserted (run_ops r) = run_written r"
    using worker_db_reach [OF assms(2)] assms(3,4) by (simp_all add: store_run_def)
  have inv: "database_inv (hs_store st)" unfolding db(1) using assms(1) by (rule store_run_inv)
  from store_run_rows [OF assms(1), of "run_ops r"] obtain es0 where es0: "mset es0 \<subseteq># mset (concat (run_written r))"
      "list_all2 (event_stored (hs_store st)) es0 (query_logs (hs_store st))"
    unfolding db rows_from_def by blast
  from inv assms(5) obtain rows where rows: "mset rows \<subseteq># mset (query_logs (hs_store st))"
      "sorted_wrt (\<lambda>a b. lr_timestamp_ms b \<le> lr_timestamp_ms a) rows"
      "list_all2 (record_shown (he_rfc3339 env) (hs_store st)) rows (pd_records page)" by (rule served_page_rows)
  from list_all2_submset [OF es0(2) rows(1)] obtain es where es: "mset es \<subseteq># mset es0"
      "list_all2 (event_stored (hs_store st)) es rows" by blast
  have "map timestamp_ms es = map lr_timestamp_ms rows"
    using es(2) by (auto simp: list_all2_conv_all_nth event_stored_def intro!: nth_equalityI)
  then have "sorted_wrt (\<lambda>a b. b \<le> a) (map timestamp_ms es)" using rows(2) by (simp add: sorted_wrt_map)
  then have "sorted_wrt (\<lambda>a b. timestamp_ms b \<le> timestamp_ms a) es" by (simp add: sorted_wrt_map)
  moreover have "list_all2 (event_reported (he_rfc3339 env)) es (pd_records page)"
    using list_all2_trans [OF _ es(2) rows(3)] shown_event [OF inv] by blast
  ultimately show ?thesis using es(1) es0(1) subset_mset.trans by blast
qed

section \<open>A concrete history\<close>

text \<open>One event is recorded, taken by the writer, and written when the wait for more is over.\<close>

lemma after_turn:
  assumes "worker_reach midnight days iv r" and "run_worker r = w"
    and "worker_turn midnight days iv io io' ck branch signalled w = Some (w', es)"
  shows "\<exists>r'. worker_reach midnight days iv r' \<and> run_worker r' = w' \<and> run_initial r' = run_initial r \<and>
    run_written r' = run_written r @ (if es = [] then [] else [es])"
  by (rule exI, rule conjI, rule worker_more [OF assms(1) turn [OF assms(3) [folded assms(2)]]]) simp

lemma stored_run:
  assumes "in_i64 (int (duration_ms e))"
  shows "\<exists>r. worker_reach utc_midnight 0 10 r \<and> run_initial r = empty_database \<and> run_written r = [[e]] \<and>
    wk_phase (run_worker r) = Idle \<and> length (query_logs (wk_db (run_worker r))) = 1"
proof -
  let ?idle = "run_worker run_start" and ?ch = "recorder_channel WORKER_CAPACITY" and ?ck = "worker_clock_at 0"
  let ?late = "\<lparr>wc_instant = BATCH_WAIT, wc_utc_ms = 1000\<rparr>"
  let ?queued = "?idle\<lparr>wk_channel := try_record e (wk_channel ?idle)\<rparr>"
  let ?taken = "?idle\<lparr>wk_channel := ?ch, wk_phase := Collecting [e] BATCH_WAIT\<rparr>"
  let ?done = "finish_iteration utc_midnight sample_io sample_io ?late 0 10 [e] ?taken"
  have "worker_reach utc_midnight 0 10 run_start"
    using worker_start [of utc_midnight 0 10 True sample_io ?ck empty_database] by (simp add: run_start_def worker_clock_at_def)
  moreover have "worker_step utc_midnight 0 10 run_start (run_start\<lparr>run_worker := ?queued, run_accepted := run_accepted run_start @
      (if fst (try_send e (wk_channel ?idle)) = Sent then [e] else [])\<rparr>)"
    by (rule record_event) (simp add: run_start_def worker_init_def)
  ultimately obtain r where r: "worker_reach utc_midnight 0 10 r" "run_worker r = ?queued" "run_initial r = empty_database" "run_written r = []"
    using worker_more by (fastforce simp: run_start_def)
  have t1: "worker_turn utc_midnight 0 10 sample_io sample_io ?ck Event_branch False ?queued = Some (?taken, [])"
    by (simp add: worker_turn_def first_event_def run_start_def worker_init_def recv_def try_record_def try_send_def recorder_channel_def
        WORKER_CAPACITY_def worker_clock_at_def Let_def)
  have t2: "worker_turn utc_midnight 0 10 sample_io sample_io ?late Event_branch False ?taken = Some (?done, [e])"
    by (simp add: worker_turn_def collect_event_def run_start_def worker_init_def recv_def recorder_channel_def MAX_BATCH_SIZE_def Let_def)
  have "wk_db ?done = snd (insert_events sample_io utc_midnight empty_database [e])"
    by (simp add: finish_iteration_def clean_if_due_def write_batch_db Let_def run_start_def worker_init_def cleanup_def worker_clock_at_def)
  moreover have "length (query_logs (snd (insert_events sample_io utc_midnight empty_database [e]))) = 1"
  proof -
    obtain db where db: "insert_loop sample_io utc_midnight 0 empty_database [e] = Ok db"
      using insert_loop_total [of sample_io "[e]" utc_midnight empty_database 0] assms
      by (auto simp: sample_io_def utc_midnight_def empty_database_def in_i64_def i64_min_def i64_max_def)
    with insert_loop_rows [OF db] show ?thesis by (simp add: insert_events_def empty_database_def) (simp add: sample_io_def)
  qed
  moreover have "wk_phase ?done = Idle" by (simp add: finish_iteration_def Let_def)
  moreover obtain r1 where "worker_reach utc_midnight 0 10 r1" "run_worker r1 = ?taken" "run_initial r1 = empty_database" "run_written r1 = []"
    using after_turn [OF r(1,2) t1] r(3,4) by auto
  moreover from after_turn [OF this(1,2) t2] this(3,4)
  obtain r2 where "worker_reach utc_midnight 0 10 r2" "run_worker r2 = ?done" "run_initial r2 = empty_database" "run_written r2 = [[e]]" by auto
  ultimately show ?thesis by metis
qed

lemma stored_page:
  assumes "in_i64 (int (duration_ms e))"
  shows "\<exists>r page d. worker_reach utc_midnight 0 10 r \<and> run_initial r = empty_database \<and> run_written r = [[e]] \<and> wk_phase (run_worker r) = Idle \<and>
    serve_endpoint sample_http_env Queries_route (Some []) (sample_http_state\<lparr>hs_store := wk_db (run_worker r)\<rparr>) = (200, Page_body page) \<and>
    pd_records page = [d]"
proof -
  obtain r where r: "worker_reach utc_midnight 0 10 r" "run_initial r = empty_database" "run_written r = [[e]]"
    "wk_phase (run_worker r) = Idle" "length (query_logs (wk_db (run_worker r))) = 1"
    using stored_run [OF assms] by blast
  let ?db = "wk_db (run_worker r)" and ?st = "sample_http_state\<lparr>hs_store := wk_db (run_worker r)\<rparr>"
  have "database_inv ?db"
    using worker_db_reach [OF r(1)] store_run_inv [OF utc_midnight_laws] r(2) by (simp add: store_run_def)
  then have "database_inv (hs_store ?st)" by simp
  from queries_endpoint_ok [OF sample_request_ok(1-3) sample_on_time this sample_request_ok(4,5)]
  obtain page where page: "queries_endpoint sample_http_env (Some []) ?st = Ok page"
    "list_all2 (record_shown (he_rfc3339 sample_http_env) ?db) (take 50 (drop 0 (newest_first (query_logs ?db)))) (pd_records page)"
    by (auto simp: sample_http_env_def found_by_def)
  then have "length (pd_records page) = 1"
    using r(5) by (auto dest!: list_all2_lengthD simp: newest_first_def)
  then obtain d where "pd_records page = [d]" by (auto simp: length_Suc_conv)
  moreover have "serve_endpoint sample_http_env Queries_route (Some []) ?st = (200, Page_body page)"
    using page(1) by (simp add: serve_endpoint_def into_response_def)
  ultimately show ?thesis using r by blast
qed

end
