(* ===== verification/Tls.thy ===== *)
theory Tls
  imports Prelude
begin

text \<open>
  The TLS client configuration of the encrypted upstreams: \<open>src/tls.rs\<close>.

  The TLS library is the record \<open>rustls\<close>: its built-in root certificates, whether it accepts a
  further certificate as a root, what it reads from an encrypted-hello (ECH) list, and which
  protocol versions the two ways of starting a configuration leave.
\<close>

datatype tls_version = Tls12 | Tls13

type_synonym certificate = "u8 list"
type_synonym trust_anchor = "u8 list"

record rustls =
  rl_server_roots :: "trust_anchor list"
  rl_anchor :: "certificate \<Rightarrow> trust_anchor option"
  rl_ech_config :: "u8 list \<Rightarrow> u8 list option"
  rl_with_ech :: "u8 list \<Rightarrow> tls_version list option"
  rl_safe_default_versions :: "tls_version list option"

text \<open>What the sources rely on, as the library documents it: a configuration with ECH speaks only TLS 1.3.\<close>

definition ech_pins_tls13 :: "rustls \<Rightarrow> bool" where
  "ech_pins_tls13 R \<longleftrightarrow> (\<forall>e vs. rl_with_ech R e = Some vs \<longrightarrow> vs = [Tls13])"

datatype tls_error = Bad_extra_root | Bad_ech_list | Ech_not_enabled | No_protocol_versions

record tls_client_config =
  cc_roots :: "trust_anchor list"
  cc_ech :: "u8 list option"
  cc_versions :: "tls_version list"
  cc_alpn :: "u8 list list"

text \<open>The root store: the built-in roots, then the extra certificates in order, up to the first bad one.\<close>

fun add_roots :: "rustls \<Rightarrow> trust_anchor list \<Rightarrow> certificate list \<Rightarrow> (trust_anchor list, tls_error) result" where
  "add_roots R roots [] = Ok roots"
| "add_roots R roots (cert # certs) =
     and_then (ok_or Bad_extra_root (rl_anchor R cert)) (\<lambda>a. add_roots R (roots @ [a]) certs)"

definition client_config ::
  "rustls \<Rightarrow> u8 list list \<Rightarrow> certificate list \<Rightarrow> u8 list option \<Rightarrow> (tls_client_config, tls_error) result" where
  "client_config R alpn extra_roots ech_config_list =
     and_then (add_roots R (rl_server_roots R) extra_roots) (\<lambda>roots.
     and_then (case ech_config_list of
         Some bytes \<Rightarrow>
           and_then (ok_or Bad_ech_list (rl_ech_config R bytes)) (\<lambda>ech.
           and_then (ok_or Ech_not_enabled (rl_with_ech R ech)) (\<lambda>vs.
           Ok \<lparr>cc_roots = roots, cc_ech = Some ech, cc_versions = vs, cc_alpn = []\<rparr>))
       | None \<Rightarrow>
           and_then (ok_or No_protocol_versions (rl_safe_default_versions R)) (\<lambda>vs.
           Ok \<lparr>cc_roots = roots, cc_ech = None, cc_versions = vs, cc_alpn = []\<rparr>)) (\<lambda>config.
     Ok (config\<lparr>cc_alpn := alpn\<rparr>)))"

text \<open>An application protocol name, as the byte strings of the sources.\<close>

definition as_bytes :: "string \<Rightarrow> u8 list" where
  "as_bytes s = map of_char s"

section \<open>What a configuration has\<close>

lemma add_roots_Ok:
  "add_roots R roots certs = Ok roots' \<longleftrightarrow>
     list_all (\<lambda>c. rl_anchor R c \<noteq> None) certs \<and> roots' = roots @ map (the \<circ> rl_anchor R) certs"
  by (induction certs arbitrary: roots) (auto simp: and_then_Ok_iff)

lemma client_config_Ok:
  "client_config R alpn extra ech = Ok cc \<longleftrightarrow>
     list_all (\<lambda>c. rl_anchor R c \<noteq> None) extra \<and> cc_alpn cc = alpn \<and>
     cc_roots cc = rl_server_roots R @ map (the \<circ> rl_anchor R) extra \<and>
     (case ech of
        None \<Rightarrow> cc_ech cc = None \<and> rl_safe_default_versions R = Some (cc_versions cc)
      | Some bytes \<Rightarrow> \<exists>e. rl_ech_config R bytes = Some e \<and> cc_ech cc = Some e \<and> rl_with_ech R e = Some (cc_versions cc))"
  by (auto simp: client_config_def and_then_Ok_iff add_roots_Ok split: option.splits)

lemma client_config_no_extra:
  "client_config R alpn [] ech = Ok cc \<Longrightarrow> cc_roots cc = rl_server_roots R"
  by (simp add: client_config_Ok)

text \<open>An ECH list that was given is never dropped: the hello is encrypted or there is no configuration.\<close>

lemma client_config_ech:
  assumes "client_config R alpn extra ech = Ok cc"
  shows "(cc_ech cc \<noteq> None) = (ech \<noteq> None)" "ech_pins_tls13 R \<Longrightarrow> ech \<noteq> None \<Longrightarrow> cc_versions cc = [Tls13]"
  using assms by (auto simp: client_config_Ok ech_pins_tls13_def split: option.splits)

end
