(* ===== verification/Transports.thy ===== *)
theory Transports
  imports Dns_Message Tls "HOL-Library.Multiset"
begin

text \<open>
  The plain UDP upstream (\<open>src/upstream/plain.rs\<close>), the DNS-over-TLS upstream
  (\<open>src/upstream/dot.rs\<close>) and the order of connection attempts (\<open>src/upstream/mod.rs\<close>).

  The network is a record: whether a step succeeds, what bytes come back and how long it takes.
  The wire codec is the parameter \<open>hickory\<close>.
\<close>

section \<open>The order of addresses\<close>

definition sort_by_family :: "bool \<Rightarrow> ip_addr list \<Rightarrow> ip_addr list" where
  "sort_by_family prefer_ipv6 ips = sort_key (\<lambda>ip. of_bool (is_ipv6 ip \<noteq> prefer_ipv6) :: nat) ips"

lemma sort_key_of_bool:
  "sort_key (\<lambda>x. of_bool (P x) :: nat) xs = filter (\<lambda>x. \<not> P x) xs @ filter P xs"
proof (rule properties_for_sort_key)
  show "mset (filter (\<lambda>x. \<not> P x) xs @ filter P xs) = mset xs"
    by (induction xs) auto
  show "filter (\<lambda>x. of_bool (P k) = (of_bool (P x) :: nat)) (filter (\<lambda>x. \<not> P x) xs @ filter P xs) =
      filter (\<lambda>x. of_bool (P k) = (of_bool (P x) :: nat)) xs" for k
    by (cases "P k") (auto simp: of_bool_eq_iff intro!: filter_cong)
  show "sorted (map (\<lambda>x. of_bool (P x) :: nat) (filter (\<lambda>x. \<not> P x) xs @ filter P xs))"
  proof -
    have "map (\<lambda>x. of_bool (P x) :: nat) (filter (\<lambda>x. \<not> P x) xs) = replicate (length (filter (\<lambda>x. \<not> P x) xs)) 0"
      "map (\<lambda>x. of_bool (P x) :: nat) (filter P xs) = replicate (length (filter P xs)) 1"
      by (auto simp: map_replicate_const intro!: replicate_eqI)
    then show ?thesis by (simp add: sorted_append)
  qed
qed

text \<open>The preferred family first, the given order within each family, no address lost.\<close>

lemma sort_by_family_eq:
  "sort_by_family prefer_ipv6 ips =
     filter (\<lambda>ip. is_ipv6 ip = prefer_ipv6) ips @ filter (\<lambda>ip. is_ipv6 ip \<noteq> prefer_ipv6) ips"
  unfolding sort_by_family_def using sort_key_of_bool [of "\<lambda>ip. is_ipv6 ip \<noteq> prefer_ipv6" ips] by simp

lemma set_sort_by_family [simp]: "set (sort_by_family p ips) = set ips"
  by (auto simp: sort_by_family_eq)

lemma sort_by_family_Nil_iff [simp]: "sort_by_family p ips = [] \<longleftrightarrow> ips = []"
  by (metis set_empty set_sort_by_family)

section \<open>Checking the reply\<close>

text \<open>The last steps of every transport: decode the bytes and compare the identifiers.\<close>

definition decode_reply :: "hickory \<Rightarrow> message \<Rightarrow> u8 list \<Rightarrow> message resolved" where
  "decode_reply H query data = (case from_vec H data of
     None \<Rightarrow> Err Decode_failed
   | Some resp \<Rightarrow> if msg_id resp \<noteq> msg_id query then Err (Id_mismatch (msg_id resp) (msg_id query)) else Ok resp)"

lemma decode_reply_Ok: "decode_reply H q data = Ok r \<longleftrightarrow> from_vec H data = Some r \<and> msg_id r = msg_id q"
  by (auto simp: decode_reply_def split: option.splits)

section \<open>Plain UDP\<close>

record plain_resolver =
  pr_addr :: socket_addr
  pr_timeout :: duration

definition plain_with_timeout :: "socket_addr \<Rightarrow> duration \<Rightarrow> plain_resolver" where
  "plain_with_timeout addr timeout = \<lparr>pr_addr = addr, pr_timeout = timeout\<rparr>"

definition plain_new :: "socket_addr \<Rightarrow> plain_resolver" where
  "plain_new addr = plain_with_timeout addr (from_secs 5)"

datatype udp_reply = Datagram "u8 list" duration | Udp_error duration | Silence

record udp_net =
  un_bind :: "bool \<Rightarrow> bool"
  un_connect :: "socket_addr \<Rightarrow> bool"
  un_send :: "u8 list \<Rightarrow> bool"
  un_reply :: "u8 list \<Rightarrow> udp_reply"

definition plain_resolve :: "hickory \<Rightarrow> udp_net \<Rightarrow> plain_resolver \<Rightarrow> message \<Rightarrow> message resolved" where
  "plain_resolve H net pr query = (case to_vec H query of
     None \<Rightarrow> Err Encode_failed
   | Some bytes \<Rightarrow>
       if \<not> un_bind net (is_ipv6 (sa_ip (pr_addr pr))) then Err Bind_failed
       else if \<not> un_connect net (pr_addr pr) then Err Connect_failed
       else if \<not> un_send net bytes then Err Send_failed
       else (case un_reply net bytes of
               Silence \<Rightarrow> Err Attempt_timed_out
             | Udp_error d \<Rightarrow> if d > pr_timeout pr then Err Attempt_timed_out else Err Receive_failed
             | Datagram data d \<Rightarrow> if d > pr_timeout pr then Err Attempt_timed_out
                               else decode_reply H query (take 65535 data)))"

section \<open>DNS over TLS\<close>

text \<open>Two bytes of length, most significant first, then the message.\<close>

definition to_be_bytes :: "nat \<Rightarrow> u8 list" where
  "to_be_bytes n = [word_of_nat (n div 256), word_of_nat n]"

definition from_be_bytes :: "u8 list \<Rightarrow> nat" where
  "from_be_bytes bs = unat (bs ! 0) * 256 + unat (bs ! 1)"

definition dot_frame :: "u8 list \<Rightarrow> u8 list resolved" where
  "dot_frame bytes =
     (if length bytes > 65535 then Err (Frame_too_large (length bytes)) else Ok (to_be_bytes (length bytes) @ bytes))"

text \<open>\<open>read_exact\<close>: the next bytes of the stream and the rest, or an error at its end.\<close>

definition read_exact :: "nat \<Rightarrow> u8 list \<Rightarrow> (u8 list \<times> u8 list) option" where
  "read_exact n stream = (if length stream < n then None else Some (take n stream, drop n stream))"

definition dot_unframe :: "u8 list \<Rightarrow> u8 list resolved" where
  "dot_unframe stream = (case read_exact 2 stream of
     None \<Rightarrow> Err Receive_failed
   | Some (len, rest) \<Rightarrow>
       (case read_exact (from_be_bytes len) rest of
          None \<Rightarrow> Err Receive_failed
        | Some (data, _) \<Rightarrow> Ok data))"

record dot_resolver =
  dr_addr :: socket_addr
  dr_server_name :: string
  dr_connector :: tls_client_config
  dr_timeout :: duration

text \<open>The TLS library decides whether a name is valid.\<close>

definition dot_with_timeout ::
  "(string \<Rightarrow> bool) \<Rightarrow> socket_addr \<Rightarrow> string \<Rightarrow> tls_client_config \<Rightarrow> duration \<Rightarrow> dot_resolver option" where
  "dot_with_timeout valid_name addr domain tls timeout =
     (if valid_name domain
      then Some \<lparr>dr_addr = addr, dr_server_name = domain, dr_connector = tls, dr_timeout = timeout\<rparr>
      else None)"

definition dot_new :: "(string \<Rightarrow> bool) \<Rightarrow> socket_addr \<Rightarrow> string \<Rightarrow> tls_client_config \<Rightarrow> dot_resolver option" where
  "dot_new valid_name addr domain tls = dot_with_timeout valid_name addr domain tls (from_secs 5)"

record tls_net =
  tn_connect :: "socket_addr \<Rightarrow> bool"
  tn_handshake :: "tls_client_config \<Rightarrow> string \<Rightarrow> bool"
  tn_write :: "u8 list \<Rightarrow> bool"
  tn_stream :: "u8 list \<Rightarrow> u8 list"
  tn_elapsed :: duration

definition dot_exchange :: "hickory \<Rightarrow> tls_net \<Rightarrow> dot_resolver \<Rightarrow> message \<Rightarrow> message resolved" where
  "dot_exchange H net dr query =
     (if \<not> tn_connect net (dr_addr dr) then Err Connect_failed
      else if \<not> tn_handshake net (dr_connector dr) (dr_server_name dr) then Err Tls_failed
      else and_then (ok_or Encode_failed (to_vec H query)) (\<lambda>bytes.
           and_then (dot_frame bytes) (\<lambda>out.
           if \<not> tn_write net out then Err Send_failed
           else and_then (dot_unframe (tn_stream net out)) (decode_reply H query))))"

definition dot_resolve :: "hickory \<Rightarrow> tls_net \<Rightarrow> dot_resolver \<Rightarrow> message \<Rightarrow> message resolved" where
  "dot_resolve H net dr query =
     (if tn_elapsed net > dr_timeout dr then Err Attempt_timed_out else dot_exchange H net dr query)"

section \<open>Framing\<close>

lemma be_bytes_roundtrip: "n \<le> 65535 \<Longrightarrow> from_be_bytes (to_be_bytes n) = n"
  by (simp add: to_be_bytes_def from_be_bytes_def unat_of_nat take_bit_eq_mod)

lemma length_to_be_bytes [simp]: "length (to_be_bytes n) = 2"
  by (simp add: to_be_bytes_def)

lemma unframe_frame: "dot_frame bytes = Ok out \<Longrightarrow> dot_unframe (out @ rest) = Ok bytes"
  by (auto simp: dot_frame_def dot_unframe_def read_exact_def be_bytes_roundtrip split: if_splits)

section \<open>Both keep the identifier\<close>

interpretation plain_ids: id_preserving "plain_resolve H net pr" for H net pr
  by unfold_locales
    (auto simp: plain_resolve_def decode_reply_Ok split: option.splits udp_reply.splits if_splits)

interpretation dot_ids: id_preserving "dot_resolve H net dr" for H net dr
  by unfold_locales
    (auto simp: dot_resolve_def dot_exchange_def and_then_Ok_iff decode_reply_Ok split: if_splits)

text \<open>C32. DNS over TLS delivers: when the query fits the two-byte length and the server sends back a
  frame of at most 65535 bytes, whatever follows it on the stream, the resolver returns exactly
  the message the server encoded, provided its identifier is the query's; with another
  identifier it returns an error. A longer query is refused before anything is written.\<close>

theorem dot_delivers:
  assumes "codec_laws H" and "tn_connect net (dr_addr dr)" and "tn_handshake net (dr_connector dr) (dr_server_name dr)"
    and "tn_elapsed net \<le> dr_timeout dr" and "to_vec H query = Some bytes" and "\<forall>out. tn_write net out"
    and "to_vec H resp = Some answer" and "length answer \<le> 65535"
    and "\<forall>out. tn_stream net out = to_be_bytes (length answer) @ answer @ rest"
  shows "dot_resolve H net dr query =
    (if length bytes > 65535 then Err (Frame_too_large (length bytes))
     else if msg_id resp = msg_id query then Ok resp else Err (Id_mismatch (msg_id resp) (msg_id query)))"
proof -
  have "dot_unframe (to_be_bytes (length answer) @ answer @ rest) = Ok answer"
    using unframe_frame [of answer "to_be_bytes (length answer) @ answer" rest] assms(8) by (simp add: dot_frame_def)
  moreover have "from_vec H answer = Some resp" using assms(1,7) by (simp add: codec_laws_def)
  ultimately show ?thesis
    using assms by (auto simp: dot_resolve_def dot_exchange_def dot_frame_def decode_reply_def)
qed

definition sample_reply :: message where
  "sample_reply = message_new 7 Response_type 0"

text \<open>A codec for one message, for a concrete exchange.\<close>

definition tiny_codec :: hickory where
  "tiny_codec = sample_hickory\<lparr>to_vec := (\<lambda>m. if m = sample_reply then Some [1, 2, 3] else None),
     from_vec := (\<lambda>bs. if bs = [1, 2, 3] then Some sample_reply else None)\<rparr>"

definition tiny_net :: tls_net where
  "tiny_net = \<lparr>tn_connect = (\<lambda>a. True), tn_handshake = (\<lambda>_ _. True), tn_write = (\<lambda>out. True),
     tn_stream = (\<lambda>out. to_be_bytes 3 @ [1, 2, 3] @ [9]), tn_elapsed = 0\<rparr>"

definition tiny_dot :: dot_resolver where
  "tiny_dot = \<lparr>dr_addr = \<lparr>sa_ip = V4 1, sa_port = 853\<rparr>, dr_server_name = ''a'',
     dr_connector = \<lparr>cc_roots = [], cc_ech = None, cc_versions = [Tls13], cc_alpn = []\<rparr>, dr_timeout = 5\<rparr>"

theorem dot_delivers_witness:
  "dot_resolve tiny_codec tiny_net tiny_dot sample_reply = Ok sample_reply"
proof -
  have "codec_laws tiny_codec" by (auto simp: codec_laws_def tiny_codec_def)
  then show ?thesis
    using dot_delivers [of tiny_codec tiny_net tiny_dot sample_reply "[1, 2, 3]" sample_reply "[1, 2, 3]" "[9]"]
    by (simp add: tiny_codec_def tiny_net_def tiny_dot_def numeral_3_eq_3)
qed

end
