(* ===== verification/Doh_Transport.thy ===== *)
theory Doh_Transport
  imports Transports State_Machine
begin

text \<open>
  The DNS-over-HTTPS upstream: \<open>src/upstream/doh.rs\<close> (HTTP/2) and \<open>src/upstream/doh3.rs\<close> (HTTP/3).

  The URL parser, the TLS, QUIC and HTTP libraries and the network are parameters: whether an
  address can be dialled, what a request on a connection gives. A connection is a number. Other
  queries use the same resolver; what they do to the shared slot between two locked sections of
  a query is a function of the slot.
\<close>

section \<open>Construction\<close>

record uri =
  u_scheme :: "string option"
  u_host :: "string option"
  u_port :: "nat option"
  u_path :: string
  u_path_and_query :: "string option"

type_synonym uri_parser = "string \<Rightarrow> uri option"

datatype doh_error =
    Invalid_url | Not_https | Missing_host | Without_ips | Tls_config_failed tls_error
  | Quic_config_failed | Idle_timeout_out_of_range | Quic_endpoint_failed

definition KEEP_ALIVE_INTERVAL :: duration where
  "KEEP_ALIVE_INTERVAL = from_secs 15"

definition MAX_IDLE_TIMEOUT :: duration where
  "MAX_IDLE_TIMEOUT = from_secs 45"

text \<open>
  The QUIC library: whether it takes a TLS configuration and whether a local endpoint can be
  bound, to the unspecified IPv6 address (true) or the IPv4 one (false). Its idle timeout is a
  number of milliseconds below \<open>2\<^sup>6\<^sup>2\<close>.
\<close>

record quic =
  ql_client_config :: "tls_client_config \<Rightarrow> bool"
  ql_endpoint :: "bool \<Rightarrow> bool"

record quic_endpoint =
  qe_ipv6 :: bool
  qe_tls :: tls_client_config
  qe_keep_alive :: "duration option"
  qe_max_idle :: "duration option"

record crypto =
  cx_rustls :: rustls
  cx_quic :: quic

record h3_state =
  h3_generation :: u64
  h3_connection :: nat

record h3_conn =
  h3_host :: string
  h3_port :: nat
  h3_ips :: "ip_addr list"
  h3_endpoint :: quic_endpoint
  h3_slot :: "h3_state option"
  next_generation :: u64

text \<open>With an IPv6 address in the list the endpoint is an IPv6 one, or IPv4 when that cannot be bound.\<close>

definition bind_endpoint :: "quic \<Rightarrow> ip_addr list \<Rightarrow> bool option" where
  "bind_endpoint Q ips =
     (if list_ex is_ipv6 ips \<and> ql_endpoint Q True then Some True
      else if ql_endpoint Q False then Some False else None)"

definition h3_conn_new ::
  "quic \<Rightarrow> string \<Rightarrow> nat \<Rightarrow> ip_addr list \<Rightarrow> tls_client_config \<Rightarrow> (h3_conn, doh_error) result" where
  "h3_conn_new Q host port ips tls =
     (if ips = [] then Err Without_ips
      else if \<not> ql_client_config Q tls then Err Quic_config_failed
      else if 2 ^ 62 \<le> as_millis MAX_IDLE_TIMEOUT then Err Idle_timeout_out_of_range
      else and_then (ok_or Quic_endpoint_failed (bind_endpoint Q ips)) (\<lambda>v6.
        Ok \<lparr>h3_host = host, h3_port = port, h3_ips = ips,
            h3_endpoint = \<lparr>qe_ipv6 = v6, qe_tls = tls, qe_keep_alive = Some KEEP_ALIVE_INTERVAL,
              qe_max_idle = Some MAX_IDLE_TIMEOUT\<rparr>,
            h3_slot = None, next_generation = 0\<rparr>))"

record doh_resolver =
  dh_host :: string
  dh_port :: nat
  dh_path :: string
  dh_ips :: "ip_addr list"
  dh_tls_h2 :: tls_client_config
  dh_http3 :: bool
  dh_timeout :: duration
  dh_h2 :: "nat option"
  dh_h3 :: "h3_conn option"

definition with_extra_roots ::
  "uri_parser \<Rightarrow> crypto \<Rightarrow> string \<Rightarrow> ip_addr list \<Rightarrow> u8 list option \<Rightarrow> bool \<Rightarrow> bool \<Rightarrow> certificate list \<Rightarrow>
     (doh_resolver, doh_error) result" where
  "with_extra_roots parse cx url ips ech http3 prefer_ipv6 extra_roots =
     and_then (ok_or Invalid_url (parse url)) (\<lambda>u.
     if u_scheme u \<noteq> Some ''https'' then Err Not_https
     else and_then (ok_or Missing_host (u_host u)) (\<lambda>host.
       let port = (case u_port u of None \<Rightarrow> 443 | Some p \<Rightarrow> p);
           path = (if u_path u = [] \<or> u_path u = ''/'' then ''/dns-query'' else u_path u) in
       if ips = [] then Err Without_ips
       else let ips = sort_by_family prefer_ipv6 ips in
         and_then (map_err Tls_config_failed (client_config (cx_rustls cx) [as_bytes ''h2''] extra_roots ech)) (\<lambda>tls_h2.
         and_then (if http3
                   then and_then (map_err Tls_config_failed (client_config (cx_rustls cx) [as_bytes ''h3''] extra_roots ech)) (\<lambda>tls_h3.
                        and_then (h3_conn_new (cx_quic cx) host port ips tls_h3) (\<lambda>h3. Ok (Some h3)))
                   else Ok None) (\<lambda>h3.
         Ok \<lparr>dh_host = host, dh_port = port, dh_path = path, dh_ips = ips, dh_tls_h2 = tls_h2, dh_http3 = http3,
             dh_timeout = from_secs 5, dh_h2 = None, dh_h3 = h3\<rparr>))))"

definition doh_new ::
  "uri_parser \<Rightarrow> crypto \<Rightarrow> string \<Rightarrow> ip_addr list \<Rightarrow> u8 list option \<Rightarrow> bool \<Rightarrow> bool \<Rightarrow> (doh_resolver, doh_error) result" where
  "doh_new parse cx url ips ech http3 prefer_ipv6 = with_extra_roots parse cx url ips ech http3 prefer_ipv6 []"

text \<open>What a constructed resolver has.\<close>

lemma h3_conn_new_Ok:
  assumes "h3_conn_new Q host port ips tls = Ok c"
  shows "h3_host c = host" "h3_port c = port" "h3_ips c = ips" "ips \<noteq> []" "qe_tls (h3_endpoint c) = tls"
    "qe_ipv6 (h3_endpoint c) \<Longrightarrow> list_ex is_ipv6 ips" "h3_slot c = None" "next_generation c = 0"
  using assms by (auto simp: h3_conn_new_def bind_endpoint_def and_then_Ok_iff split: if_splits)

lemma doh_new_Ok:
  assumes "doh_new parse cx url ips ech http3 prefer_ipv6 = Ok d"
  shows "dh_ips d \<noteq> [] \<and> dh_path d \<noteq> [] \<and> (dh_h3 d \<noteq> None \<longleftrightarrow> dh_http3 d) \<and> dh_http3 d = http3 \<and>
    dh_ips d = sort_by_family prefer_ipv6 ips \<and> (\<exists>u. parse url = Some u \<and> u_scheme u = Some ''https'' \<and> u_host u = Some (dh_host d))"
  using assms
  by (auto simp: doh_new_def with_extra_roots_def and_then_Ok_iff Let_def split: if_splits)

lemma doh_new_tls:
  assumes "doh_new parse cx url ips ech http3 prefer_ipv6 = Ok d"
  shows "client_config (cx_rustls cx) [as_bytes ''h2''] [] ech = Ok (dh_tls_h2 d)"
    and "dh_h3 d = Some c \<Longrightarrow> client_config (cx_rustls cx) [as_bytes ''h3''] [] ech = Ok (qe_tls (h3_endpoint c))"
    and "dh_h3 d = Some c \<Longrightarrow> h3_host c = dh_host d \<and> h3_port c = dh_port d \<and> h3_ips c = dh_ips d"
  using assms
  by (auto simp: doh_new_def with_extra_roots_def and_then_Ok_iff Let_def split: if_splits dest: h3_conn_new_Ok)

section \<open>Requests\<close>

record http_request =
  rq_method :: string
  rq_uri :: string
  rq_headers :: "(string \<times> string) list"
  rq_body :: "u8 list"

text \<open>The request builder fails when the text is not a URI.\<close>

definition build_request :: "uri_parser \<Rightarrow> string \<Rightarrow> u8 list \<Rightarrow> http_request resolved" where
  "build_request parse uri body =
     and_then (ok_or Request_not_built (parse uri)) (\<lambda>_.
     Ok \<lparr>rq_method = ''POST'', rq_uri = uri,
         rq_headers = [(''content-type'', ''application/dns-message''), (''accept'', ''application/dns-message'')],
         rq_body = body\<rparr>)"

definition doh_uri :: "doh_resolver \<Rightarrow> string" where
  "doh_uri d = ''https://'' @ dh_host d @ '':'' @ dec_string (dh_port d) @ dh_path d"

section \<open>HTTP/2\<close>

datatype http_reply = Transport_error | Http_response nat "u8 list option"

text \<open>
  The network of a query, by the number of the attempt: TCP, the TLS and HTTP/2 handshakes (the
  last gives the connection), the reply to a request on a connection; what the other queries
  do to the slot before the attempt takes the lock and while its request is under way; what the
  slot holds when the query is cut off; and the time the query takes.
\<close>

record h2_net =
  hn_uri :: uri_parser
  hn_tcp :: "nat \<Rightarrow> socket_addr \<Rightarrow> bool"
  hn_valid_name :: "string \<Rightarrow> bool"
  hn_tls :: "nat \<Rightarrow> tls_client_config \<Rightarrow> string \<Rightarrow> socket_addr \<Rightarrow> bool"
  hn_handshake :: "nat \<Rightarrow> socket_addr \<Rightarrow> nat option"
  hn_send :: "nat \<Rightarrow> nat \<Rightarrow> http_request \<Rightarrow> http_reply"
  hn_before :: "nat \<Rightarrow> nat option \<Rightarrow> nat option"
  hn_meanwhile :: "nat \<Rightarrow> nat option \<Rightarrow> nat option"
  hn_cut_off :: "nat option \<Rightarrow> nat option"
  hn_elapsed :: duration

fun connect_h2 :: "h2_net \<Rightarrow> nat \<Rightarrow> doh_resolver \<Rightarrow> ip_addr list \<Rightarrow> nat resolved" where
  "connect_h2 net n d [] = Err No_ip_connected"
| "connect_h2 net n d (ip # ips) =
     (let addr = \<lparr>sa_ip = ip, sa_port = dh_port d\<rparr> in
      if \<not> hn_tcp net n addr then connect_h2 net n d ips
      else if \<not> hn_valid_name net (dh_host d) then Err Invalid_server_name
      else if \<not> hn_tls net n (dh_tls_h2 d) (dh_host d) addr then Err Tls_failed
      else ok_or H2_handshake_failed (hn_handshake net n addr))"

text \<open>The loop over the attempts: what is left, the number of the attempt, the slot.\<close>

fun h2_loop :: "hickory \<Rightarrow> h2_net \<Rightarrow> doh_resolver \<Rightarrow> message \<Rightarrow> u8 list \<Rightarrow> nat \<Rightarrow> nat \<Rightarrow> nat option \<Rightarrow>
    message resolved \<times> nat option" where
  "h2_loop H net d query body 0 n slot = (Err Retry_exhausted, slot)"
| "h2_loop H net d query body (Suc left) n slot =
     (case (case hn_before net n slot of
              Some c \<Rightarrow> Ok c
            | None \<Rightarrow> connect_h2 net n d (dh_ips d)) of
        Err e \<Rightarrow> (Err e, None)
      | Ok c \<Rightarrow>
          (case build_request (hn_uri net) (doh_uri d) body of
             Err e \<Rightarrow> (Err e, Some c)
           | Ok req \<Rightarrow>
               (case hn_send net n c req of
                  Http_response code data \<Rightarrow>
                    (if code \<noteq> 200 then Err (Http_status code)
                     else and_then (ok_or Body_failed data) (decode_reply H query), hn_meanwhile net n (Some c))
                | Transport_error \<Rightarrow>
                    if n = 1 then (Err Request_failed, None)
                    else h2_loop H net d query body left (Suc n) None)))"

definition resolve_h2 :: "hickory \<Rightarrow> h2_net \<Rightarrow> doh_resolver \<Rightarrow> message \<Rightarrow> message resolved \<times> doh_resolver" where
  "resolve_h2 H net d query = (case to_vec H query of
     None \<Rightarrow> (Err Encode_failed, d)
   | Some body \<Rightarrow> (case h2_loop H net d query body 2 0 (dh_h2 d) of (r, slot) \<Rightarrow> (r, d\<lparr>dh_h2 := slot\<rparr>)))"

section \<open>HTTP/3\<close>

definition allocate_generation :: "h3_conn \<Rightarrow> u64 \<times> h3_conn" where
  "allocate_generation c = (next_generation c, c\<lparr>next_generation := next_generation c + 1\<rparr>)"

definition invalidate_generation :: "u64 \<Rightarrow> h3_conn \<Rightarrow> h3_conn" where
  "invalidate_generation g c = (case h3_slot c of
     Some s \<Rightarrow> if h3_generation s = g then c\<lparr>h3_slot := None\<rparr> else c
   | None \<Rightarrow> c)"

text \<open>
  A stream: whether the request body goes out and the stream is finished, and the response with
  its status, the chunks of its body (each a buffer of contiguous pieces) and whether reading
  them ends without an error.
\<close>

record h3_response =
  hr_status :: nat
  hr_chunks :: "u8 list list list"
  hr_ends :: bool

record h3_stream =
  hs_send_data :: "u8 list \<Rightarrow> bool"
  hs_finish :: bool
  hs_recv_response :: "u8 list \<Rightarrow> h3_response option"

record h3_net =
  h3n_uri :: uri_parser
  h3n_closed :: "nat \<Rightarrow> nat \<Rightarrow> bool"
  h3n_start :: "nat \<Rightarrow> quic_endpoint \<Rightarrow> string \<Rightarrow> socket_addr \<Rightarrow> bool"
  h3n_handshake :: "nat \<Rightarrow> socket_addr \<Rightarrow> nat option"
  h3n_setup :: "nat \<Rightarrow> nat \<Rightarrow> bool"
  h3n_send_request :: "nat \<Rightarrow> nat \<Rightarrow> http_request \<Rightarrow> h3_stream option"
  h3n_before :: "nat \<Rightarrow> h3_conn \<Rightarrow> h3_conn"
  h3n_meanwhile :: "nat \<Rightarrow> h3_conn \<Rightarrow> h3_conn"
  h3n_cut_off :: "h3_conn \<Rightarrow> h3_conn"
  h3n_elapsed :: duration

definition try_connect :: "h3_net \<Rightarrow> nat \<Rightarrow> h3_conn \<Rightarrow> socket_addr \<Rightarrow> nat resolved" where
  "try_connect net n c addr =
     (if \<not> h3n_start net n (h3_endpoint c) (h3_host c) addr then Err Quic_start_failed
      else and_then (ok_or Quic_handshake_failed (h3n_handshake net n addr)) (\<lambda>conn.
        if \<not> h3n_setup net n conn then Err H3_setup_failed else Ok conn))"

fun h3_connect :: "h3_net \<Rightarrow> nat \<Rightarrow> h3_conn \<Rightarrow> resolve_error option \<Rightarrow> ip_addr list \<Rightarrow> nat resolved" where
  "h3_connect net n c last_err [] = Err (case last_err of None \<Rightarrow> No_ip_connected | Some e \<Rightarrow> e)"
| "h3_connect net n c last_err (ip # ips) = (case try_connect net n c \<lparr>sa_ip = ip, sa_port = h3_port c\<rparr> of
     Ok conn \<Rightarrow> Ok conn
   | Err e \<Rightarrow> h3_connect net n c (Some e) ips)"

text \<open>
  The locked section: drop a dead connection, connect when there is none, hand out the
  connection with its generation.
\<close>

definition h3_acquire :: "h3_net \<Rightarrow> nat \<Rightarrow> h3_conn \<Rightarrow> h3_state resolved \<times> h3_conn" where
  "h3_acquire net n c =
     (let c = (case h3_slot c of Some s \<Rightarrow> if h3n_closed net n (h3_connection s) then c\<lparr>h3_slot := None\<rparr> else c | None \<Rightarrow> c) in
      case h3_slot c of
        Some s \<Rightarrow> (Ok s, c)
      | None \<Rightarrow>
          (case h3_connect net n c None (h3_ips c) of
             Err e \<Rightarrow> (Err e, c)
           | Ok conn \<Rightarrow>
               (let (g, c) = allocate_generation c; s = \<lparr>h3_generation = g, h3_connection = conn\<rparr>
                in (Ok s, c\<lparr>h3_slot := Some s\<rparr>))))"

fun take_chunk :: "u8 list \<Rightarrow> u8 list list \<Rightarrow> u8 list" where
  "take_chunk data [] = data"
| "take_chunk data (piece # pieces) = take_chunk (data @ piece) pieces"

fun recv_data :: "u8 list \<Rightarrow> u8 list list list \<Rightarrow> bool \<Rightarrow> u8 list resolved" where
  "recv_data data [] ends = (if ends then Ok data else Err Body_failed)"
| "recv_data data (chunk # chunks) ends = recv_data (take_chunk data chunk) chunks ends"

definition h3_exchange :: "h3_net \<Rightarrow> nat \<Rightarrow> nat \<Rightarrow> http_request \<Rightarrow> u8 list \<Rightarrow> u8 list resolved" where
  "h3_exchange net n conn req body =
     and_then (ok_or Request_failed (h3n_send_request net n conn req)) (\<lambda>stream.
     if \<not> hs_send_data stream body then Err Send_failed
     else if \<not> hs_finish stream then Err Send_failed
     else and_then (ok_or Receive_failed (hs_recv_response stream body)) (\<lambda>resp.
       if hr_status resp \<noteq> 200 then Err (Http_status (hr_status resp))
       else recv_data [] (hr_chunks resp) (hr_ends resp)))"

fun h3_loop :: "h3_net \<Rightarrow> string \<Rightarrow> u8 list \<Rightarrow> nat \<Rightarrow> nat \<Rightarrow> h3_conn \<Rightarrow> u8 list resolved \<times> h3_conn" where
  "h3_loop net uri body 0 n c = (Err Retry_exhausted, c)"
| "h3_loop net uri body (Suc left) n c =
     (case h3_acquire net n (h3n_before net n c) of
        (Err e, c) \<Rightarrow> (Err e, c)
      | (Ok s, c) \<Rightarrow>
          (case build_request (h3n_uri net) uri [] of
             Err e \<Rightarrow> (Err e, c)
           | Ok req \<Rightarrow>
               (case h3_exchange net n (h3_connection s) req body of
                  Ok data \<Rightarrow> (Ok data, h3n_meanwhile net n c)
                | Err e \<Rightarrow>
                    (let c = invalidate_generation (h3_generation s) (h3n_meanwhile net n c) in
                     if n = 1 then (Err e, c) else h3_loop net uri body left (Suc n) c))))"

definition h3_request :: "h3_net \<Rightarrow> string \<Rightarrow> u8 list \<Rightarrow> h3_conn \<Rightarrow> u8 list resolved \<times> h3_conn" where
  "h3_request net uri body c = h3_loop net uri body 2 0 c"

definition resolve_h3 :: "hickory \<Rightarrow> h3_net \<Rightarrow> doh_resolver \<Rightarrow> message \<Rightarrow> message resolved \<times> doh_resolver" where
  "resolve_h3 H net d query = (case dh_h3 d of
     None \<Rightarrow> (Err H3_not_enabled, d)
   | Some conn \<Rightarrow>
       (case to_vec H query of
          None \<Rightarrow> (Err Encode_failed, d)
        | Some body \<Rightarrow>
            (case h3_request net (doh_uri d) body conn of
               (Err e, c) \<Rightarrow> (Err e, d\<lparr>dh_h3 := Some c\<rparr>)
             | (Ok data, c) \<Rightarrow> (decode_reply H query data, d\<lparr>dh_h3 := Some c\<rparr>))))"

section \<open>The resolver\<close>

definition doh_resolve :: "hickory \<Rightarrow> h2_net \<Rightarrow> h3_net \<Rightarrow> doh_resolver \<Rightarrow> message \<Rightarrow> message resolved \<times> doh_resolver" where
  "doh_resolve H net2 net3 d query =
     (if dh_http3 d
      then (if h3n_elapsed net3 > dh_timeout d
            then (Err Attempt_timed_out, d\<lparr>dh_h3 := map_option (h3n_cut_off net3) (dh_h3 d)\<rparr>)
            else resolve_h3 H net3 d query)
      else (if hn_elapsed net2 > dh_timeout d
            then (Err Attempt_timed_out, d\<lparr>dh_h2 := hn_cut_off net2 (dh_h2 d)\<rparr>)
            else resolve_h2 H net2 d query))"

lemma take_chunk_eq: "take_chunk data pieces = data @ concat pieces"
  by (induction data pieces rule: take_chunk.induct) simp_all

text \<open>The body is the pieces of all chunks in order, and nothing when reading failed.\<close>

lemma recv_data_eq: "recv_data data chunks ends = (if ends then Ok (data @ concat (concat chunks)) else Err Body_failed)"
  by (induction data chunks ends rule: recv_data.induct) (simp_all add: take_chunk_eq)

lemma h2_loop_id: "h2_loop H net d query body left n slot = (Ok r, slot') \<Longrightarrow> msg_id r = msg_id query"
  by (induction H net d query body left n slot rule: h2_loop.induct)
    (auto simp: and_then_Ok_iff decode_reply_Ok split: sum.splits option.splits http_reply.splits if_splits)

interpretation doh_ids: id_preserving "\<lambda>q. fst (doh_resolve H net2 net3 d q)" for H net2 net3 d
proof
  fix q r
  assume ok: "fst (doh_resolve H net2 net3 d q) = Ok r"
  show "msg_id r = msg_id q"
  proof (cases "dh_http3 d")
    case True
    with ok show ?thesis
      by (auto simp: doh_resolve_def resolve_h3_def decode_reply_Ok split: if_splits option.splits sum.splits prod.splits)
  next
    case False
    with ok obtain body where "h2_loop H net2 d q body 2 0 (dh_h2 d) = (Ok r, snd (h2_loop H net2 d q body 2 0 (dh_h2 d)))"
      by (auto simp: doh_resolve_def resolve_h2_def prod_eq_iff split: if_splits option.splits prod.splits)
    then show ?thesis by (rule h2_loop_id)
  qed
qed

section \<open>Dialling and reconnecting\<close>

text \<open>The first address that accepts the TCP connection decides, the earlier ones have refused it.\<close>

lemma connect_h2_Ok:
  "connect_h2 net n d ips = Ok c \<longleftrightarrow>
     first_match (\<lambda>ip. \<not> hn_tcp net n \<lparr>sa_ip = ip, sa_port = dh_port d\<rparr>)
       (\<lambda>ip. hn_tcp net n \<lparr>sa_ip = ip, sa_port = dh_port d\<rparr> \<and> hn_valid_name net (dh_host d) \<and>
          hn_tls net n (dh_tls_h2 d) (dh_host d) \<lparr>sa_ip = ip, sa_port = dh_port d\<rparr> \<and>
          hn_handshake net n \<lparr>sa_ip = ip, sa_port = dh_port d\<rparr> = Some c) ips"
  by (induction ips) (auto simp: Let_def)

text \<open>For HTTP/3 every address is tried up to the end of the handshakes.\<close>

lemma h3_connect_Ok:
  "h3_connect net n c e ips = Ok conn \<longleftrightarrow>
     first_match (\<lambda>ip. \<not> is_ok (try_connect net n c \<lparr>sa_ip = ip, sa_port = h3_port c\<rparr>))
       (\<lambda>ip. try_connect net n c \<lparr>sa_ip = ip, sa_port = h3_port c\<rparr> = Ok conn) ips"
  by (induction ips arbitrary: e) (auto split: sum.splits)

lemma build_request_Ok: "build_request parse uri body = Ok req \<longleftrightarrow> parse uri \<noteq> None \<and>
    req = \<lparr>rq_method = ''POST'', rq_uri = uri, rq_headers = [(''content-type'', ''application/dns-message''),
      (''accept'', ''application/dns-message'')], rq_body = body\<rparr>"
  by (auto simp: build_request_def and_then_Ok_iff)

text \<open>A dead HTTP/2 connection costs a query nothing but a reconnect: when sending on the connection
  found in the slot fails, some address can be dialled, and the server replies on the new
  connection with status 200 and the encoding of a message with the query's identifier, then
  the query returns that message, provided it does so within the timeout.\<close>

theorem h2_survives_dead_connection:
  assumes "codec_laws H" and "to_vec H query = Some body" and "to_vec H resp = Some answer" and "msg_id resp = msg_id query"
    and "build_request (hn_uri net) (doh_uri d) body = Ok req"
    and "hn_before net 0 (dh_h2 d) = Some old" and "hn_send net 0 old req = Transport_error" and "hn_before net 1 None = None"
    and "dh_ips d = xs @ ip # ys" and "list_all (\<lambda>x. \<not> hn_tcp net 1 \<lparr>sa_ip = x, sa_port = dh_port d\<rparr>) xs"
    and "hn_tcp net 1 \<lparr>sa_ip = ip, sa_port = dh_port d\<rparr>" and "hn_valid_name net (dh_host d)"
    and "hn_tls net 1 (dh_tls_h2 d) (dh_host d) \<lparr>sa_ip = ip, sa_port = dh_port d\<rparr>"
    and "hn_handshake net 1 \<lparr>sa_ip = ip, sa_port = dh_port d\<rparr> = Some c"
    and "hn_send net 1 c req = Http_response 200 (Some answer)"
    and "\<not> dh_http3 d" and "hn_elapsed net \<le> dh_timeout d"
  shows "fst (doh_resolve H net net3 d query) = Ok resp"
proof -
  have dialled: "connect_h2 net (Suc 0) d (dh_ips d) = Ok c"
    unfolding connect_h2_Ok assms(9) using assms(10-14) by (intro first_match_append) simp_all
  have "decode_reply H query answer = Ok resp"
    using assms(1,3,4) by (simp add: decode_reply_Ok codec_laws_def)
  then have "h2_loop H net d query body 2 0 (dh_h2 d) = (Ok resp, hn_meanwhile net 1 (Some c))"
    using assms dialled by (simp add: numeral_2_eq_2)
  then show ?thesis
    using assms(2,16,17) by (simp add: doh_resolve_def resolve_h2_def)
qed

section \<open>Concurrent HTTP/3 requests\<close>

text \<open>
  Any number of requests share the connection: each acquires it in its own locked section and
  later ends or fails, in any order.
\<close>

record h3_run =
  run_conn :: h3_conn
  run_flight :: "h3_state list"
  run_acquired :: nat

inductive h3_step :: "h3_run \<Rightarrow> h3_run \<Rightarrow> bool" where
  acquired: "h3_acquire net n (run_conn r) = (Ok s, c) \<Longrightarrow>
    h3_step r (r\<lparr>run_conn := c, run_flight := run_flight r @ [s], run_acquired := run_acquired r + 1\<rparr>)"
| not_connected: "h3_acquire net n (run_conn r) = (Err e, c) \<Longrightarrow> h3_step r (r\<lparr>run_conn := c\<rparr>)"
| answered: "h3_step r (r\<lparr>run_flight := take i (run_flight r) @ drop (Suc i) (run_flight r)\<rparr>)"
| failed: "i < length (run_flight r) \<Longrightarrow>
    h3_step r (r\<lparr>run_conn := invalidate_generation (h3_generation (run_flight r ! i)) (run_conn r),
      run_flight := take i (run_flight r) @ drop (Suc i) (run_flight r)\<rparr>)"

definition h3_start :: "h3_conn \<Rightarrow> h3_run" where
  "h3_start c = \<lparr>run_conn = c, run_flight = [], run_acquired = 0\<rparr>"

definition h3_init :: "h3_run \<Rightarrow> bool" where
  "h3_init r \<longleftrightarrow> (\<exists>Q host port ips tls c. h3_conn_new Q host port ips tls = Ok c \<and> r = h3_start c)"

definition h3_reach :: "h3_run \<Rightarrow> bool" where
  "h3_reach = reachable h3_init h3_step"

definition h3_known :: "h3_run \<Rightarrow> h3_state set" where
  "h3_known r = set (run_flight r) \<union> set_option (h3_slot (run_conn r))"

text \<open>As long as the generation counter has not wrapped, a generation stands for one connection.\<close>

definition h3_inv :: "h3_run \<Rightarrow> bool" where
  "h3_inv r \<longleftrightarrow> unat (next_generation (run_conn r)) \<le> run_acquired r \<and>
     (\<forall>s \<in> h3_known r. h3_generation s < next_generation (run_conn r)) \<and> inj_on h3_generation (h3_known r)"

lemma h3_acquire_cases:
  assumes "h3_acquire net n c = (res, c')"
  shows "(\<exists>s. res = Ok s \<and> h3_slot c = Some s \<and> c' = c) \<or>
    (\<exists>s. res = Ok s \<and> h3_slot c' = Some s \<and> h3_generation s = next_generation c \<and> next_generation c' = next_generation c + 1) \<or>
    (\<exists>e. res = Err e \<and> h3_slot c' = None \<and> next_generation c' = next_generation c)"
  using assms
  by (auto simp: h3_acquire_def allocate_generation_def Let_def split: option.splits if_splits sum.splits)

lemma h3_inv_subset:
  "h3_inv r \<Longrightarrow> h3_known r' \<subseteq> h3_known r \<Longrightarrow> next_generation (run_conn r') = next_generation (run_conn r) \<Longrightarrow>
     run_acquired r \<le> run_acquired r' \<Longrightarrow> h3_inv r'"
  by (auto simp: h3_inv_def intro: inj_on_subset)

lemma h3_known_removed:
  "h3_known (r\<lparr>run_flight := take i (run_flight r) @ drop (Suc i) (run_flight r)\<rparr>) \<subseteq> h3_known r"
  by (auto simp: h3_known_def dest: in_set_takeD in_set_dropD)

lemma invalidate_frame [simp]: "next_generation (invalidate_generation g c) = next_generation c"
  by (auto simp: invalidate_generation_def split: option.splits)

lemma invalidate_slot: "set_option (h3_slot (invalidate_generation g c)) \<subseteq> set_option (h3_slot c)"
  by (auto simp: invalidate_generation_def split: option.splits if_splits)

lemma h3_inv_new:
  assumes inv: "h3_inv r" and fits: "run_acquired r + 1 < 2 ^ 64"
    and new: "h3_generation s = next_generation (run_conn r)" "next_generation c = next_generation (run_conn r) + 1" "h3_slot c = Some s"
  shows "h3_inv (r\<lparr>run_conn := c, run_flight := run_flight r @ [s], run_acquired := run_acquired r + 1\<rparr>)"
proof -
  let ?r = "r\<lparr>run_conn := c, run_flight := run_flight r @ [s], run_acquired := run_acquired r + 1\<rparr>"
  let ?g = "next_generation (run_conn r)"
  have known: "h3_known ?r \<subseteq> insert s (h3_known r)" using new(3) by (auto simp: h3_known_def)
  have "unat ?g \<le> run_acquired r" using inv by (simp add: h3_inv_def)
  then have "unat ?g + 1 < 2 ^ 64" using fits by linarith
  then have nxt: "unat (?g + 1) = unat ?g + 1" by (simp add: unat_word_ariths)
  then have less: "?g < ?g + 1" by (simp add: word_less_nat_alt)
  have old: "h3_generation x < ?g" if "x \<in> h3_known r" for x using inv that by (simp add: h3_inv_def)
  have "inj_on h3_generation (insert s (h3_known r))"
  proof -
    have "h3_generation s \<notin> h3_generation ` (h3_known r - {s})" using old new(1) by fastforce
    moreover have "inj_on h3_generation (h3_known r)" using inv by (simp add: h3_inv_def)
    ultimately show ?thesis by (simp only: inj_on_insert) simp
  qed
  then have "inj_on h3_generation (h3_known ?r)" using known by (rule inj_on_subset)
  moreover have "h3_generation x < ?g + 1" if "x \<in> h3_known ?r" for x
  proof -
    from that known have "x = s \<or> x \<in> h3_known r" by blast
    then have "h3_generation x \<le> ?g" using new(1) old by (auto intro: less_imp_le)
    then show ?thesis using less by (rule order.strict_trans1)
  qed
  ultimately show ?thesis
    using \<open>unat ?g \<le> run_acquired r\<close> nxt new(2) by (simp add: h3_inv_def)
qed

lemma h3_acquired_mono: "h3_step r r' \<Longrightarrow> run_acquired r \<le> run_acquired r'"
  by (induction rule: h3_step.induct) auto

lemma h3_inv_step:
  assumes "h3_step r r'" and "h3_inv r" and "run_acquired r' < 2 ^ 64"
  shows "h3_inv r'"
  using assms(1)
proof cases
  case (acquired net n s c)
  from h3_acquire_cases [OF acquired(2)] show ?thesis
  proof (elim disjE exE conjE)
    fix t
    assume "Ok s = (Ok t :: h3_state resolved)" "h3_slot (run_conn r) = Some t" "c = run_conn r"
    then show ?thesis
      using assms(2) by (intro h3_inv_subset [OF assms(2)]) (auto simp: acquired(1) h3_known_def)
  next
    fix t
    assume "Ok s = (Ok t :: h3_state resolved)" "h3_slot c = Some t" "h3_generation t = next_generation (run_conn r)"
      "next_generation c = next_generation (run_conn r) + 1"
    then show ?thesis
      using h3_inv_new [OF assms(2), of t c] assms(3) by (simp add: acquired(1))
  qed auto
next
  case (not_connected net n e c)
  then have "h3_slot c = None \<or> c = run_conn r" "next_generation c = next_generation (run_conn r)"
    using h3_acquire_cases [OF not_connected(2)] by auto
  then show ?thesis
    by (intro h3_inv_subset [OF assms(2)]) (auto simp: not_connected(1) h3_known_def)
next
  case (answered i)
  then show ?thesis
    using h3_known_removed [of i r] by (intro h3_inv_subset [OF assms(2)]) auto
next
  case (failed i)
  then show ?thesis
    using invalidate_slot
    by (intro h3_inv_subset [OF assms(2)]) (auto simp: h3_known_def dest: in_set_takeD in_set_dropD)
qed

interpretation h3_runs: invariant_below h3_init h3_step h3_inv run_acquired "2 ^ 64"
proof
  show "h3_inv r" if "h3_init r" for r
    using that by (auto simp: h3_init_def h3_inv_def h3_start_def h3_known_def h3_conn_new_Ok(7,8))
qed (auto intro: h3_inv_step h3_acquired_mono)

lemmas h3_inv_reach = h3_runs.below.always [folded h3_reach_def, rule_format]

text \<open>C31. A failing HTTP/3 request discards only the connection it used: in every reachable state of
  any number of concurrent requests, up to the wrap of the 64-bit generation counter, the
  failure of a request empties the slot exactly when the slot still holds that request's
  connection; a connection that another request has established meanwhile stays.\<close>

theorem h3_keeps_newer_connection:
  assumes "h3_reach r" and "run_acquired r < 2 ^ 64" and "i < length (run_flight r)"
  shows "h3_slot (invalidate_generation (h3_generation (run_flight r ! i)) (run_conn r)) =
    (if h3_slot (run_conn r) = Some (run_flight r ! i) then None else h3_slot (run_conn r))"
proof (cases "h3_slot (run_conn r)")
  case None
  then show ?thesis by (simp add: invalidate_generation_def)
next
  case (Some s)
  have "run_flight r ! i \<in> h3_known r" "s \<in> h3_known r" using assms(3) Some by (auto simp: h3_known_def)
  moreover have "inj_on h3_generation (h3_known r)" using h3_inv_reach [OF assms(1,2)] by (simp add: h3_inv_def)
  ultimately have "h3_generation s = h3_generation (run_flight r ! i) \<longleftrightarrow> s = run_flight r ! i"
    by (auto simp: inj_on_eq_iff)
  with Some show ?thesis by (auto simp: invalidate_generation_def)
qed

definition sample_tls :: tls_client_config where
  "sample_tls = \<lparr>cc_roots = [], cc_ech = None, cc_versions = [Tls13], cc_alpn = []\<rparr>"

definition sample_h3 :: h3_conn where
  "sample_h3 = \<lparr>h3_host = ''a'', h3_port = 443, h3_ips = [V4 1],
     h3_endpoint = \<lparr>qe_ipv6 = False, qe_tls = sample_tls, qe_keep_alive = Some KEEP_ALIVE_INTERVAL, qe_max_idle = Some MAX_IDLE_TIMEOUT\<rparr>,
     h3_slot = None, next_generation = 0\<rparr>"

definition sample_h3_net :: h3_net where
  "sample_h3_net = \<lparr>h3n_uri = (\<lambda>_. None), h3n_closed = (\<lambda>_ _. False), h3n_start = (\<lambda>_ _ _ _. True),
     h3n_handshake = (\<lambda>_ _. Some 9), h3n_setup = (\<lambda>_ _. True), h3n_send_request = (\<lambda>_ _ _. None),
     h3n_before = (\<lambda>_ c. c), h3n_meanwhile = (\<lambda>_ c. c), h3n_cut_off = (\<lambda>c. c), h3n_elapsed = 0\<rparr>"

lemma sample_h3_new: "h3_conn_new \<lparr>ql_client_config = (\<lambda>_. True), ql_endpoint = (\<lambda>_. True)\<rparr> ''a'' 443 [V4 1] sample_tls = Ok sample_h3"
  by (simp add: h3_conn_new_def bind_endpoint_def sample_h3_def MAX_IDLE_TIMEOUT_def from_secs_def as_millis_def is_ipv6_def)

theorem h3_keeps_newer_connection_witness:
  "\<exists>r. h3_reach r \<and> run_acquired r < 2 ^ 64 \<and>
     h3_slot (invalidate_generation (h3_generation (run_flight r ! 0)) (run_conn r)) = None \<and> h3_slot (run_conn r) \<noteq> None"
proof -
  let ?s = "\<lparr>h3_generation = 0, h3_connection = 9\<rparr>" and ?c = "sample_h3\<lparr>h3_slot := Some \<lparr>h3_generation = 0, h3_connection = 9\<rparr>, next_generation := 1\<rparr>"
  let ?i = "h3_start sample_h3"
  let ?r = "?i\<lparr>run_conn := ?c, run_flight := run_flight ?i @ [?s], run_acquired := run_acquired ?i + 1\<rparr>"
  have "h3_acquire sample_h3_net 0 (run_conn ?i) = (Ok ?s, ?c)"
    by (simp add: h3_acquire_def h3_start_def allocate_generation_def try_connect_def sample_h3_net_def sample_h3_def Let_def)
  then have "h3_step ?i ?r" by (rule acquired)
  moreover have "h3_init ?i" unfolding h3_init_def using sample_h3_new by blast
  ultimately have "h3_reach ?r" unfolding h3_reach_def by (blast intro: further initial)
  with h3_keeps_newer_connection [OF this, of 0] show ?thesis
    by (intro exI [of _ ?r]) (simp add: h3_start_def sample_h3_def)
qed

text \<open>One query whose first send fails on the connection 1 of the slot and that then dials the address.\<close>

definition sample_doh :: doh_resolver where
  "sample_doh = \<lparr>dh_host = ''a'', dh_port = 443, dh_path = ''/dns-query'', dh_ips = [V4 1], dh_tls_h2 = sample_tls,
     dh_http3 = False, dh_timeout = from_secs 5, dh_h2 = Some 1, dh_h3 = None\<rparr>"

definition sample_h2_net :: h2_net where
  "sample_h2_net = \<lparr>hn_uri = (\<lambda>_. Some \<lparr>u_scheme = Some ''https'', u_host = Some ''a'', u_port = None, u_path = ''/'', u_path_and_query = None\<rparr>),
     hn_tcp = (\<lambda>_ _. True), hn_valid_name = (\<lambda>_. True), hn_tls = (\<lambda>_ _ _ _. True), hn_handshake = (\<lambda>_ _. Some 2),
     hn_send = (\<lambda>n c _. if c = 1 then Transport_error else Http_response 200 (Some [1, 2, 3])),
     hn_before = (\<lambda>_ s. s), hn_meanwhile = (\<lambda>_ s. s), hn_cut_off = (\<lambda>s. s), hn_elapsed = 0\<rparr>"

theorem h2_survives_dead_connection_witness:
  "fst (doh_resolve tiny_codec sample_h2_net sample_h3_net sample_doh sample_reply) = Ok sample_reply"
proof -
  obtain req where "build_request (hn_uri sample_h2_net) (doh_uri sample_doh) [1, 2, 3] = Ok req"
    by (simp add: build_request_def sample_h2_net_def)
  moreover have "codec_laws tiny_codec" by (auto simp: codec_laws_def tiny_codec_def)
  ultimately show ?thesis
    by (intro h2_survives_dead_connection [where old = 1 and c = 2 and xs = "[]" and ip = "V4 1" and ys = "[]" and body = "[1, 2, 3]"])
      (auto simp: tiny_codec_def sample_h2_net_def sample_doh_def)
qed

end
