(* ===== verification/Bootstrap.thy ===== *)
theory Bootstrap
  imports Doh_Transport Config
begin

text \<open>
  The leaf resolvers as the configuration names them, and the bootstrap resolvers
  (\<open>src/bootstrap.rs\<close>): finding the addresses and the encrypted-hello configuration of an upstream
  by asking fixed resolvers one after the other.
\<close>

section \<open>Leaves\<close>

datatype leaf = Plain_leaf plain_resolver | Dot_leaf dot_resolver | Doh_leaf doh_resolver

text \<open>
  A DNS-over-HTTPS resolver is built once and its connection slots change with every query: the
  state of the slots at the time of a query.
\<close>

record doh_slots =
  ds_h2 :: "nat option"
  ds_h3 :: "h3_state option"
  ds_generation :: u64

definition doh_at :: "doh_slots \<Rightarrow> doh_resolver \<Rightarrow> doh_resolver" where
  "doh_at st d = d\<lparr>dh_h2 := ds_h2 st,
     dh_h3 := map_option (\<lambda>c. c\<lparr>h3_slot := ds_h3 st, next_generation := ds_generation st\<rparr>) (dh_h3 d)\<rparr>"

record net_env =
  ne_udp :: udp_net
  ne_tls :: tls_net
  ne_h2 :: h2_net
  ne_h3 :: h3_net
  ne_doh :: "doh_resolver \<Rightarrow> doh_slots"

fun leaf_resolve :: "hickory \<Rightarrow> net_env \<Rightarrow> leaf \<Rightarrow> message \<Rightarrow> message resolved" where
  "leaf_resolve H env (Plain_leaf r) q = plain_resolve H (ne_udp env) r q"
| "leaf_resolve H env (Dot_leaf r) q = dot_resolve H (ne_tls env) r q"
| "leaf_resolve H env (Doh_leaf r) q = fst (doh_resolve H (ne_h2 env) (ne_h3 env) (doh_at (ne_doh env r) r) q)"

interpretation leaf_ids: id_preserving "leaf_resolve H env l" for H env l
  by unfold_locales (cases l; auto dest: plain_ids.reply_id dot_ids.reply_id doh_ids.reply_id)

text \<open>The libraries the construction calls.\<close>

record libraries =
  lib_uri :: uri_parser
  lib_crypto :: crypto
  lib_valid_name :: "string \<Rightarrow> bool"
  lib_base64 :: "string \<Rightarrow> u8 list option"
  lib_duration :: "string \<Rightarrow> duration option"

datatype build_error =
    Config_problem config_error | Doh_problem doh_error | Bad_server_name string | Tls_problem tls_error
  | Empty_group | Doh_without_bootstrap string | Bootstrap_failed | Bad_ech string | Bad_uri string

definition dot_leaf :: "libraries \<Rightarrow> ip_addr \<Rightarrow> string \<Rightarrow> (string \<times> nat \<times> leaf, build_error) result" where
  "dot_leaf L ip dmn =
     and_then (map_err Config_problem (split_domain_port dmn)) (\<lambda>(host, port).
     and_then (map_err Tls_problem (client_config (cx_rustls (lib_crypto L)) [] [] None)) (\<lambda>tls.
     and_then (ok_or (Bad_server_name host) (dot_new (lib_valid_name L) \<lparr>sa_ip = ip, sa_port = port\<rparr> host tls)) (\<lambda>r.
     Ok (host, port, Dot_leaf r))))"

section \<open>The bootstrap group\<close>

record bootstrap =
  bs_resolvers :: "leaf list"
  bs_prefer_ipv6 :: bool

definition bootstrap_leaf :: "libraries \<Rightarrow> bool \<Rightarrow> upstream_config \<Rightarrow> (leaf, build_error) result" where
  "bootstrap_leaf L prefer6 s = (case s of
     Plain addr \<Rightarrow> Ok (Plain_leaf (plain_new addr))
   | Dot ip dmn \<Rightarrow> and_then (dot_leaf L ip dmn) (\<lambda>(_, _, l). Ok l)
   | Doh url ech http3 ip \<Rightarrow>
       and_then (map_err Doh_problem (doh_new (lib_uri L) (lib_crypto L) url (case ip of None \<Rightarrow> [] | Some a \<Rightarrow> [a]) None http3 prefer6))
         (\<lambda>d. Ok (Doh_leaf d)))"

definition from_config :: "libraries \<Rightarrow> upstream_config list \<Rightarrow> bool \<Rightarrow> (bootstrap, build_error) result" where
  "from_config L servers prefer6 =
     and_then (collect_results (bootstrap_leaf L prefer6) servers) (\<lambda>ls.
     Ok \<lparr>bs_resolvers = ls, bs_prefer_ipv6 = prefer6\<rparr>)"

definition bootstrap_is_empty :: "bootstrap \<Rightarrow> bool" where
  "bootstrap_is_empty b \<longleftrightarrow> bs_resolvers b = []"

definition make_query :: "hickory \<Rightarrow> u16 \<Rightarrow> string \<Rightarrow> record_type \<Rightarrow> message resolved" where
  "make_query H random_id dmn rtype =
     and_then (ok_or Invalid_domain (name_from_str H (trim_end_matches (CHR ''.'') dmn @ ''.''))) (\<lambda>name.
     let m = message_new random_id Query_type 0;
         m = m\<lparr>recursion_desired := True\<rparr>
     in Ok (add_query \<lparr>q_name = name, q_type = rtype\<rparr> m))"

text \<open>
  The resolvers in turn, until one answers. What a leaf answers at the moment it is asked is the
  argument \<open>ask\<close>.
\<close>

fun ask_in_turn :: "(leaf \<Rightarrow> message \<Rightarrow> message resolved) \<Rightarrow> message \<Rightarrow> resolve_error option \<Rightarrow> leaf list \<Rightarrow> message resolved" where
  "ask_in_turn ask query last_err [] = Err (case last_err of None \<Rightarrow> No_resolvers | Some e \<Rightarrow> e)"
| "ask_in_turn ask query last_err (r # rs) = (case ask r query of
     Ok resp \<Rightarrow> Ok resp
   | Err e \<Rightarrow> ask_in_turn ask query (Some e) rs)"

record bootstrap_env =
  be_ask :: "record_type \<Rightarrow> leaf \<Rightarrow> message \<Rightarrow> message resolved"
  be_random :: "record_type \<Rightarrow> u16"

definition bootstrap_query :: "hickory \<Rightarrow> bootstrap_env \<Rightarrow> bootstrap \<Rightarrow> string \<Rightarrow> record_type \<Rightarrow> message resolved" where
  "bootstrap_query H env b dmn rtype =
     and_then (make_query H (be_random env rtype) dmn rtype) (\<lambda>query.
     ask_in_turn (be_ask env rtype) query None (bs_resolvers b))"

definition answer_addr :: "rr \<Rightarrow> ip_addr option" where
  "answer_addr r = (case rr_data r of RData_A a \<Rightarrow> Some (V4 a) | RData_AAAA a \<Rightarrow> Some (V6 a) | _ \<Rightarrow> None)"

text \<open>The ordered set of addresses is a strictly ascending list.\<close>

definition collect_answers :: "ip_addr list \<Rightarrow> message \<Rightarrow> ip_addr list" where
  "collect_answers ips resp = foldl (\<lambda>ips r. case answer_addr r of None \<Rightarrow> ips | Some a \<Rightarrow> insort_insert a ips) ips (answers resp)"

definition resolve_ips :: "hickory \<Rightarrow> bootstrap_env \<Rightarrow> bootstrap \<Rightarrow> string \<Rightarrow> (ip_addr list, build_error) result" where
  "resolve_ips H env b dmn =
     (let ips = foldl (\<lambda>ips rtype. case bootstrap_query H env b dmn rtype of
                        Ok resp \<Rightarrow> collect_answers ips resp
                      | Err e \<Rightarrow> ips) [] [RT_A, RT_AAAA] in
      if ips = [] then Err Bootstrap_failed
      else Ok (sort_by_family (bs_prefer_ipv6 b) ips))"

definition ech_param :: "svc_param_key \<times> svc_param_value \<Rightarrow> u8 list option" where
  "ech_param kv = (case kv of (Key_EchConfigList, Val_EchConfigList l) \<Rightarrow> Some l | _ \<Rightarrow> None)"

definition ech_record :: "rr \<Rightarrow> u8 list option" where
  "ech_record r = (case rr_data r of
     RData_HTTPS params \<Rightarrow> (case List.map_filter ech_param params of [] \<Rightarrow> None | l # _ \<Rightarrow> Some l)
   | _ \<Rightarrow> None)"

definition fetch_ech :: "hickory \<Rightarrow> bootstrap_env \<Rightarrow> bootstrap \<Rightarrow> string \<Rightarrow> u8 list option resolved" where
  "fetch_ech H env b dmn =
     and_then (bootstrap_query H env b dmn RT_HTTPS) (\<lambda>resp.
     Ok (case List.map_filter ech_record (answers resp) of [] \<Rightarrow> None | l # _ \<Rightarrow> Some l))"

section \<open>Addresses\<close>

lemma ask_in_turn_Ok:
  "ask_in_turn ask query e rs = Ok m \<longleftrightarrow>
     first_match (\<lambda>r. \<not> is_ok (ask r query)) (\<lambda>r. ask r query = Ok m) rs"
  by (induction rs arbitrary: e) (auto split: sum.splits)

lemma collect_answers_set:
  "set (collect_answers ips resp) = set ips \<union> set (List.map_filter answer_addr (answers resp))"
proof -
  have "set (foldl (\<lambda>ips r. case answer_addr r of None \<Rightarrow> ips | Some a \<Rightarrow> insort_insert a ips) ips rs) =
      set ips \<union> set (List.map_filter answer_addr rs)" for rs
    by (induction rs arbitrary: ips) (auto simp: set_insort_insert List.map_filter_simps split: option.splits)
  then show ?thesis by (simp add: collect_answers_def)
qed

lemma collect_answers_sorted:
  "sorted ips \<and> distinct ips \<Longrightarrow> sorted (collect_answers ips resp) \<and> distinct (collect_answers ips resp)"
proof -
  have "sorted ips \<and> distinct ips \<Longrightarrow>
      sorted (foldl (\<lambda>ips r. case answer_addr r of None \<Rightarrow> ips | Some a \<Rightarrow> insort_insert a ips) ips rs) \<and>
      distinct (foldl (\<lambda>ips r. case answer_addr r of None \<Rightarrow> ips | Some a \<Rightarrow> insort_insert a ips) ips rs)" for rs
    by (induction rs arbitrary: ips) (auto simp: sorted_insort_insert distinct_insort_insert split: option.splits)
  then show "sorted ips \<and> distinct ips \<Longrightarrow> ?thesis" by (simp add: collect_answers_def)
qed

definition found_addrs :: "hickory \<Rightarrow> bootstrap_env \<Rightarrow> bootstrap \<Rightarrow> string \<Rightarrow> record_type \<Rightarrow> ip_addr set" where
  "found_addrs H env b dmn rtype = (case bootstrap_query H env b dmn rtype of
     Ok resp \<Rightarrow> set (List.map_filter answer_addr (answers resp)) | Err _ \<Rightarrow> {})"

text \<open>C34. Finding an upstream's addresses: the result holds, without duplicates, exactly the addresses
  of the two lookups, of which one may have failed; the preferred family comes first and each
  family is in ascending order; and it is an error exactly when no address was found.\<close>

theorem resolve_ips_spec:
  "let found = found_addrs H env b dmn RT_A \<union> found_addrs H env b dmn RT_AAAA in
   if found = {} then resolve_ips H env b dmn = Err Bootstrap_failed
   else \<exists>first second. resolve_ips H env b dmn = Ok (first @ second) \<and> set (first @ second) = found \<and>
     sorted first \<and> sorted second \<and> distinct (first @ second) \<and>
     list_all (\<lambda>ip. is_ipv6 ip = bs_prefer_ipv6 b) first \<and> list_all (\<lambda>ip. is_ipv6 ip \<noteq> bs_prefer_ipv6 b) second"
proof -
  let ?step = "\<lambda>ips rtype. case bootstrap_query H env b dmn rtype of Ok resp \<Rightarrow> collect_answers ips resp | Err e \<Rightarrow> ips"
  let ?ips = "foldl ?step [] [RT_A, RT_AAAA]"
  have set: "set (?step ips t) = set ips \<union> found_addrs H env b dmn t" for ips t
    by (simp add: found_addrs_def collect_answers_set split: sum.splits)
  have sd: "sorted ips \<and> distinct ips \<Longrightarrow> sorted (?step ips t) \<and> distinct (?step ips t)" for ips t
    by (simp add: collect_answers_sorted split: sum.splits)
  have found: "set ?ips = found_addrs H env b dmn RT_A \<union> found_addrs H env b dmn RT_AAAA"
    using set by simp
  have ord: "sorted ?ips \<and> distinct ?ips" using sd [OF sd, of "[]"] by simp
  let ?first = "filter (\<lambda>ip. is_ipv6 ip = bs_prefer_ipv6 b) ?ips" and ?second = "filter (\<lambda>ip. is_ipv6 ip \<noteq> bs_prefer_ipv6 b) ?ips"
  have "?ips \<noteq> [] \<Longrightarrow> resolve_ips H env b dmn = Ok (?first @ ?second)"
    unfolding resolve_ips_def Let_def sort_by_family_eq by simp
  moreover have "?ips = [] \<Longrightarrow> resolve_ips H env b dmn = Err Bootstrap_failed" by (simp add: resolve_ips_def)
  moreover have "set (?first @ ?second) = set ?ips" "sorted ?first" "sorted ?second" "distinct (?first @ ?second)"
    "list_all (\<lambda>ip. is_ipv6 ip = bs_prefer_ipv6 b) ?first" "list_all (\<lambda>ip. is_ipv6 ip \<noteq> bs_prefer_ipv6 b) ?second"
    using ord sorted_filter [of "\<lambda>x. x" ?ips] by (auto simp: list_all_iff)
  ultimately show ?thesis
    unfolding Let_def found [symmetric] set_empty by (metis (no_types, lifting))
qed

end
