(* ===== verification/Fetch.thy ===== *)
theory Fetch
  imports Bootstrap Utf8 Ad_Filter
begin

text \<open>
  Fetching a rule file (\<open>src/fetch.rs\<close>): at most three redirects, a body of at most 20 MiB; and
  what \<open>src/filter.rs\<close> makes of the result, at the start and in the background. The URL parser, the
  network under the bootstrap resolvers, the TLS library and what a server sends are parameters;
  each exchange is numbered by the round it belongs to.
\<close>

definition MAX_BODY :: nat where
  "MAX_BODY = 20 * 1024 * 1024"

definition MAX_REDIRECTS :: nat where
  "MAX_REDIRECTS = 3"

datatype fetch_error =
    Fetch_invalid_url string | Unsupported_scheme string | Url_without_host | No_bootstrap string
  | Lookup_failed | No_connection | Get_not_built | Fetch_tls_config tls_error | Fetch_bad_name string
  | Fetch_tls_failed | H1_handshake_failed | Exchange_failed | Redirect_without_location
  | Bad_status string nat | Reading_failed | Body_too_large string | Too_many_redirects string

text \<open>The reply of a server: status, location header, and the frames of its body, where a frame may
  fail to arrive and may carry no data.\<close>

record http_result =
  hp_status :: nat
  hp_location :: "string option"
  hp_frames :: "u8 list option option list"

record fetch_env =
  fe_parse :: uri_parser
  fe_hickory :: hickory
  fe_bootstrap :: bootstrap
  fe_lookup :: "nat \<Rightarrow> bootstrap_env"
  fe_connect :: "nat \<Rightarrow> ip_addr \<Rightarrow> nat \<Rightarrow> bool"
  fe_rustls :: rustls
  fe_valid_name :: "string \<Rightarrow> bool"
  fe_tls :: "nat \<Rightarrow> ip_addr \<Rightarrow> tls_client_config \<Rightarrow> string \<Rightarrow> bool"
  fe_handshake :: "nat \<Rightarrow> ip_addr \<Rightarrow> bool"
  fe_send :: "nat \<Rightarrow> ip_addr \<Rightarrow> bool \<Rightarrow> http_request \<Rightarrow> http_result option"
  fe_elapsed :: duration

fun read_body :: "string \<Rightarrow> u8 list \<Rightarrow> u8 list option option list \<Rightarrow> (u8 list, fetch_error) result" where
  "read_body current body [] = Ok body"
| "read_body current body (None # fs) = Err Reading_failed"
| "read_body current body (Some None # fs) = read_body current body fs"
| "read_body current body (Some (Some chunk) # fs) =
     (if length body + length chunk > MAX_BODY then Err (Body_too_large current)
      else read_body current (body @ chunk) fs)"

definition fetch_ips :: "fetch_env \<Rightarrow> nat \<Rightarrow> string \<Rightarrow> (ip_addr list, fetch_error) result" where
  "fetch_ips env n host = (case parse_ip host of
     Some ip \<Rightarrow> Ok [ip]
   | None \<Rightarrow> if bootstrap_is_empty (fe_bootstrap env) then Err (No_bootstrap host)
       else map_err (\<lambda>_. Lookup_failed) (resolve_ips (fe_hickory env) (fe_lookup env n) (fe_bootstrap env) host))"

definition request_path :: "uri \<Rightarrow> string" where
  "request_path u = (if u_path u = [] then ''/'' else case u_path_and_query u of Some pq \<Rightarrow> pq | None \<Rightarrow> ''/'')"

definition next_url :: "bool \<Rightarrow> string \<Rightarrow> nat \<Rightarrow> string \<Rightarrow> string" where
  "next_url https host port loc =
     (if starts_with ''http://'' loc \<or> starts_with ''https://'' loc then loc
      else (if https then ''https'' else ''http'') @ ''://'' @ host @ '':'' @ dec_string port @ loc)"

text \<open>The request; its builder fails when the path is not accepted as a URI.\<close>

definition get_request :: "uri_parser \<Rightarrow> string \<Rightarrow> string \<Rightarrow> (http_request, fetch_error) result" where
  "get_request parse host path =
     and_then (ok_or Get_not_built (parse path)) (\<lambda>_.
     Ok \<lparr>rq_method = ''GET'', rq_uri = path,
         rq_headers = [(''host'', host), (''user-agent'', ''dnsbuffer/0.1''), (''connection'', ''close'')], rq_body = []\<rparr>)"

definition fetch_tls :: "fetch_env \<Rightarrow> nat \<Rightarrow> ip_addr \<Rightarrow> string \<Rightarrow> (unit, fetch_error) result" where
  "fetch_tls env n ip host =
     and_then (map_err Fetch_tls_config (client_config (fe_rustls env) [as_bytes ''http/1.1''] [] None)) (\<lambda>tls.
     if \<not> fe_valid_name env host then Err (Fetch_bad_name host)
     else if \<not> fe_tls env n ip tls host then Err Fetch_tls_failed else Ok ())"

definition fetch_exchange :: "fetch_env \<Rightarrow> nat \<Rightarrow> ip_addr \<Rightarrow> bool \<Rightarrow> string \<Rightarrow> string \<Rightarrow> (http_result, fetch_error) result" where
  "fetch_exchange env n ip https host path =
     and_then (get_request (fe_parse env) host path) (\<lambda>req.
     and_then (if https then fetch_tls env n ip host else Ok ()) (\<lambda>_.
     if \<not> fe_handshake env n ip then Err H1_handshake_failed
     else ok_or Exchange_failed (fe_send env n ip https req)))"

text \<open>One round up to the server's reply.\<close>

definition fetch_round :: "fetch_env \<Rightarrow> nat \<Rightarrow> string \<Rightarrow> (bool \<times> string \<times> nat \<times> http_result, fetch_error) result" where
  "fetch_round env n current =
     and_then (ok_or (Fetch_invalid_url current) (fe_parse env current)) (\<lambda>u.
     and_then (if u_scheme u = Some ''https'' then Ok True else if u_scheme u = Some ''http'' then Ok False
               else Err (Unsupported_scheme current)) (\<lambda>https.
     and_then (ok_or Url_without_host (u_host u)) (\<lambda>host.
     let port = (case u_port u of Some p \<Rightarrow> p | None \<Rightarrow> if https then 443 else 80) in
     and_then (fetch_ips env n host) (\<lambda>ips.
     and_then (ok_or No_connection (List.find (\<lambda>ip. fe_connect env n ip port) ips)) (\<lambda>ip.
     and_then (fetch_exchange env n ip https host (request_path u)) (\<lambda>resp.
     Ok (https, host, port, resp)))))))"

text \<open>The loop: rounds left, the number of the round, the URL of the round.\<close>

fun fetch_loop :: "fetch_env \<Rightarrow> string \<Rightarrow> nat \<Rightarrow> nat \<Rightarrow> string \<Rightarrow> (u8 list, fetch_error) result" where
  "fetch_loop env url 0 n current = Err (Too_many_redirects url)"
| "fetch_loop env url (Suc left) n current =
     (case fetch_round env n current of
        Err e \<Rightarrow> Err e
      | Ok (https, host, port, resp) \<Rightarrow>
          if 300 \<le> hp_status resp \<and> hp_status resp < 400 then
            (case hp_location resp of
               None \<Rightarrow> Err Redirect_without_location
             | Some loc \<Rightarrow> fetch_loop env url left (Suc n) (next_url https host port loc))
          else if \<not> (200 \<le> hp_status resp \<and> hp_status resp < 300) then Err (Bad_status current (hp_status resp))
          else read_body current [] (hp_frames resp))"

definition fetch_url :: "fetch_env \<Rightarrow> string \<Rightarrow> (u8 list, fetch_error) result" where
  "fetch_url env url = fetch_loop env url (MAX_REDIRECTS + 1) 0 url"

text \<open>The download of a rule source, with the time-out around it and the decoding of the body.\<close>

definition fetch_rules :: "fetch_env \<Rightarrow> string \<Rightarrow> fetch_outcome" where
  "fetch_rules env url =
     (if fe_elapsed env > from_secs 60 then Fetch_timed_out
      else case fetch_url env url of Ok bytes \<Rightarrow> Fetched (from_utf8_lossy bytes) | Err _ \<Rightarrow> Fetch_failed)"

text \<open>
  The background refresh: the task there is (with the period of its ticker) when some source is
  scheduled, and what it does to the filter over the ticks after the first, each with what the
  files hold and what the network does to the download of each URL.
\<close>

record rule_updater =
  ru_sources :: "rule_source list"
  ru_period :: duration

definition spawn_updater :: "(string \<Rightarrow> duration option) \<Rightarrow> rule_source list \<Rightarrow> rule_updater option" where
  "spawn_updater parse_duration sources = (case min_interval parse_duration sources of
     None \<Rightarrow> None
   | Some period \<Rightarrow> Some \<lparr>ru_sources = sources, ru_period = period\<rparr>)"

definition updater_task ::
  "rule_updater \<Rightarrow> ad_filter \<Rightarrow> ((string \<Rightarrow> string option) \<times> (string \<Rightarrow> fetch_env)) list \<Rightarrow> ad_filter" where
  "updater_task u f ticks =
     updater_run (ru_sources u) f (map (\<lambda>(read, env). (read, \<lambda>url. fetch_rules (env url) url)) ticks)"

text \<open>A refresh is scheduled exactly when some URL source has a usable interval, and never with period zero.\<close>

lemma spawn_updater_Some:
  assumes "spawn_updater parse_duration sources = Some u"
  shows "ru_sources u = sources" "0 < ru_period u"
    "ru_period u \<in> set (List.map_filter (source_interval parse_duration) sources)"
    "d \<in> set (List.map_filter (source_interval parse_duration) sources) \<Longrightarrow> ru_period u \<le> d"
proof -
  let ?is = "List.map_filter (source_interval parse_duration) sources"
  from assms obtain d0 ds where ds: "?is = d0 # ds" and u: "ru_period u = foldl min d0 ds" and src: "ru_sources u = sources"
    by (auto simp: spawn_updater_def min_interval_fold split: option.splits list.splits)
  have least: "foldl min a xs \<in> set (a # xs) \<and> (\<forall>x \<in> set (a # xs). foldl min a xs \<le> x)" for a :: duration and xs
  proof (induction xs arbitrary: a)
    case (Cons x xs)
    from Cons [of "min a x"] show ?case by (auto simp: min_def split: if_splits)
  qed simp
  show "ru_sources u = sources" by (rule src)
  show mem: "ru_period u \<in> set ?is" using least [of d0 ds] by (simp add: ds u)
  show "d \<in> set ?is \<Longrightarrow> ru_period u \<le> d" using least [of d0 ds] by (auto simp: ds u)
  have "0 < d" if "source_interval parse_duration s = Some d" for s d
    using that by (auto simp: source_interval_def split: option.splits if_splits)
  with mem show "0 < ru_period u" by (force simp: List.map_filter_def)
qed

section \<open>Limits\<close>

definition body_of :: "u8 list option option list \<Rightarrow> u8 list" where
  "body_of fs = concat (List.map_filter (\<lambda>f. case f of Some (Some c) \<Rightarrow> Some c | _ \<Rightarrow> None) fs)"

lemma read_body_Ok:
  "length body \<le> MAX_BODY \<Longrightarrow> read_body current body fs = Ok b \<longleftrightarrow>
     None \<notin> set fs \<and> b = body @ body_of fs \<and>
     length b \<le> MAX_BODY"
proof (induction current body fs rule: read_body.induct)
  case (4 current body chunk fs)
  then show ?case by (auto simp: body_of_def List.map_filter_simps)
qed (auto simp: body_of_def List.map_filter_simps)

text \<open>The URLs asked for: each redirect of the chain, from the first URL on.\<close>

inductive redirects :: "fetch_env \<Rightarrow> nat \<Rightarrow> string \<Rightarrow> string \<Rightarrow> bool" for env where
  here: "redirects env 0 u u"
| there: "redirects env n u v \<Longrightarrow> fetch_round env n v = Ok (https, host, port, resp) \<Longrightarrow>
    300 \<le> hp_status resp \<Longrightarrow> hp_status resp < 400 \<Longrightarrow> hp_location resp = Some loc \<Longrightarrow>
    redirects env (Suc n) u (next_url https host port loc)"

lemma fetch_loop_Ok:
  "fetch_loop env url left n current = Ok body \<Longrightarrow> redirects env n url current \<Longrightarrow>
     \<exists>m v https host port resp. n \<le> m \<and> m < n + left \<and> redirects env m url v \<and>
       fetch_round env m v = Ok (https, host, port, resp) \<and> 200 \<le> hp_status resp \<and> hp_status resp < 300 \<and>
       None \<notin> set (hp_frames resp) \<and>
       body = body_of (hp_frames resp) \<and>
       length body \<le> MAX_BODY"
proof (induction env url left n current rule: fetch_loop.induct)
  case (2 env url left n current)
  then obtain https host port resp where round: "fetch_round env n current = Ok (https, host, port, resp)"
    by (auto split: sum.splits)
  show ?case
  proof (cases "300 \<le> hp_status resp \<and> hp_status resp < 400")
    case True
    with 2(2) round obtain loc where loc: "hp_location resp = Some loc" by (auto split: option.splits)
    with True 2(2) round have rest: "fetch_loop env url left (Suc n) (next_url https host port loc) = Ok body" by simp
    have "redirects env (Suc n) url (next_url https host port loc)"
      using there [OF 2(3) round] True loc by blast
    from "2.IH" [OF round refl refl refl True loc rest this] show ?thesis
      by (metis Suc_leD add_Suc_right add_Suc_shift)
  next
    case False
    with 2(2) round have "200 \<le> hp_status resp" "hp_status resp < 300" "read_body current [] (hp_frames resp) = Ok body"
      by (auto split: if_splits)
    with 2(3) round show ?thesis
      by (intro exI [of _ n] exI [of _ current] exI [of _ https] exI [of _ host] exI [of _ port] exI [of _ resp])
        (auto simp: read_body_Ok [of "[]", simplified])
  qed
qed simp

text \<open>C35. What a fetched rule file is: the concatenation of all data frames, at most 20 MiB, of a
  successful reply to the first URL or to one reached from it by at most three redirects, with
  every frame received; so an oversized, truncated or failing download is never used, and a
  server cannot send the program around forever.\<close>

theorem fetch_url_limits:
  assumes "fetch_url env url = Ok body"
  shows "\<exists>m v https host port resp. m \<le> 3 \<and> redirects env m url v \<and>
    fetch_round env m v = Ok (https, host, port, resp) \<and> 200 \<le> hp_status resp \<and> hp_status resp < 300 \<and>
    None \<notin> set (hp_frames resp) \<and>
    body = body_of (hp_frames resp) \<and>
    length body \<le> 20 * 1024 * 1024"
proof -
  obtain m v https host port resp where "m < MAX_REDIRECTS + 1" "redirects env m url v"
    "fetch_round env m v = Ok (https, host, port, resp)" "200 \<le> hp_status resp" "hp_status resp < 300"
    "None \<notin> set (hp_frames resp)" "body = body_of (hp_frames resp)" "length body \<le> MAX_BODY"
    using fetch_loop_Ok [OF assms [unfolded fetch_url_def] here] by auto
  moreover from this have "m \<le> 3" by (simp add: MAX_REDIRECTS_def)
  ultimately show ?thesis unfolding MAX_BODY_def by blast
qed

definition sample_fetch :: fetch_env where
  "sample_fetch = \<lparr>fe_parse = (\<lambda>u. Some \<lparr>u_scheme = Some ''http'', u_host = Some ''9.9.9.9'', u_port = None, u_path = u, u_path_and_query = Some u\<rparr>),
     fe_hickory = sample_hickory, fe_bootstrap = \<lparr>bs_resolvers = [], bs_prefer_ipv6 = False\<rparr>,
     fe_lookup = (\<lambda>_. \<lparr>be_ask = (\<lambda>_ _ _. Err Connect_failed), be_random = (\<lambda>_. 0)\<rparr>), fe_connect = (\<lambda>n ip p. True),
     fe_rustls = \<lparr>rl_server_roots = [], rl_anchor = Some, rl_ech_config = Some, rl_with_ech = (\<lambda>_. Some [Tls13]), rl_safe_default_versions = Some [Tls13]\<rparr>,
     fe_valid_name = (\<lambda>_. True), fe_tls = (\<lambda>_ _ _ _. True), fe_handshake = (\<lambda>_ _. True),
     fe_send = (\<lambda>n ip s req. Some (if n = 0 then \<lparr>hp_status = 301, hp_location = Some ''/y'', hp_frames = []\<rparr>
        else \<lparr>hp_status = 200, hp_location = None, hp_frames = [Some (Some [7]), Some None, Some (Some [8])]\<rparr>)), fe_elapsed = 0\<rparr>"

lemma sample_fetch_result: "fetch_url sample_fetch ''x'' = Ok [7, 8]"
proof -
  have "\<exists>ip. parse_ip ''9.9.9.9'' = Some ip" by (simp add: eval_simps)
  then obtain ip where "parse_ip ''9.9.9.9'' = Some ip" ..
  then have round: "fetch_round sample_fetch n u = Ok (False, ''9.9.9.9'', 80,
      if n = 0 then \<lparr>hp_status = 301, hp_location = Some ''/y'', hp_frames = []\<rparr>
      else \<lparr>hp_status = 200, hp_location = None, hp_frames = [Some (Some [7]), Some None, Some (Some [8])]\<rparr>)" for n u
    by (simp add: fetch_round_def sample_fetch_def fetch_ips_def fetch_exchange_def get_request_def Let_def)
  have "MAX_REDIRECTS + 1 = Suc (Suc (Suc (Suc 0)))" by (simp add: MAX_REDIRECTS_def)
  then have "fetch_url sample_fetch ''x'' = fetch_loop sample_fetch ''x'' (Suc (Suc (Suc (Suc 0)))) 0 ''x''"
    by (simp only: fetch_url_def)
  with round show ?thesis by (simp add: MAX_BODY_def)
qed

theorem fetch_url_limits_witness:
  "\<exists>m v https host port resp. m \<le> 3 \<and> redirects sample_fetch m ''x'' v \<and>
    fetch_round sample_fetch m v = Ok (https, host, port, resp)"
  using fetch_url_limits [OF sample_fetch_result] by blast

end
