(* ===== verification/Build.thy ===== *)
theory Build
  imports Fetch Pipeline Hedged
begin

text \<open>
  Putting the program together: \<open>src/lib.rs\<close> (\<open>build_pipeline\<close>, \<open>build_group\<close>, \<open>build_member\<close>) and
  the settings \<open>src/main.rs\<close> computes. The pipeline's upstream is described by the groups, their
  members and the retry engine around each.
\<close>

section \<open>Members\<close>

definition ip_in_name :: "ip_addr \<Rightarrow> string" where
  "ip_in_name ip = (case ip of V4 _ \<Rightarrow> show_ip ip | V6 _ \<Rightarrow> ''['' @ show_ip ip @ '']'')"

definition ech_bytes :: "hickory \<Rightarrow> libraries \<Rightarrow> bootstrap_env \<Rightarrow> bootstrap \<Rightarrow> string \<Rightarrow> string \<Rightarrow> string \<Rightarrow> (u8 list option, build_error) result" where
  "ech_bytes H L env b url host ech =
     (if ech = [] then
        (if bootstrap_is_empty b then Ok None
         else case fetch_ech H env b host of Ok e \<Rightarrow> Ok e | Err _ \<Rightarrow> Ok None)
      else and_then (ok_or (Bad_ech url) (lib_base64 L ech)) (\<lambda>bs. Ok (Some bs)))"

definition build_member ::
  "hickory \<Rightarrow> libraries \<Rightarrow> bootstrap_env \<Rightarrow> bootstrap \<Rightarrow> bool \<Rightarrow> upstream_config \<Rightarrow> (string \<times> leaf, build_error) result" where
  "build_member H L env b prefer6 u = (case u of
     Plain addr \<Rightarrow> Ok (''plain:'' @ show_socket_addr addr, Plain_leaf (plain_new addr))
   | Dot ip dmn \<Rightarrow>
       and_then (dot_leaf L ip dmn) (\<lambda>(host, port, l).
       Ok (''dot:'' @ host @ '':'' @ dec_string port @ ''@'' @ ip_in_name ip, l))
   | Doh url ech http3 ip \<Rightarrow>
       and_then (ok_or (Bad_uri url) (lib_uri L url)) (\<lambda>uri.
       let host = (case u_host uri of None \<Rightarrow> [] | Some h \<Rightarrow> h) in
       and_then (case ip of
           Some a \<Rightarrow> Ok [a]
         | None \<Rightarrow> if bootstrap_is_empty b then Err (Doh_without_bootstrap url) else resolve_ips H env b host) (\<lambda>ips.
       and_then (ech_bytes H L env b url host ech) (\<lambda>ech_list.
       and_then (map_err Doh_problem (doh_new (lib_uri L) (lib_crypto L) url ips ech_list http3 prefer6)) (\<lambda>d.
       Ok (''doh:'' @ url @ (case ip of None \<Rightarrow> [] | Some a \<Rightarrow> ''@'' @ ip_in_name a), Doh_leaf d))))))"

section \<open>Groups\<close>

record built_group =
  bg_group :: upstream_group
  bg_leaves :: "leaf list"
  bg_engine :: hedged_resolver

text \<open>The environment of the construction: what the network does while each member is built.\<close>

type_synonym build_env = "string \<Rightarrow> nat \<Rightarrow> bootstrap_env"

definition build_group ::
  "hickory \<Rightarrow> libraries \<Rightarrow> build_env \<Rightarrow> config \<Rightarrow> bootstrap \<Rightarrow> upstream_config list \<Rightarrow> string \<Rightarrow>
     metric_member list \<times> stats_heap \<Rightarrow> (upstream_group \<times> leaf list \<times> metric_member list \<times> stats_heap, build_error) result" where
  "build_group H L env c b entries kind = (\<lambda>(metrics, h).
     and_then (collect_results (\<lambda>(n, u). build_member H L (env kind n) b (prefer_ipv6 (server c)) u) (enumerate 0 entries)) (\<lambda>members.
     if members = [] then Err Empty_group
     else (case group_new (map fst members) (sel_window (selector_section c)) (sel_k (selector_section c))
                  (retention_days (dashboard c)) metrics kind h of
             (g, metrics, h) \<Rightarrow> Ok (g, map snd members, metrics, h))))"

definition engine :: "config \<Rightarrow> hedged_resolver" where
  "engine c = \<lparr>hr_interval = from_millis (hedged_retry_ms (server c)), hr_max_wait = from_millis (upstream_timeout_ms (server c))\<rparr>"

record built_pipeline =
  bp_parts :: pipeline_parts
  bp_state :: pipeline_state
  bp_primary :: built_group
  bp_fallback :: "built_group option"
  bp_metrics :: "metric_member list"
  bp_heap :: stats_heap
  bp_updater :: "rule_updater option"

text \<open>The initial load of the rules; \<open>fetch\<close> is the network during the download of each URL.\<close>

definition built_filter ::
  "hickory \<Rightarrow> libraries \<Rightarrow> bootstrap \<Rightarrow> (string \<Rightarrow> string option) \<Rightarrow> (string \<Rightarrow> fetch_env) \<Rightarrow> config \<Rightarrow> ad_filter" where
  "built_filter H L b read fetch c =
     (let f = filter_new (allowlist (adblock c));
          download = (\<lambda>url. fetch_rules ((fetch url)\<lparr>fe_parse := lib_uri L, fe_hickory := H, fe_bootstrap := b,
            fe_rustls := cx_rustls (lib_crypto L), fe_valid_name := lib_valid_name L\<rparr>) url) in
      if rule_sources (adblock c) = [] then f else filter_store f (load_sources read download (rule_sources (adblock c))))"

definition build_pipeline ::
  "hickory \<Rightarrow> libraries \<Rightarrow> build_env \<Rightarrow> rounding \<Rightarrow> (string \<Rightarrow> string option) \<Rightarrow> (string \<Rightarrow> fetch_env) \<Rightarrow>
     config \<Rightarrow> recorder \<Rightarrow> (built_pipeline, build_error) result" where
  "build_pipeline H L env rnd read fetch c rec =
     and_then (from_config L (bootstrap_servers c) (prefer_ipv6 (server c))) (\<lambda>b.
     let filter = built_filter H L b read fetch c;
         hosts = hosts_from_entries (hosts_section c);
         cache = cache_new (max_memory_mb (cache_section c));
         ecs = subnet_from_config (fixed_subnet (ecs_section c)) in
     and_then (build_group H L env c b (upstream_section c) ''primary'' ([], [])) (\<lambda>(g, ls, metrics, h).
     let primary = \<lparr>bg_group = g, bg_leaves = ls, bg_engine = engine c\<rparr> in
     and_then (if fallback_section c = [] then Ok (None, metrics, h)
               else and_then (build_group H L env c b (fallback_section c) ''fallback'' (metrics, h)) (\<lambda>(g, ls, metrics, h).
                    Ok (Some \<lparr>bg_group = g, bg_leaves = ls, bg_engine = engine c\<rparr>, metrics, h))) (\<lambda>(fb, metrics, h).
     Ok \<lparr>bp_parts = \<lparr>pp_hosts = hosts, pp_ecs = ecs, pp_query_timeout = from_millis (query_timeout_ms (server c))\<rparr>,
         bp_state = \<lparr>pl_filter = filter, pl_cache = cache, pl_sampler = sampler_new rnd cache, pl_recorder = rec\<rparr>,
         bp_primary = primary, bp_fallback = fb, bp_metrics = metrics, bp_heap = h,
         bp_updater = (if rule_sources (adblock c) = [] then None
           else spawn_updater (lib_duration L) (rule_sources (adblock c)))\<rparr>)))"

section \<open>Settings of the process\<close>

definition DEFAULT_WORKER_THREADS :: nat where
  "DEFAULT_WORKER_THREADS = 2"

definition worker_threads :: "string option \<Rightarrow> nat" where
  "worker_threads var = (case Option.bind var parse_u64 of
     Some n \<Rightarrow> if n > 0 then n else DEFAULT_WORKER_THREADS
   | None \<Rightarrow> DEFAULT_WORKER_THREADS)"

lemma worker_threads_pos: "0 < worker_threads var"
  by (simp add: worker_threads_def DEFAULT_WORKER_THREADS_def split: option.splits)

section \<open>What is built\<close>

lemma fold_register:
  "map mm_name (foldl (\<lambda>b (n, r). register n kind r b) b xs) = map mm_name b @ map fst xs"
  "map mm_stats (foldl (\<lambda>b (n, r). register n kind r b) b xs) = map mm_stats b @ map snd xs"
  "numbered b \<Longrightarrow> numbered (foldl (\<lambda>b (n, r). register n kind r b) b xs)"
proof (induction xs arbitrary: b)
  case (Cons x xs)
  obtain n r where x: "x = (n, r)" by (cases x)
  { case 1 from Cons.IH(1) [of "register n kind r b"] show ?case by (simp add: x register_def Let_def) }
  { case 2 from Cons.IH(2) [of "register n kind r b"] show ?case by (simp add: x register_def Let_def) }
  { case 3 from Cons.IH(3) [OF numbered_register, OF 3] show ?case by (simp add: x) }
qed simp_all

text \<open>The members of a group and their entries in the registry share the cells of the store.\<close>

lemma build_group_Ok:
  assumes "build_group H L env c b entries kind (metrics, h) = Ok (g, ls, metrics', h')"
    and "map mm_stats metrics = [0..<length h]" and "numbered metrics"
  shows "length ls = length entries" "length (gr_members g) = length entries" "entries \<noteq> []"
    "map mm_name metrics' = map mm_name metrics @ map gm_name (gr_members g)"
    "map mm_stats metrics' = map mm_stats metrics @ map gm_stats (gr_members g)"
    "map mm_stats metrics' = [0..<length h']" "numbered metrics'" "gr_k g = sel_k (selector_section c)"
    "\<forall>i < length entries. \<exists>env. build_member H L env b (prefer_ipv6 (server c)) (entries ! i) = Ok (gm_name (gr_members g ! i), ls ! i)"
proof -
  let ?f = "\<lambda>(n, u). build_member H L (env kind n) b (prefer_ipv6 (server c)) u"
  obtain members where ms: "collect_results ?f (enumerate 0 entries) = Ok members" "members \<noteq> []"
    and new: "group_new (map fst members) (sel_window (selector_section c)) (sel_k (selector_section c))
      (retention_days (dashboard c)) metrics kind h = (g, metrics', h')" and ls: "ls = map snd members"
    using assms(1) by (auto simp: build_group_def and_then_Ok_iff split: if_splits prod.splits)
  have len: "length members = length entries" using collect_results_length [OF ms(1)] by simp
  note g = group_new_members [OF new]
  have metrics': "metrics' = foldl (\<lambda>b (n, r). register n kind r b) metrics (zip (map fst members) [length h..<length h + length members])"
    and k: "gr_k g = sel_k (selector_section c)"
    using new by (auto simp: group_new_def group_new_fold)
  show "length ls = length entries" "entries \<noteq> []" using len ms(2) by (auto simp: ls)
  have lenm: "length (gr_members g) = length entries" using arg_cong [OF g(1), of length] len by simp
  then show "length (gr_members g) = length entries" .
  show "map mm_name metrics' = map mm_name metrics @ map gm_name (gr_members g)"
    by (simp add: metrics' fold_register g(1))
  show st: "map mm_stats metrics' = map mm_stats metrics @ map gm_stats (gr_members g)"
    by (simp add: metrics' fold_register g(2))
  show "map mm_stats metrics' = [0..<length h']"
    using upt_add_eq_append [of 0 "length h" "length members"] by (simp add: st assms(2) g(2,3))
  show "numbered metrics'" using assms(3) by (simp add: metrics' fold_register)
  show "gr_k g = sel_k (selector_section c)" by (rule k)
  show "\<forall>i < length entries. \<exists>env. build_member H L env b (prefer_ipv6 (server c)) (entries ! i) = Ok (gm_name (gr_members g ! i), ls ! i)"
  proof (intro allI impI)
    fix i assume i: "i < length entries"
    have "?f (enumerate 0 entries ! i) = Ok (members ! i)"
      using ms(1) i by (auto simp: collect_results_Ok_iff list_all2_conv_all_nth)
    moreover have "gm_name (gr_members g ! i) = fst (members ! i)"
      using g(1) i len lenm by (metis nth_map)
    ultimately show "\<exists>env. build_member H L env b (prefer_ipv6 (server c)) (entries ! i) = Ok (gm_name (gr_members g ! i), ls ! i)"
      using i len by (auto simp: nth_enumerate_eq ls)
  qed
qed

lemma collect_results_Err: "collect_results f xs = Err e \<Longrightarrow> \<exists>x \<in> set xs. f x = Err e"
  by (induction xs) (auto simp: and_then_def split: sum.splits)

text \<open>No resolver is ever built without an address.\<close>

lemma doh_new_with_ips: "ips \<noteq> [] \<Longrightarrow> doh_new parse cx url ips ech http3 prefer6 \<noteq> Err Without_ips"
  by (auto simp: doh_new_def with_extra_roots_def h3_conn_new_def and_then_def map_err_def ok_or_def Let_def
      split: sum.splits option.splits if_splits)

lemma resolve_ips_nonempty: "resolve_ips H env b dmn = Ok ips \<Longrightarrow> ips \<noteq> []"
  by (auto simp: resolve_ips_def Let_def split: if_splits)


text \<open>The errors that say an address, or a whole group, is missing.\<close>

definition address_error :: "build_error \<Rightarrow> bool" where
  "address_error e \<longleftrightarrow> e = Empty_group \<or> e = Doh_problem Without_ips \<or> e = Bootstrap_failed \<or>
     (\<exists>url. e = Doh_without_bootstrap url)"

lemma dot_leaf_Err: "dot_leaf L ip dmn = Err e \<Longrightarrow> \<not> address_error e"
  by (auto simp: dot_leaf_def address_error_def and_then_def map_err_def ok_or_def split: sum.splits option.splits if_splits)

lemma from_config_Err: "list_all has_ip servers \<Longrightarrow> from_config L servers prefer6 = Err e \<Longrightarrow> \<not> address_error e"
proof -
  assume ip: "list_all has_ip servers" and "from_config L servers prefer6 = Err e"
  then have "collect_results (bootstrap_leaf L prefer6) servers = Err e"
    by (auto simp: from_config_def and_then_def split: sum.splits)
  then obtain s where s: "s \<in> set servers" "bootstrap_leaf L prefer6 s = Err e" by (auto dest: collect_results_Err)
  show "\<not> address_error e"
  proof (cases s)
    case (Doh url ech http3 ip)
    with s(1) \<open>list_all has_ip servers\<close> obtain a where "ip = Some a"
      by (cases ip) (force simp: list_all_iff has_ip_def)+
    with s(2) Doh doh_new_with_ips [of "[a]"] show ?thesis
      by (auto simp: bootstrap_leaf_def address_error_def and_then_def map_err_def split: sum.splits)
  qed (use s(2) in \<open>auto simp: bootstrap_leaf_def and_then_def dest: dot_leaf_Err split: sum.splits\<close>)
qed

lemma from_config_empty: "from_config L servers prefer6 = Ok b \<Longrightarrow> bootstrap_is_empty b \<longleftrightarrow> servers = []"
  by (auto simp: from_config_def bootstrap_is_empty_def and_then_Ok_iff dest: collect_results_length)

text \<open>
  When a member is refused for want of an address: it is a DNS-over-HTTPS entry without one, and
  either there is no bootstrap server to ask or the lookup of its host came back empty.
\<close>

definition host_of :: "uri \<Rightarrow> string" where
  "host_of uri = (case u_host uri of None \<Rightarrow> [] | Some h \<Rightarrow> h)"

definition lacks_address :: "hickory \<Rightarrow> libraries \<Rightarrow> bootstrap_env \<Rightarrow> bootstrap \<Rightarrow> upstream_config \<Rightarrow> build_error \<Rightarrow> bool" where
  "lacks_address H L env b u e \<longleftrightarrow> (\<exists>url ech http3 uri. u = Doh url ech http3 None \<and> lib_uri L url = Some uri \<and>
     (if bootstrap_is_empty b then e = Doh_without_bootstrap url
      else e = Bootstrap_failed \<and> resolve_ips H env b (host_of uri) = Err Bootstrap_failed))"

lemma build_member_Err:
  assumes "build_member H L env b prefer6 u = Err e" and "address_error e"
  shows "lacks_address H L env b u e"
proof (cases u)
  case (Doh url ech http3 ip)
  have resolve: "resolve_ips H env b host = Err x \<Longrightarrow> x = Bootstrap_failed" for host x
    by (auto simp: resolve_ips_def Let_def split: if_splits)
  from assms Doh show ?thesis
    by (auto simp: build_member_def lacks_address_def host_of_def address_error_def ech_bytes_def and_then_def map_err_def
        ok_or_def Let_def doh_new_with_ips resolve_ips_nonempty split: sum.splits option.splits if_splits dest: resolve)
qed (use assms in \<open>auto simp: build_member_def and_then_def dest: dot_leaf_Err split: sum.splits\<close>)

lemma build_group_Err:
  assumes "entries \<noteq> []" and "build_group H L env c b entries kind st = Err e" and "address_error e"
  shows "\<exists>n < length entries. lacks_address H L (env kind n) b (entries ! n) e"
proof -
  let ?f = "\<lambda>(n, u). build_member H L (env kind n) b (prefer_ipv6 (server c)) u"
  have "collect_results ?f (enumerate 0 entries) = Err e"
    using assms(1,2) collect_results_length [of ?f "enumerate 0 entries"]
    by (fastforce simp: build_group_def and_then_def split: sum.splits if_splits prod.splits)
  then obtain n u where "(n, u) \<in> set (enumerate 0 entries)" "build_member H L (env kind n) b (prefer_ipv6 (server c)) u = Err e"
    by (auto dest: collect_results_Err)
  with build_member_Err [OF _ assms(3)] show ?thesis by (auto simp: in_set_enumerate_eq)
qed

lemma build_group_unaddressed:
  assumes "u \<in> set entries" and "\<not> has_ip u" and "bootstrap_is_empty b"
  shows "\<not> is_ok (build_group H L env c b entries kind st)"
proof -
  obtain n where n: "n < length entries" "entries ! n = u" using assms(1) by (auto simp: in_set_conv_nth)
  have "\<not> is_ok (build_member H L env' b p u)" for env' p
    using assms(2,3) by (auto simp: has_ip_def build_member_def and_then_def ok_or_def Let_def split: upstream_config.splits option.splits)
  moreover have "(n, u) \<in> set (enumerate 0 entries)" using n by (simp add: in_set_enumerate_eq)
  moreover have "is_ok (f x)" if "is_ok (collect_results f xs)" "x \<in> set xs" for f :: "nat \<times> upstream_config \<Rightarrow> (string \<times> leaf, build_error) result" and x xs
    using that by (induction xs) (auto simp: is_ok_iff and_then_Ok_iff)
  ultimately have "\<not> is_ok (collect_results (\<lambda>(n, u). build_member H L (env kind n) b (prefer_ipv6 (server c)) u) (enumerate 0 entries))"
    by (metis (no_types, lifting) case_prod_conv)
  then show ?thesis
    by (auto simp: build_group_def is_ok_iff and_then_Ok_iff split: prod.splits)
qed

section \<open>How the members encrypt\<close>

text \<open>The TLS configurations a member connects with.\<close>

definition leaf_tls :: "leaf \<Rightarrow> tls_client_config list" where
  "leaf_tls l = (case l of
     Plain_leaf r \<Rightarrow> []
   | Dot_leaf r \<Rightarrow> [dr_connector r]
   | Doh_leaf d \<Rightarrow> dh_tls_h2 d # (case dh_h3 d of None \<Rightarrow> [] | Some c \<Rightarrow> [qe_tls (h3_endpoint c)]))"

lemma dot_leaf_tls:
  "dot_leaf L ip dmn = Ok (host, port, l) \<Longrightarrow> \<exists>cc. leaf_tls l = [cc] \<and> client_config (cx_rustls (lib_crypto L)) [] [] None = Ok cc"
  by (auto simp: dot_leaf_def dot_new_def dot_with_timeout_def leaf_tls_def and_then_Ok_iff split: prod.splits if_splits)

lemma doh_leaf_tls:
  assumes "doh_new parse cx url ips ech http3 prefer6 = Ok d"
  shows "list_all (\<lambda>cc. \<exists>alpn. client_config (cx_rustls cx) alpn [] ech = Ok cc) (leaf_tls (Doh_leaf d))"
  using doh_new_tls [OF assms] by (auto simp: leaf_tls_def split: option.splits)

lemma build_member_Doh:
  assumes "build_member H L env b prefer6 (Doh url ech http3 ip) = Ok (name, l)"
  obtains host ech_list ips d where "ech_bytes H L env b url host ech = Ok ech_list"
    "doh_new (lib_uri L) (lib_crypto L) url ips ech_list http3 prefer6 = Ok d" "l = Doh_leaf d"
  using assms by (auto simp: build_member_def and_then_Ok_iff Let_def)

text \<open>C33. How the encrypted upstreams connect: whatever the configuration, a member trusts only the
  built-in root certificates, and when the entry gives an encrypted-hello list, every connection
  of the member, over HTTP/2 or HTTP/3, encrypts its hello with exactly that list under TLS 1.3;
  a list that cannot be decoded or used makes the construction fail instead of connecting without.\<close>

theorem member_connects_as_configured:
  assumes "ech_pins_tls13 (cx_rustls (lib_crypto L))" and "build_member H L env b prefer6 u = Ok (name, l)"
  shows "list_all (\<lambda>cc. cc_roots cc = rl_server_roots (cx_rustls (lib_crypto L))) (leaf_tls l) \<and>
    (\<forall>url ech http3 ip. u = Doh url ech http3 ip \<longrightarrow> ech \<noteq> [] \<longrightarrow>
       (\<exists>bytes e. lib_base64 L ech = Some bytes \<and> rl_ech_config (cx_rustls (lib_crypto L)) bytes = Some e \<and>
          list_all (\<lambda>cc. cc_ech cc = Some e \<and> cc_versions cc = [Tls13]) (leaf_tls l)))"
proof (cases u)
  case (Plain addr)
  then show ?thesis using assms(2) by (auto simp: build_member_def leaf_tls_def)
next
  case (Dot ip dmn)
  then show ?thesis using assms(2) by (auto simp: build_member_def and_then_Ok_iff client_config_Ok dest!: dot_leaf_tls)
next
  case (Doh url ech http3 ip)
  with assms(2) obtain host ech_list ips d where ech: "ech_bytes H L env b url host ech = Ok ech_list"
    and new: "doh_new (lib_uri L) (lib_crypto L) url ips ech_list http3 prefer6 = Ok d" and l: "l = Doh_leaf d"
    by (auto elim: build_member_Doh)
  note tls = doh_leaf_tls [OF new, folded l]
  have "cc_roots cc = rl_server_roots (cx_rustls (lib_crypto L))" if "cc \<in> set (leaf_tls l)" for cc
    using tls that by (auto simp: list_all_iff dest: client_config_no_extra)
  moreover have "\<exists>bytes e. lib_base64 L ech = Some bytes \<and> rl_ech_config (cx_rustls (lib_crypto L)) bytes = Some e \<and>
      list_all (\<lambda>cc. cc_ech cc = Some e \<and> cc_versions cc = [Tls13]) (leaf_tls l)" if "ech \<noteq> []"
  proof -
    from ech that obtain bytes where bytes: "lib_base64 L ech = Some bytes" "ech_list = Some bytes"
      by (auto simp: ech_bytes_def and_then_Ok_iff)
    have "dh_tls_h2 d \<in> set (leaf_tls l)" by (simp add: l leaf_tls_def)
    with tls bytes obtain e where "rl_ech_config (cx_rustls (lib_crypto L)) bytes = Some e"
      by (auto simp: list_all_iff client_config_Ok)
    with tls bytes assms(1) show ?thesis
      by (fastforce simp: list_all_iff client_config_Ok ech_pins_tls13_def)
  qed
  ultimately show ?thesis using Doh by (auto simp: list_all_iff)
qed

definition plain_entry :: "upstream_config \<Rightarrow> bool" where
  "plain_entry u \<longleftrightarrow> (\<exists>addr. u = Plain addr)"

lemma collect_results_total: "(\<And>x. x \<in> set xs \<Longrightarrow> is_ok (f x)) \<Longrightarrow> is_ok (collect_results f xs)"
  by (cases "collect_results f xs") (fastforce dest: collect_results_Err)+

lemma build_group_plain:
  assumes "list_all plain_entry entries" and "entries \<noteq> []"
  shows "is_ok (build_group H L env c b entries kind st)"
proof -
  have "plain_entry u" if "(n, u) \<in> set (enumerate 0 entries)" for n u
    using that assms(1) by (auto simp: list_all_iff in_set_enumerate_eq)
  then have "is_ok (collect_results (\<lambda>(n, u). build_member H L (env kind n) b (prefer_ipv6 (server c)) u) (enumerate 0 entries))"
    by (intro collect_results_total) (force simp: plain_entry_def build_member_def)
  then obtain members where m: "collect_results (\<lambda>(n, u). build_member H L (env kind n) b (prefer_ipv6 (server c)) u) (enumerate 0 entries) = Ok members"
    by (auto simp: is_ok_iff)
  then have "members \<noteq> []" using assms(2) collect_results_length by fastforce
  with m show ?thesis by (auto simp: build_group_def split: prod.splits)
qed

definition built_members :: "built_pipeline \<Rightarrow> group_member list" where
  "built_members bp = gr_members (bg_group (bp_primary bp)) @
     (case bp_fallback bp of None \<Rightarrow> [] | Some g \<Rightarrow> gr_members (bg_group g))"

text \<open>How a group of the pipeline matches the entries it was built from.\<close>

definition group_matches :: "hickory \<Rightarrow> libraries \<Rightarrow> config \<Rightarrow> bootstrap \<Rightarrow> upstream_config list \<Rightarrow> built_group \<Rightarrow> bool" where
  "group_matches H L c b entries bg \<longleftrightarrow>
     length (bg_leaves bg) = length entries \<and> length (gr_members (bg_group bg)) = length entries \<and> entries \<noteq> [] \<and>
     bg_engine bg = engine c \<and>
     (\<forall>i < length entries. \<exists>env. build_member H L env b (prefer_ipv6 (server c)) (entries ! i) =
        Ok (gm_name (gr_members (bg_group bg) ! i), bg_leaves bg ! i))"

lemma build_pipeline_cases:
  assumes "build_pipeline H L env rnd read fetch c rec = Ok bp"
  obtains b g ls metrics h where "from_config L (bootstrap_servers c) (prefer_ipv6 (server c)) = Ok b"
    "build_group H L env c b (upstream_section c) ''primary'' ([], []) = Ok (g, ls, metrics, h)"
    "bp_primary bp = \<lparr>bg_group = g, bg_leaves = ls, bg_engine = engine c\<rparr>"
    "if fallback_section c = [] then bp_fallback bp = None \<and> bp_metrics bp = metrics \<and> bp_heap bp = h
     else \<exists>g ls. build_group H L env c b (fallback_section c) ''fallback'' (metrics, h) = Ok (g, ls, bp_metrics bp, bp_heap bp) \<and>
       bp_fallback bp = Some \<lparr>bg_group = g, bg_leaves = ls, bg_engine = engine c\<rparr>"
  using assms
  by (auto simp: build_pipeline_def and_then_Ok_iff Let_def split: if_splits prod.splits)

lemma build_pipeline_groups:
  assumes "build_pipeline H L env rnd read fetch c rec = Ok bp"
  obtains b where "from_config L (bootstrap_servers c) (prefer_ipv6 (server c)) = Ok b"
    "group_matches H L c b (upstream_section c) (bp_primary bp)"
    "case bp_fallback bp of None \<Rightarrow> fallback_section c = [] | Some bg \<Rightarrow> group_matches H L c b (fallback_section c) bg"
    "map mm_name (bp_metrics bp) = map gm_name (built_members bp)"
    "map mm_stats (bp_metrics bp) = map gm_stats (built_members bp)"
    "map mm_stats (bp_metrics bp) = [0..<length (bp_heap bp)]" "numbered (bp_metrics bp)"
proof -
  obtain b g ls metrics h where b: "from_config L (bootstrap_servers c) (prefer_ipv6 (server c)) = Ok b"
    and p: "build_group H L env c b (upstream_section c) ''primary'' ([], []) = Ok (g, ls, metrics, h)"
    and bp: "bp_primary bp = \<lparr>bg_group = g, bg_leaves = ls, bg_engine = engine c\<rparr>"
    and fb: "if fallback_section c = [] then bp_fallback bp = None \<and> bp_metrics bp = metrics \<and> bp_heap bp = h
     else \<exists>g ls. build_group H L env c b (fallback_section c) ''fallback'' (metrics, h) = Ok (g, ls, bp_metrics bp, bp_heap bp) \<and>
       bp_fallback bp = Some \<lparr>bg_group = g, bg_leaves = ls, bg_engine = engine c\<rparr>"
    using build_pipeline_cases [OF assms] by metis
  have "map mm_stats [] = [0..<length ([] :: stats_heap)]" by simp
  note pg = build_group_Ok [OF p this numbered_empty]
  have m1: "group_matches H L c b (upstream_section c) (bp_primary bp)"
    using pg(1,2,3,9) by (simp add: bp group_matches_def)
  show thesis
  proof (cases "fallback_section c = []")
    case True
    with fb pg bp show thesis by (intro that [OF b m1]) (simp_all add: built_members_def)
  next
    case False
    with fb obtain g' ls' where f: "build_group H L env c b (fallback_section c) ''fallback'' (metrics, h) = Ok (g', ls', bp_metrics bp, bp_heap bp)"
      and fp: "bp_fallback bp = Some \<lparr>bg_group = g', bg_leaves = ls', bg_engine = engine c\<rparr>" by auto
    note fg = build_group_Ok [OF f pg(6,7)]
    have m2: "case bp_fallback bp of None \<Rightarrow> fallback_section c = [] | Some bg \<Rightarrow> group_matches H L c b (fallback_section c) bg"
      using fg(1,2,3,9) by (simp add: fp group_matches_def)
    show thesis
      by (rule that [OF b m1 m2]) (use fg pg in \<open>simp_all add: built_members_def bp fp\<close>)
  qed
qed

lemma build_pipeline_fails:
  assumes "build_pipeline H L env rnd read fetch c rec = Err e"
  obtains (bootstrap) "from_config L (bootstrap_servers c) (prefer_ipv6 (server c)) = Err e"
  | (primary) b where "from_config L (bootstrap_servers c) (prefer_ipv6 (server c)) = Ok b"
      "build_group H L env c b (upstream_section c) ''primary'' ([], []) = Err e"
  | (fallback) b st where "from_config L (bootstrap_servers c) (prefer_ipv6 (server c)) = Ok b" "fallback_section c \<noteq> []"
      "build_group H L env c b (fallback_section c) ''fallback'' st = Err e"
proof (cases "from_config L (bootstrap_servers c) (prefer_ipv6 (server c))")
  case (Inl x)
  with assms bootstrap show thesis by (simp add: build_pipeline_def)
next
  case b: (Inr b)
  show thesis
  proof (cases "build_group H L env c b (upstream_section c) ''primary'' ([], [])")
    case (Inl x)
    with assms b primary show thesis by (simp add: build_pipeline_def Let_def)
  next
    case (Inr built)
    obtain g ls metrics h where "built = (g, ls, metrics, h)" by (cases built)
    with Inr assms b show thesis
      by (cases "build_group H L env c b (fallback_section c) ''fallback'' (metrics, h)")
        (auto simp: build_pipeline_def Let_def split: if_splits intro: fallback [OF b])
  qed
qed

lemma build_pipeline_Err:
  assumes "valid_config c" and "build_pipeline H L env rnd read fetch c rec = Err e" and "address_error e"
  shows "\<exists>b kind n u. from_config L (bootstrap_servers c) (prefer_ipv6 (server c)) = Ok b \<and>
    u \<in> set (upstream_section c @ fallback_section c) \<and> lacks_address H L (env kind n) b u e"
  using assms(2)
proof (cases rule: build_pipeline_fails)
  case bootstrap
  with assms(1,3) show ?thesis using from_config_Err by (auto simp: valid_config_def)
next
  case (primary b)
  have "upstream_section c \<noteq> []" using assms(1) by (simp add: valid_config_def)
  from build_group_Err [OF this primary(2) assms(3)] primary(1) show ?thesis by (metis UnI1 nth_mem set_append)
next
  case (fallback b st)
  from build_group_Err [OF fallback(2,3) assms(3)] fallback(1) show ?thesis by (metis UnI2 nth_mem set_append)
qed

lemma build_pipeline_addressed:
  assumes "valid_config c" and "build_pipeline H L env rnd read fetch c rec = Err e"
    and "list_all has_ip (upstream_section c @ fallback_section c)"
  shows "\<not> address_error e"
proof
  assume "address_error e"
  from build_pipeline_Err [OF assms(1,2) this] show False
    using assms(3) by (force simp: lacks_address_def list_all_iff has_ip_def)
qed

lemma build_pipeline_unaddressed:
  assumes "u \<in> set (upstream_section c @ fallback_section c)" and "\<not> has_ip u" and "bootstrap_servers c = []"
  shows "\<not> is_ok (build_pipeline H L env rnd read fetch c rec)"
proof
  assume "is_ok (build_pipeline H L env rnd read fetch c rec)"
  then obtain bp where "build_pipeline H L env rnd read fetch c rec = Ok bp" by (auto simp: is_ok_iff)
  then obtain b g ls metrics h where "from_config L (bootstrap_servers c) (prefer_ipv6 (server c)) = Ok b"
    "build_group H L env c b (upstream_section c) ''primary'' ([], []) = Ok (g, ls, metrics, h)"
    "fallback_section c \<noteq> [] \<Longrightarrow> is_ok (build_group H L env c b (fallback_section c) ''fallback'' (metrics, h))"
    by (elim build_pipeline_cases) (auto simp: is_ok_iff split: if_splits)
  with assms build_group_unaddressed [OF _ assms(2)] show False
    by (auto simp: from_config_empty is_ok_iff) (metis is_ok_iff list.discI list.set_cases)+
qed

lemma build_pipeline_plain:
  assumes "valid_config c" and "list_all plain_entry (upstream_section c @ fallback_section c @ bootstrap_servers c)"
  shows "is_ok (build_pipeline H L env rnd read fetch c rec)"
proof -
  have ne: "upstream_section c \<noteq> []" using assms(1) by (simp add: valid_config_def)
  note plain = assms(2)
  have "is_ok (collect_results (bootstrap_leaf L p) (bootstrap_servers c))" for p
  proof (intro collect_results_total)
    fix x assume "x \<in> set (bootstrap_servers c)"
    with plain have "plain_entry x" by (simp add: list_all_iff)
    then show "is_ok (bootstrap_leaf L p x)" by (auto simp: plain_entry_def bootstrap_leaf_def)
  qed
  then obtain b where b: "from_config L (bootstrap_servers c) (prefer_ipv6 (server c)) = Ok b"
    by (fastforce simp: from_config_def is_ok_iff and_then_Ok_iff)
  have grp: "entries \<noteq> [] \<Longrightarrow> list_all plain_entry entries \<Longrightarrow> \<exists>g ls m h. build_group H L env c b entries kind st = Ok (g, ls, m, h)" for entries kind st
    using build_group_plain [of entries H L env c b kind st] by (auto simp: is_ok_iff)
  from plain have "list_all plain_entry (upstream_section c)" "list_all plain_entry (fallback_section c)" by simp_all
  moreover obtain g ls m h where p: "build_group H L env c b (upstream_section c) ''primary'' ([], []) = Ok (g, ls, m, h)"
    using grp [OF ne] calculation(1) by blast
  ultimately have "fallback_section c \<noteq> [] \<Longrightarrow> \<exists>g ls m' h'. build_group H L env c b (fallback_section c) ''fallback'' (m, h) = Ok (g, ls, m', h')"
    using grp by blast
  then show ?thesis
    by (cases "fallback_section c = []") (auto simp: build_pipeline_def b p Let_def)
qed

text \<open>C17. What is built from a configuration that loads, and what can be missing. Construction never
  fails for want of a member, and no resolver is ever built without an address. It fails for want
  of an address only at a DNS-over-HTTPS entry of the upstream or the fallback section that
  gives none: without any bootstrap server, with the error that names the URL of that entry (and
  such a configuration is never built); with bootstrap servers, when their lookup of the host of
  that entry found no address. If every such entry gives its address, no address is ever
  missing, and a configuration with plain upstreams only always builds. What is built matches the configuration: one member per entry and group in the order of the file, the
  fallback group exactly when one is configured, the same budgeted engine around both; the
  dashboard's registry lists the members of both groups in this order under distinct
  identifiers, each on the very statistics cell its member books its calls in.\<close>

theorem build_pipeline_wires:
  assumes "valid_config c"
  shows "(\<forall>e. build_pipeline H L env rnd read fetch c rec = Err e \<longrightarrow> e \<noteq> Empty_group \<and> e \<noteq> Doh_problem Without_ips \<and>
       (\<forall>url. e = Doh_without_bootstrap url \<longrightarrow> bootstrap_servers c = [] \<and>
          (\<exists>ech http3. Doh url ech http3 None \<in> set (upstream_section c @ fallback_section c))) \<and>
       (e = Bootstrap_failed \<longrightarrow> bootstrap_servers c \<noteq> [] \<and>
          (\<exists>url ech http3 uri kind n b. Doh url ech http3 None \<in> set (upstream_section c @ fallback_section c) \<and>
             lib_uri L url = Some uri \<and> from_config L (bootstrap_servers c) (prefer_ipv6 (server c)) = Ok b \<and>
             resolve_ips H (env kind n) b (host_of uri) = Err Bootstrap_failed)) \<and>
       ((\<forall>url ech http3. Doh url ech http3 None \<notin> set (upstream_section c @ fallback_section c)) \<longrightarrow> \<not> address_error e)) \<and>
    (\<forall>url ech http3. Doh url ech http3 None \<in> set (upstream_section c @ fallback_section c) \<and> bootstrap_servers c = [] \<longrightarrow>
       \<not> is_ok (build_pipeline H L env rnd read fetch c rec)) \<and>
    (list_all plain_entry (upstream_section c @ fallback_section c @ bootstrap_servers c) \<longrightarrow>
       is_ok (build_pipeline H L env rnd read fetch c rec)) \<and>
    (\<forall>bp. build_pipeline H L env rnd read fetch c rec = Ok bp \<longrightarrow>
       length (gr_members (bg_group (bp_primary bp))) = length (upstream_section c) \<and>
       bg_engine (bp_primary bp) = engine c \<and>
       (case bp_fallback bp of
          None \<Rightarrow> fallback_section c = []
        | Some bg \<Rightarrow> fallback_section c \<noteq> [] \<and> bg_engine bg = engine c \<and>
            length (gr_members (bg_group bg)) = length (fallback_section c)) \<and>
       map mm_name (bp_metrics bp) = map gm_name (built_members bp) \<and>
       map mm_stats (bp_metrics bp) = map gm_stats (built_members bp) \<and>
       map gm_stats (built_members bp) = [0..<length (bp_heap bp)] \<and> distinct (map mm_id (bp_metrics bp)))"
proof (intro conjI allI impI)
  fix e assume err: "build_pipeline H L env rnd read fetch c rec = Err e"
  note cause = build_pipeline_Err [OF assms err]
  from cause show "e \<noteq> Empty_group" "e \<noteq> Doh_problem Without_ips"
    by (auto simp: address_error_def lacks_address_def split: if_splits)
  show "bootstrap_servers c = []" "\<exists>ech http3. Doh url ech http3 None \<in> set (upstream_section c @ fallback_section c)"
    if "e = Doh_without_bootstrap url" for url
    using cause that by (auto simp: address_error_def lacks_address_def from_config_empty split: if_splits)
  show "bootstrap_servers c \<noteq> []" if "e = Bootstrap_failed"
    using cause that by (auto simp: address_error_def lacks_address_def from_config_empty split: if_splits)
  show "\<exists>url ech http3 uri kind n b. Doh url ech http3 None \<in> set (upstream_section c @ fallback_section c) \<and>
      lib_uri L url = Some uri \<and> from_config L (bootstrap_servers c) (prefer_ipv6 (server c)) = Ok b \<and>
      resolve_ips H (env kind n) b (host_of uri) = Err Bootstrap_failed" if "e = Bootstrap_failed"
    using cause that unfolding address_error_def lacks_address_def
    by (metis build_error.distinct build_error.simps)
  show "\<not> address_error e" if "\<forall>url ech http3. Doh url ech http3 None \<notin> set (upstream_section c @ fallback_section c)"
    using build_pipeline_addressed [OF assms err] that by (auto simp: list_all_iff has_ip_iff)
next
  fix url ech http3
  assume "Doh url ech http3 None \<in> set (upstream_section c @ fallback_section c) \<and> bootstrap_servers c = []"
  then show "\<not> is_ok (build_pipeline H L env rnd read fetch c rec)"
    using build_pipeline_unaddressed [of "Doh url ech http3 None" c] by (simp add: has_ip_def)
next
  assume "list_all plain_entry (upstream_section c @ fallback_section c @ bootstrap_servers c)"
  then show "is_ok (build_pipeline H L env rnd read fetch c rec)" by (rule build_pipeline_plain [OF assms])
next
  fix bp assume "build_pipeline H L env rnd read fetch c rec = Ok bp"
  then obtain b where p: "group_matches H L c b (upstream_section c) (bp_primary bp)"
    and f: "case bp_fallback bp of None \<Rightarrow> fallback_section c = [] | Some bg \<Rightarrow> group_matches H L c b (fallback_section c) bg"
    and m: "map mm_name (bp_metrics bp) = map gm_name (built_members bp)"
      "map mm_stats (bp_metrics bp) = map gm_stats (built_members bp)"
      "map mm_stats (bp_metrics bp) = [0..<length (bp_heap bp)]" "numbered (bp_metrics bp)"
    by (rule build_pipeline_groups)
  show "length (gr_members (bg_group (bp_primary bp))) = length (upstream_section c)" "bg_engine (bp_primary bp) = engine c"
    using p by (simp_all add: group_matches_def)
  show "case bp_fallback bp of None \<Rightarrow> fallback_section c = []
     | Some bg \<Rightarrow> fallback_section c \<noteq> [] \<and> bg_engine bg = engine c \<and> length (gr_members (bg_group bg)) = length (fallback_section c)"
    using f by (simp add: group_matches_def split: option.splits)
  show "map mm_name (bp_metrics bp) = map gm_name (built_members bp)"
    "map mm_stats (bp_metrics bp) = map gm_stats (built_members bp)" by (fact m)+
  show "map gm_stats (built_members bp) = [0..<length (bp_heap bp)]" using m(2,3) by simp
  show "distinct (map mm_id (bp_metrics bp))" using m(4) by (rule numbered_distinct)
qed

definition plain_config :: config where
  "plain_config = sample_config\<lparr>bootstrap_servers := [], fallback_section := [Plain \<lparr>sa_ip = V4 2, sa_port = 53\<rparr>]\<rparr>"

lemma plain_config_valid: "valid_config plain_config"
  by (simp add: valid_config_def plain_config_def sample_config_def dashboard_config_default_def
      default_database_path_def default_retention_days_def)

lemma plain_config_plain:
  "list_all plain_entry (upstream_section plain_config @ fallback_section plain_config @ bootstrap_servers plain_config)"
  by (simp add: plain_config_def sample_config_def plain_entry_def)

definition unaddressed_config :: config where
  "unaddressed_config = plain_config\<lparr>upstream_section := [Doh ''https://a/'' [] False None]\<rparr>"

lemma unaddressed_config_valid: "valid_config unaddressed_config"
  using plain_config_valid by (simp add: valid_config_def unaddressed_config_def)

lemma build_pipeline_wires_witness:
  "\<forall>H L env rnd read fetch rec. (\<exists>bp. build_pipeline H L env rnd read fetch plain_config rec = Ok bp \<and>
     length (bp_metrics bp) = 2 \<and> bp_fallback bp \<noteq> None) \<and>
     \<not> is_ok (build_pipeline H L env rnd read fetch unaddressed_config rec)"
proof (intro allI conjI)
  fix H L env rnd read fetch rec
  show "\<not> is_ok (build_pipeline H L env rnd read fetch unaddressed_config rec)"
    using build_pipeline_wires [OF unaddressed_config_valid, of H L env rnd read fetch rec]
    by (auto simp: unaddressed_config_def plain_config_def)
  note wires = build_pipeline_wires [OF plain_config_valid, of H L env rnd read fetch rec]
  with plain_config_plain obtain bp where bp: "build_pipeline H L env rnd read fetch plain_config rec = Ok bp"
    by (auto simp: is_ok_iff)
  have one: "length (upstream_section plain_config) = 1" "length (fallback_section plain_config) = 1"
    by (simp_all add: plain_config_def sample_config_def)
  from wires bp have w: "length (gr_members (bg_group (bp_primary bp))) = 1"
      "case bp_fallback bp of None \<Rightarrow> fallback_section plain_config = []
       | Some bg \<Rightarrow> length (gr_members (bg_group bg)) = length (fallback_section plain_config)"
      "map mm_name (bp_metrics bp) = map gm_name (built_members bp)"
    unfolding one(1) by (auto split: option.splits)
  have "length (bp_metrics bp) = length (built_members bp)" using arg_cong [OF w(3), of length] by simp
  with w(1,2) one(2) bp show "\<exists>bp. build_pipeline H L env rnd read fetch plain_config rec = Ok bp \<and>
     length (bp_metrics bp) = 2 \<and> bp_fallback bp \<noteq> None"
    by (auto simp: built_members_def split: option.splits)
qed

section \<open>A member with encrypted hello\<close>

definition sample_crypto :: crypto where
  "sample_crypto = \<lparr>cx_rustls = \<lparr>rl_server_roots = [[1]], rl_anchor = Some, rl_ech_config = Some,
       rl_with_ech = (\<lambda>_. Some [Tls13]), rl_safe_default_versions = Some [Tls13, Tls12]\<rparr>,
     cx_quic = \<lparr>ql_client_config = (\<lambda>_. True), ql_endpoint = (\<lambda>_. True)\<rparr>\<rparr>"

definition ech_libraries :: libraries where
  "ech_libraries = \<lparr>lib_uri = (\<lambda>_. Some \<lparr>u_scheme = Some ''https'', u_host = Some ''a'', u_port = None, u_path = ''/'', u_path_and_query = None\<rparr>),
     lib_crypto = sample_crypto, lib_valid_name = (\<lambda>_. True), lib_base64 = (\<lambda>_. Some [7]), lib_duration = (\<lambda>_. None)\<rparr>"

theorem member_connects_as_configured_witness:
  "\<exists>name l. build_member sample_hickory ech_libraries \<lparr>be_ask = (\<lambda>_ _ _. Err Connect_failed), be_random = (\<lambda>_. 0)\<rparr>
       \<lparr>bs_resolvers = [], bs_prefer_ipv6 = False\<rparr> False (Doh ''https://a/'' ''Bw=='' True (Some (V4 1))) = Ok (name, l) \<and>
     length (leaf_tls l) = 2 \<and> list_all (\<lambda>cc. cc_ech cc = Some [7] \<and> cc_versions cc = [Tls13]) (leaf_tls l)"
proof -
  let ?b = "build_member sample_hickory ech_libraries \<lparr>be_ask = (\<lambda>_ _ _. Err Connect_failed), be_random = (\<lambda>_. 0)\<rparr>
       \<lparr>bs_resolvers = [], bs_prefer_ipv6 = False\<rparr> False (Doh ''https://a/'' ''Bw=='' True (Some (V4 1)))"
  obtain name l where b: "?b = Ok (name, l)" and len: "length (leaf_tls l) = 2"
    by (simp add: build_member_def ech_bytes_def ech_libraries_def sample_crypto_def doh_new_def with_extra_roots_def
        client_config_def h3_conn_new_def bind_endpoint_def MAX_IDLE_TIMEOUT_def from_secs_def as_millis_def leaf_tls_def
        sort_by_family_eq is_ipv6_def Let_def)
  have "ech_pins_tls13 (cx_rustls (lib_crypto ech_libraries))" by (simp add: ech_pins_tls13_def ech_libraries_def sample_crypto_def)
  from member_connects_as_configured [OF this b] b len show ?thesis
    by (auto simp: ech_libraries_def sample_crypto_def)
qed

end
