(* ===== verification/Resolver_Chain.thy ===== *)
theory Resolver_Chain
  imports Build
begin

text \<open>
  The upstream side put together: leaves (\<open>upstream/plain.rs\<close>, \<open>dot.rs\<close>, \<open>doh.rs\<close>) inside groups
  (\<open>group.rs\<close>) inside the retry engine (\<open>hedged.rs\<close>), with the fallback chain on top, as
  \<open>lib.rs\<close> nests them. Each layer is a relation: the answers it may give to a query, whatever the
  network, the clocks and the other queries do. The contract between the layers is a locale: every
  reply has an origin, and the origin fixes the identifier.
\<close>

section \<open>The contract\<close>

locale answering =
  fixes answers_to :: "message \<Rightarrow> attributed resolved \<Rightarrow> bool"
    and origin :: "message \<Rightarrow> attributed \<Rightarrow> bool"
  assumes reply_origin: "answers_to q (Ok x) \<Longrightarrow> origin q x"
    and origin_id: "origin q x \<Longrightarrow> msg_id (fst x) = msg_id q"
begin

lemma contract_keeps_id: "keeps_id answers_to"
  by (force simp: keeps_id_def dest: reply_origin origin_id)

end

section \<open>The layers\<close>

text \<open>What a member can do while its group asks it: what its resolver gives in some network.\<close>

definition member_outcome :: "hickory \<Rightarrow> built_group \<Rightarrow> message \<Rightarrow> nat \<Rightarrow> attempt_outcome \<Rightarrow> bool" where
  "member_outcome H bg q i out = (case out of
     Replied m _ _ \<Rightarrow> i < length (bg_leaves bg) \<and> (\<exists>net. leaf_resolve H net (bg_leaves bg ! i) q = Ok m)
   | Failed e \<Rightarrow> i < length (bg_leaves bg) \<and> (\<exists>net. leaf_resolve H net (bg_leaves bg ! i) q = Err e)
   | Cancelled _ _ \<Rightarrow> True)"

definition group_answers :: "hickory \<Rightarrow> rounding \<Rightarrow> built_group \<Rightarrow> message \<Rightarrow> attributed resolved \<Rightarrow> bool" where
  "group_answers H rnd bg q a \<longleftrightarrow> (\<exists>env h h'. (\<forall>n i. member_outcome H bg q i (outcome env n i)) \<and>
     group_resolve_attributed rnd (bg_group bg) env h = (Done a, h'))"

text \<open>The engine over what it wraps: each finished attempt it joins is an answer of the inner resolver.\<close>

definition joined_ok :: "(message \<Rightarrow> attributed resolved \<Rightarrow> bool) \<Rightarrow> message \<Rightarrow> wakeup \<Rightarrow> bool" where
  "joined_ok inner q w = (case wk_joined w of
     Some (Task_ok x) \<Rightarrow> inner q (Ok x) | Some (Task_err e) \<Rightarrow> inner q (Err e) | _ \<Rightarrow> True)"

definition engine_answers ::
  "(message \<Rightarrow> attributed resolved \<Rightarrow> bool) \<Rightarrow> hedged_resolver \<Rightarrow> message \<Rightarrow> attributed resolved \<Rightarrow> bool" where
  "engine_answers inner cfg q a \<longleftrightarrow> (\<exists>t0 t1 t2 ws flag n. list_all (joined_ok inner q) ws \<and>
     hedged_loop cfg (hedged_init cfg t0 t1 t2) ws = Inr (Return a flag n))"

definition fallback_answers ::
  "(message \<Rightarrow> attributed resolved \<Rightarrow> bool) \<Rightarrow> (message \<Rightarrow> attributed resolved \<Rightarrow> bool) \<Rightarrow> message \<Rightarrow> attributed resolved \<Rightarrow> bool" where
  "fallback_answers primary fallback q a \<longleftrightarrow> (\<exists>pa fa. primary q pa \<and> (is_ok pa \<or> fallback q fa) \<and>
     fst (fallback_resolve_attributed (\<lambda>s _. (pa, s)) (\<lambda>s _. (fa, s)) () q) = a)"

definition guarded_group :: "hickory \<Rightarrow> rounding \<Rightarrow> built_group \<Rightarrow> message \<Rightarrow> attributed resolved \<Rightarrow> bool" where
  "guarded_group H rnd bg = engine_answers (group_answers H rnd bg) (bg_engine bg)"

definition chain_answers :: "hickory \<Rightarrow> rounding \<Rightarrow> built_pipeline \<Rightarrow> message \<Rightarrow> attributed resolved \<Rightarrow> bool" where
  "chain_answers H rnd bp = (case bp_fallback bp of
     None \<Rightarrow> guarded_group H rnd (bp_primary bp)
   | Some fb \<Rightarrow> fallback_answers (guarded_group H rnd (bp_primary bp)) (guarded_group H rnd fb))"

section \<open>Every layer keeps the contract\<close>

text \<open>The origin of a reply: a member of the group, whose resolver gave it, and which it names.\<close>

definition member_origin :: "hickory \<Rightarrow> built_group \<Rightarrow> message \<Rightarrow> attributed \<Rightarrow> bool" where
  "member_origin H bg q x \<longleftrightarrow> (\<exists>i net. i < length (bg_leaves bg) \<and> leaf_resolve H net (bg_leaves bg ! i) q = Ok (fst x) \<and>
     snd x = Some (gm_name (gr_members (bg_group bg) ! i)))"

lemma explains_reply:
  "explains g env n new err (Done (Ok x)) \<Longrightarrow>
     \<exists>i n m latency now. i \<in> set new \<and> outcome env n i = Replied m latency now \<and> x = (m, gm_name (gr_members g ! i))"
  by (induction new arbitrary: n err) (force split: attempt_outcome.splits)+

lemma resolve_member_reply:
  assumes "resolve_member rnd g env h = (Done (Ok x), tried, h')"
  shows "\<exists>i n m latency now. outcome env n i = Replied m latency now \<and> x = (m, gm_name (gr_members g ! i))"
proof -
  have "member_loop rnd g env (min (length (gr_members g)) MAX_ATTEMPTS) 0 [] None h = (Done (Ok x), tried, h')"
    using assms by (auto simp: resolve_member_def split: if_splits)
  from member_loop_spec [OF _ _ _ this] have "explains g env 0 tried None (Done (Ok x))" by auto
  from explains_reply [OF this] show ?thesis by blast
qed

interpretation group_link: answering "group_answers H rnd bg" "member_origin H bg" for H rnd bg
proof
  fix q x
  show "member_origin H bg q x" if ga: "group_answers H rnd bg q (Ok x)"
  proof -
    from ga obtain env h h' where env: "\<And>n i. member_outcome H bg q i (outcome env n i)"
      and res: "group_resolve_attributed rnd (bg_group bg) env h = (Done (Ok x), h')" by (auto simp: group_answers_def)
    from res obtain m name tried where run: "resolve_member rnd (bg_group bg) env h = (Done (Ok (m, name)), tried, h')"
      and x: "x = (m, Some name)"
      by (auto simp: group_resolve_attributed_def and_then_Ok_iff split: prod.splits future.splits)
    from resolve_member_reply [OF run] obtain i n latency now where
      "outcome env n i = Replied m latency now" "name = gm_name (gr_members (bg_group bg) ! i)" by auto
    with env [of i n] x show ?thesis by (auto simp: member_outcome_def member_origin_def)
  qed
  show "msg_id (fst x) = msg_id q" if "member_origin H bg q x"
    using that by (auto simp: member_origin_def dest: leaf_ids.reply_id)
qed

context answering
begin

lemma poll_reply:
  assumes "joined_ok answers_to q w" and "hedged_poll cfg w st = Return (Ok x) flag n"
  shows "origin q x"
proof -
  from assms(2) have "wk_joined w = Some (Task_ok x)"
    by (auto simp: hedged_poll_def join_branch_def Let_def split: if_splits task_result.splits sum.splits)
  with assms(1) show ?thesis by (auto simp: joined_ok_def intro: reply_origin)
qed

lemma loop_reply:
  "list_all (joined_ok answers_to q) ws \<Longrightarrow> hedged_loop cfg st ws = Inr (Return (Ok x) flag n) \<Longrightarrow> origin q x"
  by (induction cfg st ws rule: hedged_loop.induct) (auto split: poll_result.splits intro: poll_reply)

lemma engine_contract: "answering (engine_answers answers_to cfg) origin"
  by unfold_locales (auto simp: engine_answers_def intro: loop_reply origin_id)

end

text \<open>Two resolvers in a fallback chain.\<close>

locale fallback_pair =
  first: answering first_answers first_origin + second: answering second_answers second_origin
  for first_answers first_origin second_answers second_origin
begin

lemma fallback_contract:
  "answering (fallback_answers first_answers second_answers) (\<lambda>q x. first_origin q x \<or> second_origin q x)"
proof
  fix q x
  show "first_origin q x \<or> second_origin q x" if fa: "fallback_answers first_answers second_answers q (Ok x)"
  proof -
    from fa obtain pa fa where pa: "first_answers q pa" "is_ok pa \<or> second_answers q fa"
      "fst (fallback_resolve_attributed (\<lambda>s _. (pa, s)) (\<lambda>s _. (fa, s)) () q) = Ok x"
      by (auto simp: fallback_answers_def)
    then show ?thesis
      by (cases pa) (auto simp: fallback_resolve_attributed_def dest: first.reply_origin second.reply_origin)
  qed
qed (auto dest: first.origin_id second.origin_id)

end

interpretation guarded_link: answering "guarded_group H rnd bg" "member_origin H bg" for H rnd bg
  unfolding guarded_group_def by (rule group_link.engine_contract)

interpretation guarded_pair: fallback_pair "guarded_group H rnd bg" "member_origin H bg" "guarded_group H rnd bg'" "member_origin H bg'"
  for H rnd bg bg' ..

definition chain_origin :: "hickory \<Rightarrow> built_pipeline \<Rightarrow> message \<Rightarrow> attributed \<Rightarrow> bool" where
  "chain_origin H bp q x \<longleftrightarrow> member_origin H (bp_primary bp) q x \<or> (\<exists>fb. bp_fallback bp = Some fb \<and> member_origin H fb q x)"

interpretation chain_link: answering "chain_answers H rnd bp" "chain_origin H bp" for H rnd bp
proof (cases "bp_fallback bp")
  case None
  then show "answering (chain_answers H rnd bp) (chain_origin H bp)"
    using guarded_link.answering_axioms [of H rnd "bp_primary bp"]
    by (simp add: chain_answers_def chain_origin_def [abs_def])
next
  case (Some fb)
  then show "answering (chain_answers H rnd bp) (chain_origin H bp)"
    using guarded_pair.fallback_contract [of H rnd "bp_primary bp" fb]
    by (simp add: chain_answers_def chain_origin_def [abs_def])
qed

text \<open>The members a built pipeline asks are the configured ones.\<close>

definition configured_member :: "hickory \<Rightarrow> libraries \<Rightarrow> config \<Rightarrow> string \<Rightarrow> leaf \<Rightarrow> bool" where
  "configured_member H L c name l \<longleftrightarrow> (\<exists>u env b. u \<in> set (upstream_section c @ fallback_section c) \<and>
     from_config L (bootstrap_servers c) (prefer_ipv6 (server c)) = Ok b \<and>
     build_member H L env b (prefer_ipv6 (server c)) u = Ok (name, l))"

lemma chain_origin_configured:
  assumes "build_pipeline H L env rnd read fetch c rec = Ok bp" and "chain_origin H bp q (m, name)"
  shows "\<exists>n l net. name = Some n \<and> configured_member H L c n l \<and> leaf_resolve H net l q = Ok m"
proof -
  from assms(1) obtain b where b: "from_config L (bootstrap_servers c) (prefer_ipv6 (server c)) = Ok b"
    and p: "group_matches H L c b (upstream_section c) (bp_primary bp)"
    and f: "case bp_fallback bp of None \<Rightarrow> fallback_section c = [] | Some bg \<Rightarrow> group_matches H L c b (fallback_section c) bg"
    by (rule build_pipeline_groups)
  have origin: "\<exists>n l net. name = Some n \<and> configured_member H L c n l \<and> leaf_resolve H net l q = Ok m"
    if "member_origin H bg q (m, name)" "group_matches H L c b entries bg"
      "set entries \<subseteq> set (upstream_section c @ fallback_section c)" for bg entries
  proof -
    from that(1) obtain i net where i: "i < length (bg_leaves bg)" "leaf_resolve H net (bg_leaves bg ! i) q = Ok m"
      "name = Some (gm_name (gr_members (bg_group bg) ! i))" by (auto simp: member_origin_def)
    moreover from that(2) i(1) have "i < length entries"
      and "\<exists>env. build_member H L env b (prefer_ipv6 (server c)) (entries ! i) = Ok (gm_name (gr_members (bg_group bg) ! i), bg_leaves bg ! i)"
      by (simp_all add: group_matches_def)
    ultimately show ?thesis using that(3) b nth_mem [of i entries] unfolding configured_member_def by blast
  qed
  from assms(2) show ?thesis unfolding chain_origin_def
  proof (elim disjE exE conjE)
    fix fb assume "bp_fallback bp = Some fb" "member_origin H fb q (m, name)"
    with f origin [of fb "fallback_section c"] show ?thesis by simp
  qed (use p origin in simp)
qed

end
