(* ===== verification/Server.thy ===== *)
theory Server
  imports Pipeline
begin

text \<open>
  The UDP server, \<open>src/server.rs\<close>: it receives datagrams until it is told to stop or the socket
  fails, runs one handler task per datagram, and then waits for the handlers, at most two
  seconds, before it cancels what is left. The tasks live in a join set: a finished task stays
  there until it is joined.

  What the pipeline replies to a query is a parameter, the relation \<open>replies\<close>. When a handler
  finishes, whether the socket accepts the reply and which ready event the loop sees first are
  the environment's choice.
\<close>

section \<open>One packet\<close>

datatype packet_error = Query_undecodable | Response_unencodable | Reply_not_sent

type_synonym packet = "u8 list \<times> socket_addr"

definition handle_packet ::
  "hickory \<Rightarrow> (message \<Rightarrow> message) \<Rightarrow> (packet \<Rightarrow> bool) \<Rightarrow> u8 list \<Rightarrow> socket_addr \<Rightarrow> (packet, packet_error) result" where
  "handle_packet H handle send_to data peer =
     and_then (ok_or Query_undecodable (from_vec H data)) (\<lambda>query.
     let response = handle query in
     and_then (ok_or Response_unencodable (to_vec H response)) (\<lambda>bytes.
     if send_to (bytes, peer) then Ok (bytes, peer) else Err Reply_not_sent))"

section \<open>The loop\<close>

datatype handler_status = Running | Completed "(packet, packet_error) result" | Panicked | Aborted

record handler =
  hl_data :: "u8 list"
  hl_peer :: socket_addr
  hl_status :: handler_status

datatype server_error = Recv_from_failed

datatype server_phase =
    Receiving
  | Draining "(unit, server_error) result" instant
  | Aborting "(unit, server_error) result"
  | Ended "(unit, server_error) result"

text \<open>The last two fields are the history: the packets taken from the socket and those sent.\<close>

record udp_server =
  ud_phase :: server_phase
  ud_handlers :: "handler list"
  ud_received :: "packet list"
  ud_sent :: "packet list"

definition RECV_BUFFER :: nat where
  "RECV_BUFFER = 65535"

definition DRAIN_TIMEOUT :: duration where
  "DRAIN_TIMEOUT = from_secs 2"

definition server_start :: udp_server where
  "server_start = \<lparr>ud_phase = Receiving, ud_handlers = [], ud_received = [], ud_sent = []\<rparr>"

datatype received = Datagram "u8 list" socket_addr | Recv_error | Shutdown_requested

definition receive_turn :: "instant \<Rightarrow> received \<Rightarrow> udp_server \<Rightarrow> udp_server" where
  "receive_turn now ev s = (case ev of
     Datagram d peer \<Rightarrow>
       (let data = take RECV_BUFFER d in
        s\<lparr>ud_handlers := ud_handlers s @ [\<lparr>hl_data = data, hl_peer = peer, hl_status = Running\<rparr>],
          ud_received := ud_received s @ [(data, peer)]\<rparr>)
   | Recv_error \<Rightarrow> s\<lparr>ud_phase := Draining (Err Recv_from_failed) now\<rparr>
   | Shutdown_requested \<Rightarrow> s\<lparr>ud_phase := Draining (Ok ()) now\<rparr>)"

text \<open>A handler task ends: it stays in the join set, with its outcome.\<close>

definition finish_handler :: "nat \<Rightarrow> handler_status \<Rightarrow> udp_server \<Rightarrow> udp_server" where
  "finish_handler i status s =
     s\<lparr>ud_handlers := (ud_handlers s)[i := (ud_handlers s ! i)\<lparr>hl_status := status\<rparr>],
       ud_sent := ud_sent s @ (case status of Completed (Ok reply) \<Rightarrow> [reply] | _ \<Rightarrow> [])\<rparr>"

text \<open>One poll of the shutdown code; \<open>ready\<close> is a task that can be joined, if there is one.\<close>

definition drain_turn :: "instant \<Rightarrow> nat option \<Rightarrow> udp_server \<Rightarrow> udp_server" where
  "drain_turn now ready s = (case ud_phase s of
     Draining r since \<Rightarrow>
       (if ud_handlers s = [] then s\<lparr>ud_phase := Ended r\<rparr>
        else case ready of
          Some i \<Rightarrow> s\<lparr>ud_handlers := remove_nth i (ud_handlers s)\<rparr>
        | None \<Rightarrow> if now \<ge> since + DRAIN_TIMEOUT then s\<lparr>ud_phase := Aborting r\<rparr> else s)
   | Aborting r \<Rightarrow>
       (if ud_handlers s = [] then s\<lparr>ud_phase := Ended r\<rparr>
        else case ready of
          Some i \<Rightarrow> s\<lparr>ud_handlers := remove_nth i (ud_handlers s)\<rparr>
        | None \<Rightarrow> s)
   | _ \<Rightarrow> s)"

text \<open>A task can be joined once it is over, however it ended.\<close>

definition joinable :: "udp_server \<Rightarrow> nat \<Rightarrow> bool" where
  "joinable s i \<longleftrightarrow> i < length (ud_handlers s) \<and> hl_status (ud_handlers s ! i) \<noteq> Running"

text \<open>Whether \<open>ready\<close> is a possible outcome of polling the join set.\<close>

definition join_poll :: "udp_server \<Rightarrow> nat option \<Rightarrow> bool" where
  "join_poll s ready \<longleftrightarrow> (case ready of None \<Rightarrow> \<forall>i. \<not> joinable s i | Some i \<Rightarrow> joinable s i)"

text \<open>
  What a task does by itself, at any time: it handles its packet, or it panics. After \<open>abort_all\<close> it
  may also be dropped, at one of its await points; until it gets there it goes on, and it may still
  come to its end.
\<close>

inductive task_step :: "hickory \<Rightarrow> (message \<Rightarrow> message \<Rightarrow> bool) \<Rightarrow> udp_server \<Rightarrow> udp_server \<Rightarrow> bool"
  for H :: hickory and replies :: "message \<Rightarrow> message \<Rightarrow> bool" where
  complete: "i < length (ud_handlers s) \<Longrightarrow> ud_handlers s ! i = \<lparr>hl_data = data, hl_peer = peer, hl_status = Running\<rparr> \<Longrightarrow>
    (\<And>q. from_vec H data = Some q \<Longrightarrow> replies q (handle q)) \<Longrightarrow>
    task_step H replies s (finish_handler i (Completed (handle_packet H handle send_to data peer)) s)"
| panic: "i < length (ud_handlers s) \<Longrightarrow> hl_status (ud_handlers s ! i) = Running \<Longrightarrow>
    task_step H replies s (finish_handler i Panicked s)"
| aborted: "i < length (ud_handlers s) \<Longrightarrow> hl_status (ud_handlers s ! i) = Running \<Longrightarrow> ud_phase s = Aborting r \<Longrightarrow>
    task_step H replies s (finish_handler i Aborted s)"

inductive server_step :: "hickory \<Rightarrow> (message \<Rightarrow> message \<Rightarrow> bool) \<Rightarrow> udp_server \<Rightarrow> udp_server \<Rightarrow> bool"
  for H :: hickory and replies :: "message \<Rightarrow> message \<Rightarrow> bool" where
  receive: "ud_phase s = Receiving \<Longrightarrow> server_step H replies s (receive_turn now ev s)"
| task: "task_step H replies s s' \<Longrightarrow> server_step H replies s s'"
| drain: "join_poll s ready \<Longrightarrow> server_step H replies s (drain_turn now ready s)"

definition server_reach :: "hickory \<Rightarrow> (message \<Rightarrow> message \<Rightarrow> bool) \<Rightarrow> udp_server \<Rightarrow> bool" where
  "server_reach H replies = reachable (\<lambda>s. s = server_start) (server_step H replies)"

lemma server_begin: "server_reach H replies server_start"
  unfolding server_reach_def by (rule initial) simp

lemma server_more: "server_reach H replies s \<Longrightarrow> server_step H replies s s' \<Longrightarrow> server_reach H replies s'"
  unfolding server_reach_def by (rule further)

text \<open>
  The server without a shutdown request: \<open>run_udp\<close> binds the socket (or reports that it cannot, or
  that the socket has no address), \<open>run_udp_socket\<close> runs the same loop with a future that never
  completes.
\<close>

datatype run_udp_error = Binding_udp socket_addr | No_socket_addr

definition run_udp :: "(socket_addr \<Rightarrow> bool) \<Rightarrow> bool \<Rightarrow> socket_addr \<Rightarrow> (udp_server, run_udp_error) result" where
  "run_udp bind local_addr listen =
     (if \<not> bind listen then Err (Binding_udp listen) else if \<not> local_addr then Err No_socket_addr else Ok server_start)"

definition run_udp_socket :: "hickory \<Rightarrow> (message \<Rightarrow> message \<Rightarrow> bool) \<Rightarrow> udp_server \<Rightarrow> udp_server \<Rightarrow> bool" where
  "run_udp_socket H replies s s' \<longleftrightarrow> server_step H replies s s' \<and>
     (ud_phase s = Receiving \<longrightarrow> (\<forall>now. s' \<noteq> receive_turn now Shutdown_requested s))"

definition phase_result :: "server_phase \<Rightarrow> (unit, server_error) result option" where
  "phase_result ph = (case ph of Receiving \<Rightarrow> None | Draining r _ \<Rightarrow> Some r | Aborting r \<Rightarrow> Some r | Ended r \<Rightarrow> Some r)"

lemma finish_frame [simp]:
  "ud_phase (finish_handler i status s) = ud_phase s" "ud_received (finish_handler i status s) = ud_received s"
  "length (ud_handlers (finish_handler i status s)) = length (ud_handlers s)"
  by (simp_all add: finish_handler_def)

lemma task_frame:
  "task_step H replies s s' \<Longrightarrow> ud_phase s' = ud_phase s \<and> ud_received s' = ud_received s \<and>
     length (ud_handlers s') = length (ud_handlers s)"
  by (induction rule: task_step.induct) simp_all

lemma phase_result_step:
  "server_step H replies s s' \<Longrightarrow> phase_result (ud_phase s') = phase_result (ud_phase s) \<or>
     ud_phase s = Receiving \<and> (\<exists>now ev. s' = receive_turn now ev s)"
  by (induction rule: server_step.induct)
    (auto simp: drain_turn_def phase_result_def dest: task_frame split: server_phase.splits option.splits)

text \<open>Such a server never returns with success.\<close>

interpretation endless: inductive_invariant "\<lambda>s. s = server_start" "run_udp_socket H replies"
  "\<lambda>s. phase_result (ud_phase s) \<noteq> Some (Ok ())" for H replies
proof
  show "phase_result (ud_phase s) \<noteq> Some (Ok ())" if "s = server_start" for s
    using that by (simp add: server_start_def phase_result_def)
next
  fix s s' assume kept: "phase_result (ud_phase s) \<noteq> Some (Ok ())" and step: "run_udp_socket H replies s s'"
  then have srv: "server_step H replies s s'"
    and no_shutdown: "ud_phase s = Receiving \<Longrightarrow> s' \<noteq> receive_turn now Shutdown_requested s" for now
    by (auto simp: run_udp_socket_def)
  from phase_result_step [OF srv] show "phase_result (ud_phase s') \<noteq> Some (Ok ())"
  proof (elim disjE conjE exE)
    fix now ev assume "ud_phase s = Receiving" "s' = receive_turn now ev s"
    with no_shutdown [of now] show ?thesis by (cases ev) (simp_all add: receive_turn_def phase_result_def Let_def)
  qed (use kept in simp)
qed

section \<open>The invariant\<close>

text \<open>What may be sent in reply to a packet.\<close>

definition answers_packet :: "hickory \<Rightarrow> (message \<Rightarrow> message \<Rightarrow> bool) \<Rightarrow> packet \<Rightarrow> packet \<Rightarrow> bool" where
  "answers_packet H replies p reply \<longleftrightarrow> snd reply = snd p \<and>
     (\<exists>q r. from_vec H (fst p) = Some q \<and> replies q r \<and> to_vec H r = Some (fst reply))"

definition open_packets :: "udp_server \<Rightarrow> packet list" where
  "open_packets s = map (\<lambda>h. (hl_data h, hl_peer h)) (filter (\<lambda>h. hl_status h = Running) (ud_handlers s))"

text \<open>
  The packets that were answered, each with its answer, and those still in work account for
  no more than the packets received; while the server receives, the join set has one task for
  every packet received.
\<close>

definition server_inv :: "hickory \<Rightarrow> (message \<Rightarrow> message \<Rightarrow> bool) \<Rightarrow> udp_server \<Rightarrow> bool" where
  "server_inv H replies s \<longleftrightarrow>
     (\<exists>answered. list_all2 (answers_packet H replies) answered (ud_sent s) \<and>
        mset answered + mset (open_packets s) \<subseteq># mset (ud_received s)) \<and>
     (ud_phase s = Receiving \<longrightarrow> length (ud_handlers s) = length (ud_received s)) \<and>
     ((\<exists>r. ud_phase s = Ended r) \<longrightarrow> ud_handlers s = [])"

lemma handle_packet_Ok:
  "handle_packet H handle send_to data peer = Ok reply \<Longrightarrow> (\<And>q. from_vec H data = Some q \<Longrightarrow> replies q (handle q)) \<Longrightarrow>
     answers_packet H replies (data, peer) reply"
  by (auto simp: handle_packet_def answers_packet_def and_then_Ok_iff Let_def split: if_splits)

lemma mset_open_packets:
  "mset (open_packets s) = {# (hl_data h, hl_peer h). h \<in># filter_mset (\<lambda>h. hl_status h = Running) (mset (ud_handlers s)) #}"
  by (simp add: open_packets_def)

lemma open_packets_finish:
  assumes "i < length (ud_handlers s)" and "hl_status (ud_handlers s ! i) = Running" and "status \<noteq> Running"
  shows "mset (open_packets s) =
    add_mset (hl_data (ud_handlers s ! i), hl_peer (ud_handlers s ! i)) (mset (open_packets (finish_handler i status s)))"
proof -
  let ?rest = "mset (remove_nth i (ud_handlers s))"
  have "mset (ud_handlers s) = add_mset (ud_handlers s ! i) ?rest" using assms(1) by (rule mset_remove_nth)
  moreover from this have "mset (ud_handlers (finish_handler i status s)) = add_mset ((ud_handlers s ! i)\<lparr>hl_status := status\<rparr>) ?rest"
    using assms(1) by (simp add: finish_handler_def mset_update)
  ultimately show ?thesis using assms(2,3) by (simp add: mset_open_packets)
qed

lemma open_packets_remove:
  assumes "i < length (ud_handlers s)"
  shows "mset (open_packets (s\<lparr>ud_handlers := remove_nth i (ud_handlers s)\<rparr>)) \<subseteq># mset (open_packets s)"
proof -
  have "mset (remove_nth i (ud_handlers s)) \<subseteq># mset (ud_handlers s)" using mset_remove_nth [OF assms] by simp
  then show ?thesis by (simp add: mset_open_packets image_mset_subseteq_mono multiset_filter_mono)
qed

lemma server_inv_receive: "server_inv H replies s \<Longrightarrow> ud_phase s = Receiving \<Longrightarrow> server_inv H replies (receive_turn now ev s)"
proof (cases ev)
  case (Datagram d peer)
  assume inv: "server_inv H replies s" and rcv: "ud_phase s = Receiving"
  from inv obtain answered where "list_all2 (answers_packet H replies) answered (ud_sent s)"
    "mset answered + mset (open_packets s) \<subseteq># mset (ud_received s)" by (auto simp: server_inv_def)
  with inv rcv Datagram show ?thesis
    by (auto simp: server_inv_def receive_turn_def mset_open_packets Let_def intro!: exI [of _ answered])
qed (auto simp: server_inv_def receive_turn_def mset_open_packets)

lemma server_inv_complete:
  assumes "server_inv H replies s" and "i < length (ud_handlers s)"
    and h: "ud_handlers s ! i = \<lparr>hl_data = data, hl_peer = peer, hl_status = Running\<rparr>" and "status \<noteq> Running"
    and ok: "\<And>reply. status = Completed (Ok reply) \<Longrightarrow> answers_packet H replies (data, peer) reply"
  shows "server_inv H replies (finish_handler i status s)"
proof -
  from assms(1) obtain answered where ans: "list_all2 (answers_packet H replies) answered (ud_sent s)"
    and acc: "mset answered + mset (open_packets s) \<subseteq># mset (ud_received s)" by (auto simp: server_inv_def)
  have mo: "mset (open_packets s) = add_mset (data, peer) (mset (open_packets (finish_handler i status s)))"
    using open_packets_finish [OF assms(2) _ assms(4)] h by simp
  have "\<exists>answered. list_all2 (answers_packet H replies) answered (ud_sent (finish_handler i status s)) \<and>
      mset answered + mset (open_packets (finish_handler i status s)) \<subseteq># mset (ud_received s)"
  proof (cases "\<exists>reply. status = Completed (Ok reply)")
    case True
    with ok ans acc mo show ?thesis
      by (intro exI [of _ "answered @ [(data, peer)]"]) (auto simp: finish_handler_def intro: list_all2_appendI)
  next
    case False
    then have "ud_sent (finish_handler i status s) = ud_sent s"
      by (auto simp: finish_handler_def split: handler_status.splits sum.splits)
    moreover have "mset answered + mset (open_packets (finish_handler i status s)) \<subseteq># mset (ud_received s)"
      using acc mo by (metis mset_subset_eq_insertD subset_mset.less_imp_le union_mset_add_mset_right)
    ultimately show ?thesis using ans by auto
  qed
  with assms(1,2) show ?thesis by (auto simp: server_inv_def simp flip: length_0_conv)
qed

lemma server_inv_drain:
  assumes "server_inv H replies s" and "join_poll s ready"
  shows "server_inv H replies (drain_turn now ready s)"
proof -
  have "server_inv H replies (s\<lparr>ud_handlers := remove_nth i (ud_handlers s)\<rparr>)"
    if "i < length (ud_handlers s)" "ud_phase s \<noteq> Receiving" "\<forall>r. ud_phase s \<noteq> Ended r" for i
  proof -
    from assms(1) obtain answered where "list_all2 (answers_packet H replies) answered (ud_sent s)"
      "mset answered + mset (open_packets s) \<subseteq># mset (ud_received s)" by (auto simp: server_inv_def)
    moreover from this(2) have "mset answered + mset (open_packets (s\<lparr>ud_handlers := remove_nth i (ud_handlers s)\<rparr>)) \<subseteq># mset (ud_received s)"
      using open_packets_remove [OF that(1)] by (meson subset_mset.add_left_mono subset_mset.order_trans)
    ultimately show ?thesis using that(2,3) by (auto simp: server_inv_def)
  qed
  moreover have "server_inv H replies (s\<lparr>ud_phase := ph\<rparr>)" if "ph \<noteq> Receiving" "\<forall>r. ph = Ended r \<longrightarrow> ud_handlers s = []" for ph
    using assms(1) that by (auto simp: server_inv_def mset_open_packets)
  ultimately show ?thesis using assms
    by (auto simp: drain_turn_def join_poll_def joinable_def split: server_phase.splits option.splits)
qed

lemma server_inv_task:
  assumes "server_inv H replies s" and "task_step H replies s s'"
  shows "server_inv H replies s'"
  using assms(2)
proof cases
  case (complete i data peer handle send_to)
  with assms(1) show ?thesis by (auto intro!: server_inv_complete handle_packet_Ok)
next
  case (panic i)
  then show ?thesis
    using server_inv_complete [OF assms(1) panic(2), of "hl_data (ud_handlers s ! i)" "hl_peer (ud_handlers s ! i)" Panicked] by simp
next
  case (aborted i r)
  then show ?thesis
    using server_inv_complete [OF assms(1) aborted(2), of "hl_data (ud_handlers s ! i)" "hl_peer (ud_handlers s ! i)" Aborted] by simp
qed

lemma server_inv_step:
  assumes "server_inv H replies s" and "server_step H replies s s'"
  shows "server_inv H replies s'"
  using assms(2)
  by cases (use assms(1) in \<open>auto intro: server_inv_receive server_inv_task server_inv_drain\<close>)

interpretation udp: inductive_invariant "\<lambda>s. s = server_start" "server_step H replies" "server_inv H replies" for H replies
proof
  show "server_inv H replies s" if "s = server_start" for s
    using that by (simp add: server_inv_def server_start_def open_packets_def)
qed (rule server_inv_step)

lemmas server_inv_reach = udp.always [folded server_reach_def]

section \<open>What the server guarantees\<close>

text \<open>C15. Every datagram the server sends answers a datagram it received: it goes to the sender of
  that packet and encodes a reply of the pipeline to the query the packet decodes to, and no packet
  is answered twice; packets that do not decode are never answered. When the server has
  returned, none of its handlers is left running.\<close>

theorem server_answers_senders:
  assumes "server_reach H replies s"
  shows "(\<exists>answered. list_all2 (\<lambda>p reply. snd reply = snd p \<and>
        (\<exists>q r. from_vec H (fst p) = Some q \<and> replies q r \<and> to_vec H r = Some (fst reply))) answered (ud_sent s) \<and>
      mset answered \<subseteq># mset (ud_received s)) \<and>
    (\<forall>r. ud_phase s = Ended r \<longrightarrow> ud_handlers s = [])"
  using server_inv_reach [OF assms] unfolding server_inv_def answers_packet_def [abs_def]
  by (metis (no_types, lifting) mset_subset_eq_add_left subset_mset.order_trans)

text \<open>
  The server after its loop has ended: the tasks go on and the shutdown code is polled, in any order
  and at any moments. The number counts the polls from two seconds after \<open>since\<close> on.
\<close>

inductive shutdown_run ::
  "hickory \<Rightarrow> (message \<Rightarrow> message \<Rightarrow> bool) \<Rightarrow> instant \<Rightarrow> udp_server \<Rightarrow> nat \<Rightarrow> udp_server \<Rightarrow> bool"
  for H :: hickory and replies :: "message \<Rightarrow> message \<Rightarrow> bool" and since :: instant and s :: udp_server where
  begun: "shutdown_run H replies since s 0 s"
| task_goes_on: "shutdown_run H replies since s n s' \<Longrightarrow> task_step H replies s' s'' \<Longrightarrow> shutdown_run H replies since s n s''"
| polled: "shutdown_run H replies since s n s' \<Longrightarrow> join_poll s' ready \<Longrightarrow>
    shutdown_run H replies since s (if since + 2000000000 \<le> now then Suc n else n) (drain_turn now ready s')"

definition stops_with :: "(unit, server_error) result \<Rightarrow> instant \<Rightarrow> udp_server \<Rightarrow> bool" where
  "stops_with r since s \<longleftrightarrow> ud_phase s = Draining r since \<or> ud_phase s = Aborting r \<or> ud_phase s = Ended r"

definition all_over :: "udp_server \<Rightarrow> bool" where
  "all_over s \<longleftrightarrow> (\<forall>h \<in> set (ud_handlers s). hl_status h \<noteq> Running)"

definition polls_to_abort :: "udp_server \<Rightarrow> nat" where
  "polls_to_abort s = (case ud_phase s of Draining _ _ \<Rightarrow> length (ud_handlers s) + 1 | _ \<Rightarrow> 0)"

definition polls_to_end :: "udp_server \<Rightarrow> nat" where
  "polls_to_end s = (case ud_phase s of Ended _ \<Rightarrow> 0 | _ \<Rightarrow> length (ud_handlers s) + 1)"

lemma drain_timeout: "DRAIN_TIMEOUT = 2000000000"
  by (simp add: DRAIN_TIMEOUT_def from_secs_def)

lemma shutdown_keeps:
  "shutdown_run H replies since s n s' \<Longrightarrow> stops_with r since s \<Longrightarrow>
     stops_with r since s' \<and> length (ud_handlers s') \<le> length (ud_handlers s) \<and> polls_to_abort s' \<le> polls_to_abort s - n"
proof (induction rule: shutdown_run.induct)
  case (task_goes_on n s' s'')
  then show ?case using task_frame [OF task_goes_on(2)] by (auto simp: stops_with_def polls_to_abort_def)
next
  case (polled n s' ready now)
  then show ?case
    by (auto simp: stops_with_def polls_to_abort_def drain_turn_def drain_timeout join_poll_def joinable_def length_remove_nth
        split: option.splits if_splits)
qed simp

text \<open>Once every task is over, nothing but the polls moves the server, and each of them brings it nearer to its end.\<close>

lemma over_no_task: "all_over s \<Longrightarrow> \<not> task_step H replies s s'"
  by (auto simp: all_over_def elim!: task_step.cases) (metis handler.select_convs(3) nth_mem)+

lemma all_over_remove: "all_over s \<Longrightarrow> all_over (s\<lparr>ud_handlers := remove_nth i (ud_handlers s)\<rparr>)"
  using set_remove_nth [of i "ud_handlers s"] by (auto simp: all_over_def)

lemma all_over_poll:
  assumes "all_over s" and "stops_with r since s" and "join_poll s ready"
  shows "all_over (drain_turn now ready s)" and "polls_to_end (drain_turn now ready s) \<le> polls_to_end s - 1"
proof -
  have none: "ud_handlers s = []" if "ready = None"
    using that assms(1,3) by (cases "ud_handlers s") (auto simp: join_poll_def joinable_def all_over_def)
  show "all_over (drain_turn now ready s)"
    using all_over_remove [OF assms(1)] assms(1)
    by (auto simp: drain_turn_def all_over_def split: server_phase.splits option.splits)
  show "polls_to_end (drain_turn now ready s) \<le> polls_to_end s - 1"
    using assms(2,3) none
    by (auto simp: drain_turn_def polls_to_end_def stops_with_def join_poll_def joinable_def length_remove_nth split: option.splits)
qed

lemma over_ends:
  "shutdown_run H replies since s n s' \<Longrightarrow> all_over s \<Longrightarrow> stops_with r since s \<Longrightarrow>
     all_over s' \<and> stops_with r since s' \<and> polls_to_end s' \<le> polls_to_end s - n"
proof (induction rule: shutdown_run.induct)
  case (task_goes_on n s' s'')
  then show ?case using over_no_task by blast
next
  case (polled n s' ready now)
  then have kept: "all_over s'" "stops_with r since s'" "polls_to_end s' \<le> polls_to_end s - n" by blast+
  have "stops_with r since (drain_turn now ready s')"
    using shutdown_keeps [OF shutdown_run.polled [OF polled(1,2)] polled(5)] by blast
  with all_over_poll [OF kept(1,2) polled(2), of now] kept(3) show ?case by auto
qed simp

text \<open>While it aborts, every task still running can be dropped; so the server can always end.\<close>

lemma abort_tasks:
  "ud_phase s = Aborting r \<Longrightarrow> \<exists>s'. shutdown_run H replies since s 0 s' \<and> ud_phase s' = Aborting r \<and> all_over s'"
proof (induction "length (open_packets s)" arbitrary: s rule: less_induct)
  case less
  show ?case
  proof (cases "all_over s")
    case True
    with less.prems show ?thesis by (blast intro: begun)
  next
    case False
    then obtain i where i: "i < length (ud_handlers s)" "hl_status (ud_handlers s ! i) = Running"
      by (auto simp: all_over_def in_set_conv_nth)
    let ?s = "finish_handler i Aborted s"
    have "length (open_packets s) = Suc (length (open_packets ?s))"
      using open_packets_finish [OF i, of Aborted] by (metis handler_status.distinct(5) size_add_mset size_mset)
    then have "length (open_packets ?s) < length (open_packets s)" by simp
    from less.hyps [OF this] less.prems obtain s' where
      s': "shutdown_run H replies since ?s 0 s'" "ud_phase s' = Aborting r" "all_over s'" by auto
    have first: "shutdown_run H replies since s 0 ?s"
      by (rule task_goes_on [OF begun]) (rule aborted [OF i less.prems])
    from s'(1) have "shutdown_run H replies since s m s'" if "m = 0" for m
      using that
    proof (induction "0 :: nat" s' rule: shutdown_run.induct)
      case begun
      with first show ?case by simp
    next
      case (task_goes_on s' s'')
      then show ?case by (blast intro: shutdown_run.task_goes_on)
    next
      case (polled n s' ready now)
      then show ?case using shutdown_run.polled [of H replies since s 0 s' ready now] by (auto split: if_splits)
    qed
    with s'(2,3) show ?thesis by blast
  qed
qed

text \<open>C16. Shutting down. Whatever the handlers do meanwhile, in any interleaving of the tasks with the
  polls of the shutdown code: the result the loop ended with (success for a requested shutdown,
  the error for a failed socket) is the only one the server can return, no task is added, and after
  as many polls past the two seconds as there are tasks, and one more, it no longer waits for the
  handlers to drain: it has ended, or it has cancelled them. From then on every running task can
  be dropped, and as soon as no task runs any more the server ends within one poll more than there
  are tasks. Until then it waits: the join after the cancellation has no time limit of its own, and
  a cancelled task is over only when it reaches an await point. It never ends with a task left.\<close>

theorem server_stops:
  assumes "ud_phase s = Draining r since" and "shutdown_run H replies since s n s'"
  shows "ud_phase s' \<in> {Draining r since, Aborting r, Ended r} \<and> length (ud_handlers s') \<le> length (ud_handlers s) \<and>
    (length (ud_handlers s) + 1 \<le> n \<longrightarrow> ud_phase s' \<in> {Aborting r, Ended r}) \<and>
    (ud_phase s' = Aborting r \<longrightarrow>
      (\<exists>s''. shutdown_run H replies since s' 0 s'' \<and> (\<forall>h \<in> set (ud_handlers s''). hl_status h \<noteq> Running))) \<and>
    ((\<forall>h \<in> set (ud_handlers s'). hl_status h \<noteq> Running) \<longrightarrow>
      (\<forall>m s''. shutdown_run H replies since s' m s'' \<and> length (ud_handlers s') + 1 \<le> m \<longrightarrow> ud_phase s'' = Ended r)) \<and>
    (\<forall>now ready. join_poll s' ready \<and> ud_phase s' \<noteq> Ended r \<and> ud_phase (drain_turn now ready s') = Ended r \<longrightarrow> ud_handlers s' = [])"
proof (intro conjI impI allI)
  have start: "stops_with r since s" using assms(1) by (simp add: stops_with_def)
  note kept = shutdown_keeps [OF assms(2) start]
  show "ud_phase s' \<in> {Draining r since, Aborting r, Ended r}" "length (ud_handlers s') \<le> length (ud_handlers s)"
    using kept by (auto simp: stops_with_def)
  show "ud_phase s' \<in> {Aborting r, Ended r}" if "length (ud_handlers s) + 1 \<le> n"
    using kept that assms(1) by (auto simp: stops_with_def polls_to_abort_def)
  show "\<exists>s''. shutdown_run H replies since s' 0 s'' \<and> (\<forall>h \<in> set (ud_handlers s''). hl_status h \<noteq> Running)" if "ud_phase s' = Aborting r"
    using abort_tasks [OF that, of H replies since] by (auto simp: all_over_def)
  show "ud_phase s'' = Ended r" if "\<forall>h \<in> set (ud_handlers s'). hl_status h \<noteq> Running"
    "shutdown_run H replies since s' m s'' \<and> length (ud_handlers s') + 1 \<le> m" for m s''
  proof -
    have "polls_to_end s'' = 0" "stops_with r since s''"
      using over_ends [of H replies since s' m s'' r] that kept by (auto simp: all_over_def polls_to_end_def split: server_phase.splits)
    then show ?thesis by (auto simp: polls_to_end_def stops_with_def)
  qed
  show "ud_handlers s' = []"
    if "join_poll s' ready \<and> ud_phase s' \<noteq> Ended r \<and> ud_phase (drain_turn now ready s') = Ended r" for now ready
    using that kept by (auto simp: drain_turn_def stops_with_def split: option.splits if_splits)
qed

lemma join_set_example:
  assumes "\<And>q. replies q (handle q)"
  shows "\<exists>s. server_reach H replies s \<and> ud_phase s = Receiving \<and> length (ud_handlers s) = n \<and>
    ud_received s = replicate n (take RECV_BUFFER data, peer) \<and> list_all (\<lambda>h. \<exists>r. hl_status h = Completed r) (ud_handlers s)"
proof (induction n)
  case 0
  show ?case using server_begin [of H replies] by (intro exI [of _ server_start]) (simp add: server_start_def)
next
  case (Suc n)
  then obtain s where s: "server_reach H replies s" "ud_phase s = Receiving" "length (ud_handlers s) = n"
    "ud_received s = replicate n (take RECV_BUFFER data, peer)" "list_all (\<lambda>h. \<exists>r. hl_status h = Completed r) (ud_handlers s)" by blast
  let ?h = "\<lparr>hl_data = take RECV_BUFFER data, hl_peer = peer, hl_status = Running\<rparr>"
  let ?s1 = "receive_turn 0 (Datagram data peer) s"
  let ?s2 = "finish_handler n (Completed (handle_packet H handle (\<lambda>_. True) (take RECV_BUFFER data) peer)) ?s1"
  have h1: "ud_handlers ?s1 = ud_handlers s @ [?h]" by (simp add: receive_turn_def Let_def)
  have "server_reach H replies ?s1" using server_more [OF s(1) server_step.receive [OF s(2)]] .
  moreover have "server_step H replies ?s1 ?s2"
    by (rule server_step.task, rule task_step.complete) (use h1 s(3) assms in \<open>simp_all add: nth_append\<close>)
  ultimately have "server_reach H replies ?s2" by (rule server_more)
  moreover have "ud_handlers ?s2 = ud_handlers s @ [?h\<lparr>hl_status := Completed (handle_packet H handle (\<lambda>_. True) (take RECV_BUFFER data) peer)\<rparr>]"
    using h1 s(3) by (simp add: finish_handler_def list_update_append nth_append)
  ultimately show ?case using s
    by (intro exI [of _ ?s2]) (simp add: receive_turn_def Let_def replicate_append_same)
qed

text \<open>C39. The join set is never emptied while the server receives: in every reachable state of that
  phase it holds one task per datagram received since the start, and this includes states, for any
  number of datagrams, in which every one of those handlers has finished; so the memory it takes
  grows with the number of queries served.\<close>

theorem join_set_grows:
  assumes "\<forall>q. \<exists>r. replies q r"
  shows "(\<forall>s. server_reach H replies s \<and> ud_phase s = Receiving \<longrightarrow> length (ud_handlers s) = length (ud_received s)) \<and>
    (\<forall>n. \<exists>s. server_reach H replies s \<and> ud_phase s = Receiving \<and> length (ud_handlers s) = n \<and>
       list_all (\<lambda>h. \<exists>r. hl_status h = Completed r) (ud_handlers s))"
proof -
  from assms obtain handle where "\<And>q. replies q (handle q)" by metis
  from join_set_example [of replies handle, OF this] have "\<exists>s. server_reach H replies s \<and> ud_phase s = Receiving \<and> length (ud_handlers s) = n \<and>
     list_all (\<lambda>h. \<exists>r. hl_status h = Completed r) (ud_handlers s)" for n by blast
  moreover have "length (ud_handlers s) = length (ud_received s)" if "server_reach H replies s" "ud_phase s = Receiving" for s
    using server_inv_reach [OF that(1)] that(2) by (simp add: server_inv_def)
  ultimately show ?thesis by blast
qed

section \<open>Concrete instances\<close>

definition echo_hickory :: hickory where
  "echo_hickory = sample_hickory\<lparr>from_vec := \<lambda>bs. case bs of [b] \<Rightarrow> Some (message_new (ucast b) Query_type 0) | _ \<Rightarrow> None,
     to_vec := \<lambda>m. Some [ucast (msg_id m)]\<rparr>"

definition echo_server :: udp_server where
  "echo_server = \<lparr>ud_phase = Receiving,
     ud_handlers = [\<lparr>hl_data = [7], hl_peer = default_dashboard_listen, hl_status = Completed (Ok ([7], default_dashboard_listen))\<rparr>],
     ud_received = [([7], default_dashboard_listen)], ud_sent = [([7], default_dashboard_listen)]\<rparr>"

lemma echo_server_reach:
  assumes "replies (message_new 7 Query_type 0) (servfail (message_new 7 Query_type 0))"
  shows "server_reach echo_hickory replies echo_server"
proof -
  let ?s1 = "receive_turn 0 (Datagram [7] default_dashboard_listen) server_start"
  let ?res = "handle_packet echo_hickory servfail (\<lambda>_. True) [7] default_dashboard_listen"
  have "server_reach echo_hickory replies ?s1"
    by (rule server_more [OF server_begin server_step.receive]) (simp add: server_start_def)
  moreover have "server_step echo_hickory replies ?s1 (finish_handler 0 (Completed ?res) ?s1)"
    by (rule server_step.task, rule task_step.complete)
      (use assms in \<open>auto simp: receive_turn_def server_start_def RECV_BUFFER_def Let_def echo_hickory_def\<close>)
  moreover have "finish_handler 0 (Completed ?res) ?s1 = echo_server"
    by (simp add: finish_handler_def handle_packet_def echo_hickory_def echo_server_def receive_turn_def server_start_def RECV_BUFFER_def Let_def)
  ultimately show ?thesis by (metis server_more)
qed

theorem server_answers_senders_witness:
  "\<exists>answered. mset answered \<subseteq># mset (ud_received echo_server) \<and>
     map snd answered = map snd (ud_sent echo_server) \<and> length answered = 1"
proof -
  from server_answers_senders [OF echo_server_reach, of "\<lambda>q r. r = servfail q"] obtain answered where
    a: "list_all2 (\<lambda>p reply. snd reply = snd p \<and> (\<exists>q r. from_vec echo_hickory (fst p) = Some q \<and> r = servfail q \<and>
          to_vec echo_hickory r = Some (fst reply))) answered (ud_sent echo_server)"
      "mset answered \<subseteq># mset (ud_received echo_server)" by blast
  then have "list_all2 (\<lambda>p reply. snd p = snd reply) answered (ud_sent echo_server)" by (simp add: list_all2_conv_all_nth)
  with a show ?thesis
    by (intro exI [of _ answered]) (auto simp: echo_server_def list_all2_Cons2)
qed

definition stuck_server :: udp_server where
  "stuck_server = echo_server\<lparr>ud_phase := Draining (Ok ()) 5,
     ud_handlers := [\<lparr>hl_data = [], hl_peer = default_dashboard_listen, hl_status = Running\<rparr>]\<rparr>"

text \<open>One handler that does not end: two late polls cancel it, it is dropped, two more end the server.\<close>

theorem server_stops_witness:
  "\<exists>s1 s2 s3. shutdown_run echo_hickory (\<lambda>_ _. True) 5 stuck_server 2 s1 \<and> ud_phase s1 = Aborting (Ok ()) \<and>
     shutdown_run echo_hickory (\<lambda>_ _. True) 5 s1 0 s2 \<and> shutdown_run echo_hickory (\<lambda>_ _. True) 5 s2 2 s3 \<and>
     ud_phase s3 = Ended (Ok ())"
proof -
  let ?run = "shutdown_run echo_hickory (\<lambda>_ _. True) 5"
  let ?s1 = "stuck_server\<lparr>ud_phase := Aborting (Ok ())\<rparr>"
  let ?s2 = "finish_handler 0 Aborted ?s1"
  let ?s3 = "?s2\<lparr>ud_handlers := [], ud_phase := Ended (Ok ())\<rparr>"
  have poll: "join_poll stuck_server None" "join_poll ?s1 None" "join_poll ?s2 (Some 0)" "join_poll (?s2\<lparr>ud_handlers := []\<rparr>) None"
    by (auto simp: join_poll_def joinable_def stuck_server_def finish_handler_def nth_Cons')
  have turn: "drain_turn 2000000005 None stuck_server = ?s1" "drain_turn 2000000006 None ?s1 = ?s1"
      "drain_turn 2000000007 (Some 0) ?s2 = ?s2\<lparr>ud_handlers := []\<rparr>" "drain_turn 2000000008 None (?s2\<lparr>ud_handlers := []\<rparr>) = ?s3"
    by (simp_all add: drain_turn_def stuck_server_def DRAIN_TIMEOUT_def from_secs_def finish_handler_def remove_nth_def)
  have run1: "?run stuck_server 2 ?s1"
    using polled [OF polled [OF begun poll(1), of echo_hickory "\<lambda>_ _. True" 5 2000000005, simplified turn(1)] poll(2), of 2000000006]
    by (simp add: turn(2) numeral_2_eq_2)
  have run2: "?run ?s1 0 ?s2"
    by (rule task_goes_on [OF begun], rule aborted) (simp_all add: stuck_server_def)
  have run3: "?run ?s2 2 ?s3"
    using polled [OF polled [OF begun poll(3), of echo_hickory "\<lambda>_ _. True" 5 2000000007, simplified turn(3)] poll(4), of 2000000008]
    by (simp add: turn(4) numeral_2_eq_2)
  have "ud_phase stuck_server = Draining (Ok ()) 5" by (simp add: stuck_server_def)
  moreover have "?run stuck_server 2 ?s2"
    by (rule task_goes_on [OF run1], rule aborted) (simp_all add: stuck_server_def)
  ultimately have "ud_phase ?s3 = Ended (Ok ())"
    using server_stops [of stuck_server "Ok ()" 5 echo_hickory "\<lambda>_ _. True" 2 ?s2] run3
    by (auto simp: stuck_server_def finish_handler_def)
  with run1 run2 run3 show ?thesis by (intro exI [of _ ?s1] exI [of _ ?s2] exI [of _ ?s3]) simp
qed

theorem join_set_grows_witness:
  "\<exists>s. server_reach echo_hickory (\<lambda>q r. r = servfail q) s \<and> ud_phase s = Receiving \<and> length (ud_handlers s) = 1000000 \<and>
     list_all (\<lambda>h. \<exists>r. hl_status h = Completed r) (ud_handlers s)"
  using join_set_grows [of "\<lambda>q r. r = servfail q" echo_hickory] by blast

end
