(* ===== verification/Runtime.thy ===== *)
theory Runtime
  imports Server Build Store_Worker Store_Schema Http_Api
begin

text \<open>
  The process: \<open>src/dashboard/mod.rs\<close> (\<open>build_runtime\<close>, \<open>Runtime::run_until\<close>) and \<open>src/main.rs\<close>.
  Opening the database, starting its writer, building the pipeline and binding the two listeners;
  then running the two services until one of them ends or a shutdown is requested, and
  stopping the rest.

  The three futures the process waits for are given by the moment each completes, if it does, and
  by its result; what a service does after it was told to stop is a function of that moment.
\<close>

datatype service = Http_service | Dns_service

datatype service_error = Io_error

datatype runtime_error =
    Database_init schema_error | Database_clean store_error | Worker_not_started
  | Build_failed build_error | Http_bind_failed | Dns_bind_failed
  | No_local_addr | Stopped_unexpectedly service | Service_failed service service_error
  | Signal_failed

section \<open>Building\<close>

record runtime =
  rt_http_state :: http_state
  rt_pipeline :: built_pipeline
  rt_worker :: store_worker

text \<open>How the worker thread reacts to its shutdown.\<close>

record worker_end =
  we_stopped :: "duration option"
  we_join_ok :: bool
  we_reaper :: bool

definition shutdown_worker :: "worker_end \<Rightarrow> store_worker \<Rightarrow> worker_effect list" where
  "shutdown_worker we worker = worker_shutdown (we_stopped we) (we_join_ok we) (we_reaper we) worker"

record boot_env =
  bt_schema :: schema_io
  bt_io :: sql_io
  bt_utc_ms :: int
  bt_thread :: bool
  bt_http_binds :: "socket_addr \<Rightarrow> bool"
  bt_dns_binds :: "socket_addr \<Rightarrow> bool"
  bt_worker_end :: worker_end
  bt_network :: build_env
  bt_files :: "string \<Rightarrow> string option"
  bt_fetch :: "string \<Rightarrow> fetch_env"

definition build_runtime ::
  "hickory \<Rightarrow> libraries \<Rightarrow> rounding \<Rightarrow> boot_env \<Rightarrow> config \<Rightarrow> disk \<Rightarrow> (runtime, runtime_error) result \<times> worker_effect list \<times> disk" where
  "build_runtime H L rnd env c dk = (case store_open (bt_schema env) dk of
     (Err e, dk) \<Rightarrow> (Err (Database_init e), [], dk)
   | (Ok _, dk) \<Rightarrow>
       (case cleanup (bt_io env) (retention_days (dashboard c)) (bt_utc_ms env) (dk_data dk) of
          (Err e, db) \<Rightarrow> (Err (Database_clean e), [], dk\<lparr>dk_data := db\<rparr>)
        | (Ok _, db) \<Rightarrow>
            (let dk = dk\<lparr>dk_data := db\<rparr> in
             case worker_start_handle (bt_thread env) of
               None \<Rightarrow> (Err Worker_not_started, [], dk)
             | Some (worker, channel) \<Rightarrow>
               case build_pipeline H L (bt_network env) rnd (bt_files env) (bt_fetch env) c channel of
                 Err e \<Rightarrow> (Err (Build_failed e), shutdown_worker (bt_worker_end env) worker, dk)
               | Ok built \<Rightarrow>
                   if \<not> bt_http_binds env (dc_listen (dashboard c))
                   then (Err Http_bind_failed, shutdown_worker (bt_worker_end env) worker, dk)
                   else if \<not> bt_dns_binds env (sc_listen (server c))
                   then (Err Dns_bind_failed, shutdown_worker (bt_worker_end env) worker, dk)
                   else (Ok \<lparr>rt_http_state = \<lparr>hs_store = db, hs_upstreams = bp_metrics built,
                               hs_retention_days = retention_days (dashboard c), hs_cache = pl_cache (bp_state built),
                               hs_sampler = pl_sampler (bp_state built)\<rparr>,
                             rt_pipeline = built, rt_worker = worker\<rparr>, [], dk))))"

section \<open>Running\<close>

definition SERVICE_SHUTDOWN_TIMEOUT :: duration where
  "SERVICE_SHUTDOWN_TIMEOUT = from_millis 2500"

type_synonym ('a, 'e) completion = "(instant \<times> ('a, 'e) result) option"

datatype first_done =
    First_http "(unit, service_error) result"
  | First_dns "(unit, service_error) result"
  | First_shutdown "(unit, runtime_error) result"

text \<open>A biased \<open>select!\<close>: of two futures that are ready, the one written first.\<close>

fun earlier :: "(instant \<times> 'a) option \<Rightarrow> (instant \<times> 'a) option \<Rightarrow> (instant \<times> 'a) option" where
  "earlier None y = y"
| "earlier x None = x"
| "earlier (Some (t, x)) (Some (u, y)) = (if t \<le> u then Some (t, x) else Some (u, y))"

record run_env =
  ru_http_addr :: bool
  ru_dns_addr :: bool
  ru_http :: "(unit, service_error) completion"
  ru_dns :: "(unit, service_error) completion"
  ru_shutdown :: "(unit, runtime_error) completion"
  ru_http_after :: "instant \<Rightarrow> (unit, service_error) completion"
  ru_dns_after :: "instant \<Rightarrow> (unit, service_error) completion"
  ru_worker_end :: worker_end

definition select_first :: "run_env \<Rightarrow> (instant \<times> first_done) option" where
  "select_first env =
     earlier (map_option (map_prod id First_http) (ru_http env))
       (earlier (map_option (map_prod id First_dns) (ru_dns env))
          (map_option (map_prod id First_shutdown) (ru_shutdown env)))"

text \<open>Both services after a shutdown request: the later end, and the first error.\<close>

definition join_both :: "(unit, service_error) completion \<Rightarrow> (unit, service_error) completion \<Rightarrow> (unit, service_error) completion" where
  "join_both h d = (case (h, d) of
     (Some (t, hr), Some (u, dr)) \<Rightarrow> Some (max t u, and_then hr (\<lambda>_. dr))
   | _ \<Rightarrow> None)"

definition wait_remaining :: "run_env \<Rightarrow> instant \<Rightarrow> first_done \<Rightarrow> (unit, service_error) completion" where
  "wait_remaining env t first = (case first of
     First_http _ \<Rightarrow> ru_dns_after env t
   | First_dns _ \<Rightarrow> ru_http_after env t
   | First_shutdown _ \<Rightarrow> join_both (ru_http_after env t) (ru_dns_after env t))"

definition service_result :: "(unit, service_error) result \<Rightarrow> service \<Rightarrow> (unit, runtime_error) result" where
  "service_result r svc = (case r of Ok _ \<Rightarrow> Err (Stopped_unexpectedly svc) | Err e \<Rightarrow> Err (Service_failed svc e))"

datatype shutdown_note = Clean | Shutdown_failed service_error | Shutdown_timed_out

text \<open>The result of a run: what it returns, what happened to the worker, when the wait for the
  services was over and how it went.\<close>

record run_result =
  rr_result :: "(unit, runtime_error) result"
  rr_worker :: "worker_effect list"
  rr_waited_until :: instant
  rr_note :: shutdown_note

definition await_services :: "instant \<Rightarrow> (unit, service_error) completion \<Rightarrow> instant \<times> shutdown_note" where
  "await_services t rest = (case rest of
     Some (u, r) \<Rightarrow>
       if u \<le> t + SERVICE_SHUTDOWN_TIMEOUT then (u, case r of Ok _ \<Rightarrow> Clean | Err e \<Rightarrow> Shutdown_failed e)
       else (t + SERVICE_SHUTDOWN_TIMEOUT, Shutdown_timed_out)
   | None \<Rightarrow> (t + SERVICE_SHUTDOWN_TIMEOUT, Shutdown_timed_out))"

definition run_until :: "run_env \<Rightarrow> runtime \<Rightarrow> run_result option" where
  "run_until env rt =
     (if \<not> ru_http_addr env \<or> \<not> ru_dns_addr env
      then Some \<lparr>rr_result = Err No_local_addr, rr_worker = fst (worker_drop (we_reaper (ru_worker_end env)) (rt_worker rt)),
                 rr_waited_until = 0, rr_note = Clean\<rparr>
      else case select_first env of
        None \<Rightarrow> None
      | Some (t, first) \<Rightarrow>
          (let (u, note) = await_services t (wait_remaining env t first);
               effects = shutdown_worker (ru_worker_end env) (rt_worker rt)
           in Some \<lparr>rr_result = (case first of
                      First_http r \<Rightarrow> service_result r Http_service
                    | First_dns r \<Rightarrow> service_result r Dns_service
                    | First_shutdown r \<Rightarrow> r),
                    rr_worker = effects, rr_waited_until = u, rr_note = note\<rparr>))"

definition runtime_run :: "run_env \<Rightarrow> runtime \<Rightarrow> run_result option" where
  "runtime_run env rt = run_until (env\<lparr>ru_shutdown := None\<rparr>) rt"

section \<open>The program\<close>

datatype main_error =
    Config_failed config_error | Bad_rust_log string | Bad_log_level string | No_tokio_runtime | Runtime_failed runtime_error

text \<open>The variable \<open>RUST_LOG\<close>, when it is set, wins over the configured level.\<close>

definition log_filter :: "(string \<Rightarrow> bool) \<Rightarrow> string option \<Rightarrow> config \<Rightarrow> (string, main_error) result" where
  "log_filter try_new rust_log cfg = (case rust_log of
     Some env \<Rightarrow> if try_new env then Ok env else Err (Bad_rust_log env)
   | None \<Rightarrow> if try_new (log_level (log cfg)) then Ok (log_level (log cfg)) else Err (Bad_log_level (log_level (log cfg))))"

definition WORKER_STACK_SIZE :: nat where
  "WORKER_STACK_SIZE = 512 * 1024"

text \<open>\<open>build_runtime\<close> of \<open>main.rs\<close>: the asynchronous runtime (\<open>tokio threads stack_size\<close> tells whether it can be built).\<close>

definition build_tokio_runtime :: "(nat \<Rightarrow> nat \<Rightarrow> bool) \<Rightarrow> (string \<Rightarrow> string option) \<Rightarrow> (unit, main_error) result" where
  "build_tokio_runtime tokio var =
     (if tokio (worker_threads (var ''DNSBUFFER_WORKER_THREADS'')) WORKER_STACK_SIZE then Ok () else Err No_tokio_runtime)"

text \<open>The program up to the end of its run: \<open>None\<close> when it runs on.\<close>

definition main ::
  "hickory \<Rightarrow> libraries \<Rightarrow> rounding \<Rightarrow> (string \<Rightarrow> string option) \<Rightarrow> (string \<Rightarrow> config option) \<Rightarrow> (string \<Rightarrow> bool) \<Rightarrow>
     (nat \<Rightarrow> nat \<Rightarrow> bool) \<Rightarrow> (string \<Rightarrow> string option) \<Rightarrow> string \<Rightarrow> boot_env \<Rightarrow> run_env \<Rightarrow> disk \<Rightarrow>
     (unit, main_error) result option" where
  "main H L rnd read_to_string toml try_new tokio var path boot run dk =
     (case and_then (map_err Config_failed (load read_to_string toml path)) (\<lambda>cfg.
           and_then (log_filter try_new (var ''RUST_LOG'') cfg) (\<lambda>_.
           and_then (build_tokio_runtime tokio var) (\<lambda>_. Ok cfg))) of
        Err e \<Rightarrow> Some (Err e)
      | Ok cfg \<Rightarrow>
          (case build_runtime H L rnd boot cfg dk of
             (Err e, _, _) \<Rightarrow> Some (Err (Runtime_failed e))
           | (Ok rt, _, _) \<Rightarrow> map_option (\<lambda>r. map_err Runtime_failed (rr_result r)) (run_until run rt)))"

section \<open>What the process guarantees\<close>

definition before_worker :: "runtime_error \<Rightarrow> bool" where
  "before_worker e \<longleftrightarrow> e = Worker_not_started \<or> (\<exists>x. e = Database_init x) \<or> (\<exists>x. e = Database_clean x)"

lemma shutdown_worker_started:
  "shutdown_worker we worker_started =
     [Signalled_shutdown, if stopped_in_time (we_stopped we) then (if we_join_ok we then Joined else Warned_panic) else Warned_timeout]"
  by (simp add: shutdown_worker_def worker_shutdown_effects)

text \<open>Starting up never leaves a writer thread behind: when the start fails after the thread was
  started (in building the pipeline or binding a listener), the thread is signalled exactly once and
  waited for; when it fails earlier there is no thread; and when it succeeds the running thread is
  handed to the caller. A configuration that passed validation and gives the address of every
  DNS-over-HTTPS entry is never refused for want of a member or an address.\<close>

theorem boot_stops_worker:
  assumes "build_runtime H L rnd env c dk = (res, effects, dk')"
  shows "(case res of
      Ok rt \<Rightarrow> effects = [] \<and> rt_worker rt = worker_started
    | Err e \<Rightarrow> if before_worker e then effects = []
        else effects = [Signalled_shutdown, if stopped_in_time (we_stopped (bt_worker_end env))
          then (if we_join_ok (bt_worker_end env) then Joined else Warned_panic) else Warned_timeout]) \<and>
    (\<forall>e. valid_config c \<and> list_all has_ip (upstream_section c @ fallback_section c) \<and> res = Err (Build_failed e) \<longrightarrow>
       \<not> address_error e)"
proof -
  have "(case res of
      Ok rt \<Rightarrow> effects = [] \<and> rt_worker rt = worker_started
    | Err e \<Rightarrow> if before_worker e then effects = [] else effects = shutdown_worker (bt_worker_end env) worker_started)"
    using assms
    by (auto simp: build_runtime_def worker_start_handle_def Let_def before_worker_def split: prod.splits sum.splits if_splits)
  moreover have "\<not> address_error e"
    if "valid_config c" "list_all has_ip (upstream_section c @ fallback_section c)" "res = Err (Build_failed e)" for e
  proof -
    from assms that(3) have "build_pipeline H L (bt_network env) rnd (bt_files env) (bt_fetch env) c (recorder_channel WORKER_CAPACITY) = Err e"
      by (auto simp: build_runtime_def worker_start_handle_def Let_def split: prod.splits sum.splits if_splits)
    from build_pipeline_addressed [OF that(1) this that(2)] show ?thesis .
  qed
  ultimately show ?thesis by (simp add: shutdown_worker_started split: sum.splits)
qed

lemma earlier_eq_None [simp]: "earlier x y = None \<longleftrightarrow> x = None \<and> y = None"
  by (cases x; cases y) auto

lemma select_first_None [simp]:
  "select_first env = None \<longleftrightarrow> ru_http env = None \<and> ru_dns env = None \<and> ru_shutdown env = None"
  by (simp add: select_first_def)

lemma select_first_cases:
  assumes "select_first env = Some (t, first)"
  obtains (http_first) x where "first = First_http x" "ru_http env = Some (t, x)"
      "\<forall>u y. ru_dns env = Some (u, y) \<longrightarrow> t \<le> u" "\<forall>u y. ru_shutdown env = Some (u, y) \<longrightarrow> t \<le> u"
  | (dns_first) x where "first = First_dns x" "ru_dns env = Some (t, x)"
      "\<forall>u y. ru_http env = Some (u, y) \<longrightarrow> t < u" "\<forall>u y. ru_shutdown env = Some (u, y) \<longrightarrow> t \<le> u"
  | (shutdown_first) x where "first = First_shutdown x" "ru_shutdown env = Some (t, x)"
      "\<forall>u y. ru_http env = Some (u, y) \<longrightarrow> t < u" "\<forall>u y. ru_dns env = Some (u, y) \<longrightarrow> t < u"
  using assms unfolding select_first_def
  by (cases "ru_http env"; cases "ru_dns env"; cases "ru_shutdown env") (auto split: if_splits)

lemma await_services_bound: "await_services t rest = (u, note) \<Longrightarrow> u \<le> t + SERVICE_SHUTDOWN_TIMEOUT"
  by (auto simp: await_services_def split: option.splits if_splits)

lemma run_until_Some:
  assumes "ru_http_addr env" "ru_dns_addr env" "run_until env rt = Some r"
  obtains t first where "select_first env = Some (t, first)" "rr_waited_until r \<le> t + SERVICE_SHUTDOWN_TIMEOUT"
    "rr_worker r = shutdown_worker (ru_worker_end env) (rt_worker rt)"
    "rr_result r = (case first of First_http x \<Rightarrow> service_result x Http_service
       | First_dns x \<Rightarrow> service_result x Dns_service | First_shutdown x \<Rightarrow> x)"
  using assms by (auto simp: run_until_def Let_def split: option.splits prod.splits dest: await_services_bound)

text \<open>C18. How a run ends. It goes on exactly as long as no service ends and no shutdown is requested.
  Otherwise, at most two and a half seconds after the first of these events, the services
  are no longer waited for, the writer thread is signalled exactly once, and the result is: success
  exactly for a successful shutdown request that came strictly before the end of either service; the
  error of the HTTP server when that ended first or together with anything else; the error of the
  DNS server when that ended strictly before the HTTP server and not after the request. A
  service that ends by itself is an error even when it reports success.\<close>

theorem run_until_outcome:
  assumes "ru_http_addr env" and "ru_dns_addr env" and "rt_worker rt = worker_started"
  shows "(run_until env rt = None \<longleftrightarrow> ru_http env = None \<and> ru_dns env = None \<and> ru_shutdown env = None) \<and>
    (\<forall>r. run_until env rt = Some r \<longrightarrow>
      (\<exists>t. (\<forall>u. u \<in> fst ` (set_option (ru_http env) \<union> set_option (ru_dns env)) \<union> fst ` set_option (ru_shutdown env) \<longrightarrow> t \<le> u) \<and>
         rr_waited_until r \<le> t + 2500000000) \<and>
      filter (\<lambda>e. e = Signalled_shutdown) (rr_worker r) = [Signalled_shutdown] \<and>
      (rr_result r = Ok () \<longleftrightarrow> (\<exists>t. ru_shutdown env = Some (t, Ok ()) \<and>
         (\<forall>u x. ru_http env = Some (u, x) \<or> ru_dns env = Some (u, x) \<longrightarrow> t < u))) \<and>
      (\<forall>t x. ru_http env = Some (t, x) \<and> (\<forall>u y. ru_dns env = Some (u, y) \<longrightarrow> t \<le> u) \<and> (\<forall>u y. ru_shutdown env = Some (u, y) \<longrightarrow> t \<le> u) \<longrightarrow>
         rr_result r = (case x of Ok _ \<Rightarrow> Err (Stopped_unexpectedly Http_service) | Err e \<Rightarrow> Err (Service_failed Http_service e))) \<and>
      (\<forall>t x. ru_dns env = Some (t, x) \<and> (\<forall>u y. ru_http env = Some (u, y) \<longrightarrow> t < u) \<and> (\<forall>u y. ru_shutdown env = Some (u, y) \<longrightarrow> t \<le> u) \<longrightarrow>
         rr_result r = (case x of Ok _ \<Rightarrow> Err (Stopped_unexpectedly Dns_service) | Err e \<Rightarrow> Err (Service_failed Dns_service e))))"
proof (intro conjI allI impI)
  show "run_until env rt = None \<longleftrightarrow> ru_http env = None \<and> ru_dns env = None \<and> ru_shutdown env = None"
    using assms by (simp flip: select_first_None add: run_until_def Let_def split: option.splits prod.splits)
next
  fix r assume "run_until env rt = Some r"
  then obtain t first where f: "select_first env = Some (t, first)" "rr_waited_until r \<le> t + SERVICE_SHUTDOWN_TIMEOUT"
    "rr_worker r = shutdown_worker (ru_worker_end env) (rt_worker rt)"
    "rr_result r = (case first of First_http x \<Rightarrow> service_result x Http_service
       | First_dns x \<Rightarrow> service_result x Dns_service | First_shutdown x \<Rightarrow> x)"
    by (rule run_until_Some [OF assms(1,2)])
  have not_ok: "service_result x svc \<noteq> Ok ()" for x svc by (simp add: service_result_def split: sum.splits)
  show "\<exists>t. (\<forall>u. u \<in> fst ` (set_option (ru_http env) \<union> set_option (ru_dns env)) \<union> fst ` set_option (ru_shutdown env) \<longrightarrow> t \<le> u) \<and>
         rr_waited_until r \<le> t + 2500000000"
  proof (intro exI [of _ t] conjI)
    show "rr_waited_until r \<le> t + 2500000000" using f(2) by (simp add: SERVICE_SHUTDOWN_TIMEOUT_def from_millis_def)
    from f(1) show "\<forall>u. u \<in> fst ` (set_option (ru_http env) \<union> set_option (ru_dns env)) \<union> fst ` set_option (ru_shutdown env) \<longrightarrow> t \<le> u"
      by (cases rule: select_first_cases) force+
  qed
  show "filter (\<lambda>e. e = Signalled_shutdown) (rr_worker r) = [Signalled_shutdown]"
    by (simp add: f(3) assms(3) shutdown_worker_started)
  show "rr_result r = Ok () \<longleftrightarrow> (\<exists>t. ru_shutdown env = Some (t, Ok ()) \<and>
         (\<forall>u x. ru_http env = Some (u, x) \<or> ru_dns env = Some (u, x) \<longrightarrow> t < u))"
    using f(1) unfolding f(4) by (cases rule: select_first_cases) (fastforce simp: not_ok)+
  show "rr_result r = (case x of Ok _ \<Rightarrow> Err (Stopped_unexpectedly Http_service) | Err e \<Rightarrow> Err (Service_failed Http_service e))"
    if "ru_http env = Some (t', x) \<and> (\<forall>u y. ru_dns env = Some (u, y) \<longrightarrow> t' \<le> u) \<and> (\<forall>u y. ru_shutdown env = Some (u, y) \<longrightarrow> t' \<le> u)" for t' x
    using f(1) that unfolding f(4) by (cases rule: select_first_cases) (fastforce simp: service_result_def)+
  show "rr_result r = (case x of Ok _ \<Rightarrow> Err (Stopped_unexpectedly Dns_service) | Err e \<Rightarrow> Err (Service_failed Dns_service e))"
    if "ru_dns env = Some (t', x) \<and> (\<forall>u y. ru_http env = Some (u, y) \<longrightarrow> t' < u) \<and> (\<forall>u y. ru_shutdown env = Some (u, y) \<longrightarrow> t' \<le> u)" for t' x
    using f(1) that unfolding f(4) by (cases rule: select_first_cases) (fastforce simp: service_result_def)+
qed


section \<open>Concrete instances\<close>

definition sample_worker_end :: worker_end where
  "sample_worker_end = \<lparr>we_stopped = Some 0, we_join_ok = True, we_reaper = True\<rparr>"

definition sample_boot :: boot_env where
  "sample_boot = \<lparr>bt_schema = sample_schema_io, bt_io = sample_io, bt_utc_ms = 0, bt_thread = True,
     bt_http_binds = (\<lambda>_. False), bt_dns_binds = (\<lambda>_. True), bt_worker_end = sample_worker_end,
     bt_network = (\<lambda>_ _. \<lparr>be_ask = (\<lambda>_ _ _. Err Connect_failed), be_random = (\<lambda>_. 0)\<rparr>), bt_files = (\<lambda>_. None), bt_fetch = (\<lambda>_. sample_fetch)\<rparr>"

definition sample_libraries :: libraries where
  "sample_libraries = \<lparr>lib_uri = (\<lambda>_. None), lib_crypto = sample_crypto,
     lib_valid_name = (\<lambda>_. True), lib_base64 = (\<lambda>_. None), lib_duration = (\<lambda>_. None)\<rparr>"

text \<open>A port that is taken: the pipeline is built and the thread is stopped again.\<close>

theorem boot_stops_worker_witness:
  "\<exists>e effects dk'. build_runtime sample_hickory sample_libraries exact sample_boot
      (plain_config\<lparr>dashboard := dashboard_config_default\<lparr>retention_days := 0\<rparr>\<rparr>) \<lparr>dk_catalog = empty_catalog, dk_data = sample_db\<rparr> = (Err e, effects, dk') \<and>
     effects = [Signalled_shutdown, Joined]"
proof -
  let ?c = "plain_config\<lparr>dashboard := dashboard_config_default\<lparr>retention_days := 0\<rparr>\<rparr>"
  let ?dk = "\<lparr>dk_catalog = empty_catalog, dk_data = sample_db\<rparr>"
  have valid: "valid_config ?c" using plain_config_valid by (simp add: valid_config_def dashboard_config_default_def default_database_path_def)
  have plain: "list_all plain_entry (upstream_section ?c @ fallback_section ?c @ bootstrap_servers ?c)" using plain_config_plain by simp
  obtain bp where bp: "build_pipeline sample_hickory sample_libraries (bt_network sample_boot) exact (bt_files sample_boot) (bt_fetch sample_boot) ?c
      (recorder_channel WORKER_CAPACITY) = Ok bp"
    using build_pipeline_plain [OF valid plain, of sample_hickory sample_libraries "bt_network sample_boot" exact "bt_files sample_boot"
      "bt_fetch sample_boot" "recorder_channel WORKER_CAPACITY"] by (auto simp: is_ok_iff)
  have open_ok: "store_open (bt_schema sample_boot) ?dk = (Ok (), \<lparr>dk_catalog = current_catalog, dk_data = sample_db\<rparr>)"
    using open_empty [of sample_schema_io sample_db] sample_db_probe by (simp add: sample_boot_def sample_schema_io_def)
  have run: "build_runtime sample_hickory sample_libraries exact sample_boot ?c ?dk =
      (Err Http_bind_failed, shutdown_worker sample_worker_end worker_started, \<lparr>dk_catalog = current_catalog, dk_data = sample_db\<rparr>)"
    using bp open_ok by (simp add: build_runtime_def worker_start_handle_def cleanup_def Let_def) (simp add: sample_boot_def)
  from boot_stops_worker [OF run] show ?thesis
    unfolding run by (simp add: before_worker_def sample_boot_def sample_worker_end_def stopped_in_time_def)
qed

definition sample_run :: run_env where
  "sample_run = \<lparr>ru_http_addr = True, ru_dns_addr = True, ru_http = None, ru_dns = Some (9, Ok ()), ru_shutdown = Some (9, Ok ()),
     ru_http_after = (\<lambda>_. None), ru_dns_after = (\<lambda>_. None), ru_worker_end = sample_worker_end\<rparr>"

text \<open>The DNS server ends by itself at the moment of a shutdown request.\<close>

theorem run_until_outcome_witness:
  "\<exists>rt :: runtime. \<exists>r. rt_worker rt = worker_started \<and> run_until sample_run rt = Some r \<and>
     rr_result r = Err (Stopped_unexpectedly Dns_service)"
proof -
  obtain bp where "build_pipeline sample_hickory sample_libraries (bt_network sample_boot) exact (bt_files sample_boot)
      (bt_fetch sample_boot) plain_config (recorder_channel WORKER_CAPACITY) = Ok bp"
    using build_pipeline_plain [OF plain_config_valid plain_config_plain, of sample_hickory sample_libraries "bt_network sample_boot" exact
      "bt_files sample_boot" "bt_fetch sample_boot" "recorder_channel WORKER_CAPACITY"] by (auto simp: is_ok_iff)
  define rt where "rt = \<lparr>rt_http_state = sample_http_state, rt_pipeline = bp, rt_worker = worker_started\<rparr>"
  have "ru_http_addr sample_run" "ru_dns_addr sample_run" "rt_worker rt = worker_started"
    by (simp_all add: sample_run_def rt_def)
  note out = run_until_outcome [OF this]
  from out have "run_until sample_run rt \<noteq> None" by (simp add: sample_run_def)
  then obtain r where r: "run_until sample_run rt = Some r" by blast
  with out have "rr_result r = Err (Stopped_unexpectedly Dns_service)" by (simp add: sample_run_def)
  with r show ?thesis by (intro exI [of _ rt]) (simp add: rt_def)
qed

end
