(* ===== verification/Test_Rules.thy ===== *)
theory Test_Rules
  imports Hosts Ad_Filter Ecs Bootstrap "HOL-Library.Code_Target_Numeral"
begin

text \<open>
  The unit tests of the components that answer or rewrite a query before it reaches an upstream
  (\<open>src/hosts.rs\<close>, \<open>src/filter.rs\<close>, \<open>src/ecs.rs\<close>, \<open>src/resolver.rs\<close>), of the validation of the configuration
  (\<open>src/config.rs\<close>) and of the address order (\<open>src/upstream/mod.rs\<close>), run on the model: each definition is the body of one test, with its assertions as
  conjuncts, and the lemma after it evaluates it.
\<close>

definition test_query :: "u16 \<Rightarrow> string \<Rightarrow> record_type \<Rightarrow> message" where
  "test_query i name qtype = add_query \<lparr>q_name = name, q_type = qtype\<rparr> (message_new i Query_type 0)"

definition is_some :: "'a option \<Rightarrow> bool" where
  "is_some x = (case x of None \<Rightarrow> False | Some _ \<Rightarrow> True)"

section \<open>Custom hosts\<close>

definition test_entries :: "host_entry list" where
  "test_entries = [\<lparr>he_name = ''router.local'', he_addrs = List.map_filter parse_ip [''192.168.1.1'', ''fd00::1'']\<rparr>,
     \<lparr>he_name = ''*.lab.example'', he_addrs = List.map_filter parse_ip [''10.0.0.7'']\<rparr>]"

definition hosts_query :: "string \<Rightarrow> record_type \<Rightarrow> message" where
  "hosts_query name qtype = test_query 0x1234 name qtype"

definition exact_a_and_aaaa :: bool where
  "exact_a_and_aaaa =
     (let h = hosts_from_entries test_entries in
      (case hosts_lookup h (hosts_query ''Router.Local.'' RT_A) of None \<Rightarrow> False
       | Some resp \<Rightarrow> msg_id resp = 0x1234 \<and> rcode resp = NoError \<and> length (answers resp) = 1) \<and>
      (case hosts_lookup h (hosts_query ''router.local.'' RT_AAAA) of None \<Rightarrow> False
       | Some resp6 \<Rightarrow> length (answers resp6) = 1))"

lemma test_exact_a_and_aaaa: "exact_a_and_aaaa"
  by code_simp

definition wildcard_matches_subdomains_only :: bool where
  "wildcard_matches_subdomains_only =
     (let h = hosts_from_entries test_entries in
      is_some (hosts_lookup h (hosts_query ''box.lab.example.'' RT_A)) \<and>
      is_some (hosts_lookup h (hosts_query ''a.b.lab.example.'' RT_A)) \<and>
      \<not> is_some (hosts_lookup h (hosts_query ''lab.example.'' RT_A)))"

lemma test_wildcard_matches_subdomains_only: "wildcard_matches_subdomains_only"
  by code_simp

definition hit_without_family_is_nodata :: bool where
  "hit_without_family_is_nodata =
     (case hosts_lookup (hosts_from_entries test_entries) (hosts_query ''box.lab.example.'' RT_AAAA) of None \<Rightarrow> False
      | Some resp \<Rightarrow> rcode resp = NoError \<and> answers resp = [])"

lemma test_hit_without_family_is_nodata: "hit_without_family_is_nodata"
  by code_simp

definition miss_returns_none :: bool where
  "miss_returns_none = (\<not> is_some (hosts_lookup (hosts_from_entries test_entries) (hosts_query ''nope.example.'' RT_A)))"

lemma test_miss_returns_none: "miss_returns_none"
  by code_simp

section \<open>The ad filter\<close>

definition newline :: string where
  "newline = [CHR 0x0A]"

definition RULES :: string where
  "RULES = newline @ concat (map (\<lambda>l. l @ newline)
    [''! adblock comment'', ''# hosts comment'', ''||ads.example.com^'', ''||tracker.net^$third-party'',
     ''@@||good.ads.example.com^'', ''0.0.0.0 hosts-blocked.com'', ''127.0.0.1 also-blocked.org # trailing comment'',
     '':: v6-blocked.io'', ''plain-blocked.dev'', ''/regex-rule/'', ''*.wild.card.unsupported''])"

definition filter_with :: "string list \<Rightarrow> ad_filter" where
  "filter_with allow = filter_store (filter_new allow) (parse_rules RULES)"

definition adblock_and_hosts_and_plain_lines_block :: bool where
  "adblock_and_hosts_and_plain_lines_block =
     (let f = filter_with [] in
      list_all (is_blocked f) [''ads.example.com'', ''sub.ads.example.com'', ''tracker.net'', ''hosts-blocked.com'',
        ''also-blocked.org'', ''v6-blocked.io'', ''plain-blocked.dev''])"

lemma test_adblock_and_hosts_and_plain_lines_block: "adblock_and_hosts_and_plain_lines_block"
  by code_simp

definition exceptions_and_allowlist_win :: bool where
  "exceptions_and_allowlist_win =
     (let f = filter_with [''whitelisted.tracker.net''] in
      \<not> is_blocked f ''good.ads.example.com'' \<and> \<not> is_blocked f ''x.good.ads.example.com'' \<and>
      \<not> is_blocked f ''whitelisted.tracker.net'' \<and> is_blocked f ''tracker.net'')"

lemma test_exceptions_and_allowlist_win: "exceptions_and_allowlist_win"
  by code_simp

definition unparsable_lines_skipped_and_unblocked_pass :: bool where
  "unparsable_lines_skipped_and_unblocked_pass =
     (let f = filter_with [] in \<not> is_blocked f ''innocent.example'' \<and> \<not> is_blocked f ''regex-rule'')"

lemma test_unparsable_lines_skipped_and_unblocked_pass: "unparsable_lines_skipped_and_unblocked_pass"
  by code_simp

text \<open>The record type 16 is TXT.\<close>

definition block_response_shapes :: bool where
  "block_response_shapes =
     (let mk = test_query 0x77 ''ads.example.com.'';
          a = block_response (mk RT_A); aaaa = block_response (mk RT_AAAA); txt = block_response (mk 16)
      in msg_id a = 0x77 \<and> map rr_data (answers a) = [RData_A 0] \<and>
         rr_data (answers aaaa ! 0) = RData_AAAA 0 \<and> rcode txt = NoError \<and> answers txt = [])"

lemma test_block_response_shapes: "block_response_shapes"
  by code_simp

definition hot_swap_replaces_rules :: bool where
  "hot_swap_replaces_rules =
     (let f = filter_with [] in is_blocked f ''plain-blocked.dev'' \<and>
     (let f = filter_store f (parse_rules ''||only.new.rule^'') in
      \<not> is_blocked f ''plain-blocked.dev'' \<and> is_blocked f ''only.new.rule''))"

lemma test_hot_swap_replaces_rules: "hot_swap_replaces_rules"
  by code_simp

text \<open>One readable file, one server that answers for one path and fails for every other.\<close>

definition load_sources_merges_file_and_url :: bool where
  "load_sources_merges_file_and_url =
     (let read = (\<lambda>p. if p = ''local.txt'' then Some (''0.0.0.0 local-file-blocked.com'' @ newline) else None);
          fetch = (\<lambda>u. if u = ''http://addr/rules.txt'' then Fetched (''||remote-blocked.example^'' @ newline) else Fetch_failed);
          sources = [\<lparr>rs_path = Some ''local.txt'', rs_url = None, rs_update_interval = None\<rparr>,
            \<lparr>rs_path = None, rs_url = Some ''http://addr/rules.txt'', rs_update_interval = None\<rparr>,
            \<lparr>rs_path = None, rs_url = Some ''http://addr/missing'', rs_update_interval = None\<rparr>];
          f = filter_store (filter_new []) (load_sources read fetch sources)
      in is_blocked f ''local-file-blocked.com'' \<and> is_blocked f ''remote-blocked.example'')"

lemma test_load_sources_merges_file_and_url: "load_sources_merges_file_and_url"
  by code_simp

section \<open>The client subnet\<close>

definition masks_v4_to_24_and_v6_to_56 :: bool where
  "masks_v4_to_24_and_v6_to_56 =
     (case (parse_ip ''203.0.113.77'', parse_ip ''2001:db8:aaaa:bbcc:1:2:3:4'', parse_ip ''203.0.113.0'', parse_ip ''2001:db8:aaaa:bb00::'') of
        (Some a, Some b, Some a', Some b') \<Rightarrow>
          mask_ip a 24 = Some \<lparr>es_addr = a', es_prefix = 24\<rparr> \<and> mask_ip b 56 = Some \<lparr>es_addr = b', es_prefix = 56\<rparr>
      | _ \<Rightarrow> False)"

lemma test_masks_v4_to_24_and_v6_to_56: "masks_v4_to_24_and_v6_to_56"
proof -
  have "parse_ip ''203.0.113.77'' = Some (V4 0xCB00714D)" "parse_ip ''203.0.113.0'' = Some (V4 0xCB007100)"
    "parse_ip ''2001:db8:aaaa:bbcc:1:2:3:4'' = Some (V6 0x20010db8aaaabbcc0001000200030004)"
    "parse_ip ''2001:db8:aaaa:bb00::'' = Some (V6 0x20010db8aaaabb000000000000000000)" by code_simp+
  then show ?thesis
    by (simp add: masks_v4_to_24_and_v6_to_56_def mask_ip_def prefix_mask_def push_bit_eq_mult)
qed

definition parses_and_rejects_subnets :: bool where
  "parses_and_rejects_subnets =
     ((case parse_subnet ''198.51.100.0/24'' of Err _ \<Rightarrow> False | Ok s \<Rightarrow> es_prefix s = 24) \<and>
      \<not> is_ok (parse_subnet ''198.51.100.0/33'') \<and> \<not> is_ok (parse_subnet ''not-a-subnet'') \<and>
      \<not> is_ok (parse_subnet ''2001:db8::/129''))"

lemma test_parses_and_rejects_subnets: "parses_and_rejects_subnets"
  by code_simp

definition subnet_from_config_uses_fixed_subnet_or_disables :: bool where
  "subnet_from_config_uses_fixed_subnet_or_disables =
     (\<not> is_some (subnet_from_config None) \<and>
      (case (subnet_from_config (Some ''203.0.113.0/24''), parse_ip ''203.0.113.0'') of
         (Some subnet, Some ip) \<Rightarrow> es_addr subnet = ip \<and> es_prefix subnet = 24 | _ \<Rightarrow> False) \<and>
      \<not> is_some (subnet_from_config (Some ''not-a-subnet'')))"

lemma test_subnet_from_config_uses_fixed_subnet_or_disables: "subnet_from_config_uses_fixed_subnet_or_disables"
  by code_simp

section \<open>The configuration\<close>

definition split_domain_port_defaults_to_853 :: bool where
  "split_domain_port_defaults_to_853 =
     ((case split_domain_port ''dns.quad9.net'' of Err _ \<Rightarrow> False | Ok x \<Rightarrow> x = (''dns.quad9.net'', 853)) \<and>
      (case split_domain_port ''dns.quad9.net:8853'' of Err _ \<Rightarrow> False | Ok x \<Rightarrow> x = (''dns.quad9.net'', 8853)) \<and>
      \<not> is_ok (split_domain_port ''dns.quad9.net:notaport'') \<and> \<not> is_ok (split_domain_port ''dns.quad9.net:99999''))"

lemma test_split_domain_port_defaults_to_853: "split_domain_port_defaults_to_853"
  by code_simp

text \<open>The configuration a file with a listening address and one plain upstream is parsed to: every other section has its
  defaults.\<close>

definition minimal_config :: config where
  "minimal_config = sample_config\<lparr>bootstrap_servers := []\<rparr>"

definition rejects_config_without_upstream :: bool where
  "rejects_config_without_upstream = (is_ok (validate minimal_config) \<and> \<not> is_ok (validate (minimal_config\<lparr>upstream_section := []\<rparr>)))"

lemma test_rejects_config_without_upstream: "rejects_config_without_upstream"
  by code_simp

definition bootstrap_doh_without_ip_rejected :: bool where
  "bootstrap_doh_without_ip_rejected =
     (\<not> is_ok (validate (minimal_config\<lparr>bootstrap_servers := [Doh ''https://bootstrap.example/dns-query'' [] False None]\<rparr>)))"

lemma test_bootstrap_doh_without_ip_rejected: "bootstrap_doh_without_ip_rejected"
  by code_simp

definition dashboard_rejects_empty_database_path :: bool where
  "dashboard_rejects_empty_database_path =
     (\<not> is_ok (validate (minimal_config\<lparr>dashboard := (dashboard minimal_config)\<lparr>database_path := []\<rparr>\<rparr>)))"

lemma test_dashboard_rejects_empty_database_path: "dashboard_rejects_empty_database_path"
  by code_simp

definition dashboard_rejects_retention_above_9999_days :: bool where
  "dashboard_rejects_retention_above_9999_days =
     (case validate (minimal_config\<lparr>dashboard := (dashboard minimal_config)\<lparr>retention_days := 10000\<rparr>\<rparr>) of
        Err Retention_out_of_range \<Rightarrow> True | _ \<Rightarrow> False)"

lemma test_dashboard_rejects_retention_above_9999_days: "dashboard_rejects_retention_above_9999_days"
  by code_simp

section \<open>The error response and the address order\<close>

definition servfail_preserves_id_and_question :: bool where
  "servfail_preserves_id_and_question =
     (let resp = servfail (test_query 0x1234 ''example.com.'' RT_A)
      in msg_id resp = 0x1234 \<and> msg_type resp = Response_type \<and> rcode resp = ServFail \<and>
         map q_name (queries resp) = [''example.com.''])"

lemma test_servfail_preserves_id_and_question: "servfail_preserves_id_and_question"
  by code_simp

definition ips_of :: "string list \<Rightarrow> ip_addr list" where
  "ips_of = List.map_filter parse_ip"

definition v6_moves_ahead_when_preferred :: bool where
  "v6_moves_ahead_when_preferred =
     (let ips = ips_of [''1.1.1.1'', ''2606:4700::1111'', ''8.8.8.8'', ''2001:4860:4860::8888'']
      in length ips = 4 \<and>
         sort_by_family True ips = ips_of [''2606:4700::1111'', ''2001:4860:4860::8888'', ''1.1.1.1'', ''8.8.8.8''])"

lemma test_v6_moves_ahead_when_preferred: "v6_moves_ahead_when_preferred"
  by code_simp

definition v4_moves_ahead_by_default :: bool where
  "v4_moves_ahead_by_default =
     (let ips = ips_of [''2606:4700::1111'', ''1.1.1.1'', ''2001:4860:4860::8888'', ''8.8.8.8'']
      in length ips = 4 \<and>
         sort_by_family False ips = ips_of [''1.1.1.1'', ''8.8.8.8'', ''2606:4700::1111'', ''2001:4860:4860::8888''])"

lemma test_v4_moves_ahead_by_default: "v4_moves_ahead_by_default"
  by code_simp

definition single_family_untouched :: bool where
  "single_family_untouched =
     (let v4 = ips_of [''9.9.9.9'', ''1.1.1.1''] in length v4 = 2 \<and> sort_by_family True v4 = v4)"

lemma test_single_family_untouched: "single_family_untouched"
  by code_simp

end
