(* ===== verification/Test_Stats.thy ===== *)
theory Test_Stats
  imports Selector Upstream_Metrics "HOL-Library.Code_Target_Numeral"
begin

text \<open>
  The unit tests of \<open>src/stats.rs\<close>, \<open>src/upstream/selector.rs\<close> and \<open>src/dashboard/upstreams.rs\<close>, run on the
  model in exact arithmetic: each definition is the body of one test, with its assertions as conjuncts, and the
  lemma after it evaluates it. Where a test compares up to a small error the arithmetic here gives equality.
\<close>

definition millis :: "nat \<Rightarrow> duration" where
  "millis n = n * 1000000"

section \<open>The statistics\<close>

text \<open>A latency of whole milliseconds is that many milliseconds; evaluation uses it instead of the conversion.\<close>

lemma latency_of_millis: "latency_millis exact (millis n) = Fin (real n)"
proof -
  have "real (millis n) = real (millis n div 1000000000) * 1000000000 + real (millis n mod 1000000000)"
    by (metis div_mult_mod_eq of_nat_add of_nat_mult of_nat_numeral)
  then show ?thesis
    by (simp add: latency_millis_def fmul_def fdiv_def f64_of_nat_def) (simp add: millis_def)
qed

definition recorded_success :: "nat \<Rightarrow> int \<Rightarrow> upstream_stats \<Rightarrow> upstream_stats" where
  "recorded_success n now_ms s = (let l = Fin (real n) in record_history exact now_ms (Some l) (push (Success l) s))"

lemma recorded_success [code_unfold]:
  "record_success exact (millis n) clock s = recorded_success n (unix_millis clock) s"
  "record_success_at exact (millis n) now_ms s = recorded_success n now_ms s"
  by (simp_all add: record_success_def record_success_at_def recorded_success_def latency_of_millis del: exact_def)

definition cold_start_gives_neutral_weight :: bool where
  "cold_start_gives_neutral_weight =
     (let s = stats_new 8 in
      failure_rate exact s = Fin 0 \<and> avg_latency_ms exact s = Fin 100 \<and> weight exact s (Fin 5) = Fin (1 / 101))"

lemma test_cold_start_gives_neutral_weight: "cold_start_gives_neutral_weight"
  by code_simp

definition snapshot_distinguishes_no_success_from_cold_start_value :: bool where
  "snapshot_distinguishes_no_success_from_cold_start_value =
     (let stats = record_timeout exact 0 (stats_new 4); snap = snapshot_now exact 0 stats in
      ss_samples snap = 1 \<and> ss_successes snap = 0 \<and> ss_failure_rate snap = Fin 1 \<and> ss_avg_latency_ms snap = None \<and>
     (let stats = record_success exact (millis 20) 0 stats; snap = snapshot_now exact 0 stats in
      ss_samples snap = 2 \<and> ss_successes snap = 1 \<and> ss_failure_rate snap = Fin (1 / 2) \<and> ss_avg_latency_ms snap = Some (Fin 20)))"

lemma test_snapshot_distinguishes_no_success_from_cold_start_value: "snapshot_distinguishes_no_success_from_cold_start_value"
  by code_simp

definition soft_fail_lowers_weight_but_stays_out_of_dashboard_history :: bool where
  "soft_fail_lowers_weight_but_stays_out_of_dashboard_history =
     (let s = record_soft_fail (stats_new 4); snap = snapshot_now exact 0 s in
      failure_rate exact s = Fin 1 \<and> ss_samples snap = 0 \<and> ss_failure_rate snap = Fin 0 \<and>
     (let s = record_timeout exact 0 s; snap = snapshot_now exact 0 s in
      ss_samples snap = 1 \<and> ss_failure_rate snap = Fin 1))"

lemma test_soft_fail_lowers_weight_but_stays_out_of_dashboard_history:
  "soft_fail_lowers_weight_but_stays_out_of_dashboard_history"
  by code_simp

definition failures_lower_weight :: bool where
  "failures_lower_weight =
     (let good = (fold (\<lambda>d. record_success exact (millis d) 0) [50, 50, 50, 50]) (stats_new 8);
          bad = (fold (\<lambda>_. record_soft_fail) [1..4]) ((fold (\<lambda>d. record_success exact (millis d) 0) [50, 50, 50, 50]) (stats_new 8))
      in flt (Fin (4 / 10)) (failure_rate exact bad) \<and> flt (weight exact bad (Fin 5)) (weight exact good (Fin 5)))"

lemma test_failures_lower_weight: "failures_lower_weight"
  by code_simp

definition lower_latency_wins :: bool where
  "lower_latency_wins =
     (let fast = (fold (\<lambda>d. record_success exact (millis d) 0) [10, 10, 10, 10, 10, 10, 10, 10]) (stats_new 8);
          slow = (fold (\<lambda>d. record_success exact (millis d) 0) [500, 500, 500, 500, 500, 500, 500, 500]) (stats_new 8)
      in flt (weight exact slow (Fin 5)) (weight exact fast (Fin 5)))"

lemma test_lower_latency_wins: "lower_latency_wins"
  by (simp add: lower_latency_wins_def recorded_success [unfolded exact_def] recorded_success_def push_def stats_new_def with_retention_def
      Let_def weight_def avg_latency_ms_def failure_rate_def f64_of_nat_def fdiv_def fmul_def fmax_def)

definition window_evicts_oldest :: bool where
  "window_evicts_oldest =
     (let s = (fold (\<lambda>_. record_soft_fail) [1..4]) (stats_new 4) in failure_rate exact s = Fin 1 \<and>
     (let s = (fold (\<lambda>d. record_success exact (millis d) 0) [10, 10, 10, 10]) s in failure_rate exact s = Fin 0))"

lemma test_window_evicts_oldest: "window_evicts_oldest"
  by code_simp

definition snapshot_counts_beyond_selector_window :: bool where
  "snapshot_counts_beyond_selector_window =
     (let s = (fold (\<lambda>d. record_success exact (millis d) 0) [10, 10, 10, 10, 10, 10, 10, 10, 10, 10]) (stats_new 4) in
      ss_samples (snapshot_now exact 0 s) = 10 \<and> ss_successes (snapshot_now exact 0 s) = 10)"

lemma test_snapshot_counts_beyond_selector_window: "snapshot_counts_beyond_selector_window"
  by code_simp

definition snapshot_prunes_history_outside_retention :: bool where
  "snapshot_prunes_history_outside_retention =
     (let s = with_retention 4 7; now = 100 * DAY_MS;
          s = record_timeout_at exact (now - 8 * DAY_MS) s;
          s = record_success_at exact (millis 30) (now - DAY_MS) s;
          s = record_success_at exact (millis 10) now s;
          snap = snapshot_at exact now s; later = snapshot_at exact (now + 8 * DAY_MS) s
      in ss_samples snap = 2 \<and> ss_successes snap = 2 \<and> ss_failure_rate snap = Fin 0 \<and> ss_avg_latency_ms snap = Some (Fin 20) \<and>
         ss_samples later = 0 \<and> ss_failure_rate later = Fin 0 \<and> ss_avg_latency_ms later = None)"

lemma test_snapshot_prunes_history_outside_retention: "snapshot_prunes_history_outside_retention"
  by code_simp

definition zero_retention_keeps_full_history :: bool where
  "zero_retention_keeps_full_history =
     (let s = with_retention 2 0;
          s = record_timeout_at exact 0 s;
          s = record_success_at exact (millis 10) (400 * DAY_MS) s;
          snap = snapshot_at exact (400 * DAY_MS) s
      in ss_samples snap = 2 \<and> ss_successes snap = 1 \<and> ss_failure_rate snap = Fin (1 / 2))"

lemma test_zero_retention_keeps_full_history: "zero_retention_keeps_full_history"
  by code_simp

definition negative_k_treated_as_zero :: bool where
  "negative_k_treated_as_zero =
     (let s = (fold (\<lambda>_. record_soft_fail) [1..4]) (stats_new 4); w = weight exact s (Fin (- 2)) in
      is_finite w \<and> flt (Fin 0) w \<and> w = weight exact s (Fin 0))"

lemma test_negative_k_treated_as_zero: "negative_k_treated_as_zero"
  by code_simp

section \<open>The weighted pick\<close>

definition empty_returns_none :: bool where
  "empty_returns_none = (pick_weighted exact [] (Fin (1 / 2)) = None)"

lemma test_empty_returns_none: "empty_returns_none"
  by code_simp

definition single_always_picked :: bool where
  "single_always_picked =
     (pick_weighted exact [Fin (7 / 10)] (Fin 0) = Some 0 \<and> pick_weighted exact [Fin (7 / 10)] (Fin (999 / 1000)) = Some 0)"

lemma test_single_always_picked: "single_always_picked"
  by code_simp

definition roll_lands_proportionally :: bool where
  "roll_lands_proportionally =
     (let w = [Fin 1, Fin 3] in
      pick_weighted exact w (Fin (10 / 100)) = Some 0 \<and> pick_weighted exact w (Fin (24 / 100)) = Some 0 \<and>
      pick_weighted exact w (Fin (26 / 100)) = Some 1 \<and> pick_weighted exact w (Fin (90 / 100)) = Some 1)"

lemma test_roll_lands_proportionally: "roll_lands_proportionally"
  by code_simp

definition zero_weights_degrade_to_uniform :: bool where
  "zero_weights_degrade_to_uniform =
     (let w = [Fin 0, Fin 0, Fin 0, Fin 0] in
      pick_weighted exact w (Fin 0) = Some 0 \<and> pick_weighted exact w (Fin (30 / 100)) = Some 1 \<and>
      pick_weighted exact w (Fin (99 / 100)) = Some 3)"

lemma test_zero_weights_degrade_to_uniform: "zero_weights_degrade_to_uniform"
  by code_simp

definition skips_nonfinite_and_negative_weights :: bool where
  "skips_nonfinite_and_negative_weights =
     (let w = [NaN, Fin 1, Fin (- 5), Fin 3, PInf] in
      pick_weighted exact w (Fin (10 / 100)) = Some 1 \<and> pick_weighted exact w (Fin (30 / 100)) = Some 3 \<and>
      pick_weighted exact w (Fin (99 / 100)) = Some 3)"

lemma test_skips_nonfinite_and_negative_weights: "skips_nonfinite_and_negative_weights"
  by code_simp

definition single_negative_weight_degrades_to_uniform :: bool where
  "single_negative_weight_degrades_to_uniform = (pick_weighted exact [Fin (- 5)] (Fin (1 / 2)) = Some 0)"

lemma test_single_negative_weight_degrades_to_uniform: "single_negative_weight_degrades_to_uniform"
  by code_simp

definition extreme_roll_hits_last_positive_fallback_safely :: bool where
  "extreme_roll_hits_last_positive_fallback_safely =
     (let w = [Fin (1 / 10 ^ 300), Fin (10 ^ 300), Fin 0] in
      (case pick_weighted exact w (Fin (9999999999999999 / 10000000000000000)) of None \<Rightarrow> False | Some idx \<Rightarrow> idx = 0 \<or> idx = 1) \<and>
      pick_weighted exact [Fin 1, Fin 3] (Fin (25 / 100)) = Some 1)"

lemma two_positive_weights:
  assumes "0 < a" "0 < b"
  shows "case pick_weighted exact [Fin a, Fin b, Fin 0] (Fin r) of None \<Rightarrow> False | Some idx \<Rightarrow> idx = 0 \<or> idx = 1"
  using assms by (simp add: pick_weighted_def fsum_def usable_def is_finite_def fmul_def)

lemma test_extreme_roll_hits_last_positive_fallback_safely: "extreme_roll_hits_last_positive_fallback_safely"
proof -
  have "(0::real) < 1 / 10 ^ 300" "(0::real) < 10 ^ 300" by (simp_all only: zero_less_divide_1_iff zero_less_power zero_less_numeral)
  note two_positive_weights [OF this]
  moreover have "pick_weighted exact [Fin 1, Fin 3] (Fin (25 / 100)) = Some 1" by code_simp
  ultimately show ?thesis unfolding extreme_roll_hits_last_positive_fallback_safely_def Let_def by blast
qed

text \<open>The sweep over a thousand rolls counts how often each of two members is chosen.\<close>

definition statistical_bias_holds :: bool where
  "statistical_bias_holds =
     (let picks = map (\<lambda>i. pick_weighted exact [Fin 1, Fin 9] (Fin (real i / 1000))) [0..<1000];
          counts = (\<lambda>j. length (filter (\<lambda>p. p = Some j) picks))
      in list_all (\<lambda>p. p = Some 0 \<or> p = Some 1) picks \<and> counts 1 > counts 0 * 5)"

lemma two_weights: "pick_weighted exact [Fin 1, Fin 9] (Fin (real i / 1000)) = Some (if i < 100 then 0 else 1)" if "i < 1000"
  using that by (simp add: pick_weighted_def fsum_def usable_def is_finite_def fmul_def)

lemma length_filter_less_upt: "length (filter (\<lambda>i. i < k) [0..<n]) = min k n"
  by (induction n) auto

lemma test_statistical_bias_holds: "statistical_bias_holds"
proof -
  define pick where "pick i = pick_weighted exact [Fin 1, Fin 9] (Fin (real i / 1000))" for i
  define rolls where "rolls = [0..<1000::nat]"
  have pick: "pick i = Some (if i < 100 then 0 else 1)" if "i \<in> set rolls" for i
    using that two_weights [of i] by (simp add: pick_def rolls_def del: exact_def)
  have "filter (\<lambda>i. pick i = Some 0) rolls = filter (\<lambda>i. i < 100) rolls"
    "filter (\<lambda>i. pick i = Some 1) rolls = filter (\<lambda>i. \<not> i < 100) rolls"
    by (rule filter_cong; simp add: pick)+
  moreover have low: "length (filter (\<lambda>i. i < 100) rolls) = 100" "length rolls = 1000"
    by (simp_all add: rolls_def length_filter_less_upt)
  moreover have "length (filter (\<lambda>i. \<not> i < 100) rolls) = 900"
    using sum_length_filter_compl [of "\<lambda>i. i < 100" rolls] low by linarith
  ultimately show ?thesis
    unfolding statistical_bias_holds_def pick_def [symmetric] rolls_def [symmetric] Let_def
    by (simp add: list_all_iff filter_map comp_def pick)
qed

section \<open>The dashboard's registry\<close>

definition snapshot_skips_poisoned_stats :: bool where
  "snapshot_skips_poisoned_stats =
     (let heap = [\<lparr>cell_stats = stats_new 4, cell_poisoned = True\<rparr>]
      in metrics_snapshot exact 0 heap (register ''poisoned'' ''primary'' 0 []) = [])"

lemma test_snapshot_skips_poisoned_stats: "snapshot_skips_poisoned_stats"
  by code_simp

end
