(* ===== verification/Test_Upstream.thy ===== *)
theory Test_Upstream
  imports Hedged "HOL-Library.Code_Target_Numeral"
begin

text \<open>
  The unit tests of \<open>src/upstream/group.rs\<close> and \<open>src/upstream/hedged.rs\<close>, run on the model: each definition is the
  body of one test, with its assertions as conjuncts, and the lemma after it evaluates it. The arithmetic is exact,
  every roll is zero (the first member with a positive weight), the clocks start at zero and replies are instant.

  The retry engine needs a runtime to wake it up. \<open>simulate\<close> is one: an attempt is described by how long it takes and what it
  gives, and the next wake-up is at the earliest of the deadline, the end of an attempt, the next hedge and the next retry.
\<close>

definition ask :: message where
  "ask = add_query \<lparr>q_name = ''example.com.'', q_type = RT_A\<rparr> (message_new 9 Query_type 0)"

definition ok_resp :: message where
  "ok_resp = (message_new (msg_id ask) Response_type 0)\<lparr>rcode := NoError\<rparr>"

section \<open>Groups\<close>

definition counting_ok :: attempt_outcome where
  "counting_ok = Replied ok_resp 0 0"

definition always_err :: attempt_outcome where
  "always_err = Failed Task_failed"

text \<open>The environment of a call: what each member does when it is asked.\<close>

definition acting :: "(nat \<Rightarrow> attempt_outcome) \<Rightarrow> group_env" where
  "acting act = \<lparr>roll = (\<lambda>_. Fin 0), outcome = (\<lambda>_. act), others = (\<lambda>_ h. h)\<rparr>"

definition asked :: "upstream_group \<Rightarrow> (nat \<Rightarrow> attempt_outcome) \<Rightarrow> stats_heap \<Rightarrow> message resolved future \<times> stats_heap" where
  "asked g act h = group_resolve exact g (acting act) h"

definition answered :: "message resolved future \<Rightarrow> bool" where
  "answered r = (case r of Done (Ok m) \<Rightarrow> rcode m = NoError | _ \<Rightarrow> False)"

definition failed_with_error :: "message resolved future \<Rightarrow> bool" where
  "failed_with_error r = (case r of Done (Err _) \<Rightarrow> True | _ \<Rightarrow> False)"

definition metrics_share_group_stats_and_distinguish_primary_from_fallback :: bool where
  "metrics_share_group_stats_and_distinguish_primary_from_fallback =
     (let (primary, metrics, h) = group_new [''primary-ok''] 8 (Fin 5) 0 [] ''primary'' [];
          (fallback, metrics, h) = group_new [''fallback-dead''] 8 (Fin 5) 0 metrics ''fallback'' h;
          (r1, h) = asked primary (\<lambda>_. counting_ok) h;
          (r2, h) = asked fallback (\<lambda>_. always_err) h
      in answered r1 \<and> failed_with_error r2 \<and>
         map (\<lambda>s. (us_id s, us_name s, us_group s, us_samples s, us_successes s, us_failure_rate s)) (metrics_snapshot exact 0 h metrics) =
           [(''primary-0'', ''primary-ok'', ''primary'', 1, 1, Fin 0), (''fallback-0'', ''fallback-dead'', ''fallback'', 0, 0, Fin 0)] \<and>
         us_avg_latency_ms (metrics_snapshot exact 0 h metrics ! 1) = None)"

lemma test_metrics_share_group_stats_and_distinguish_primary_from_fallback:
  "metrics_share_group_stats_and_distinguish_primary_from_fallback"
  by code_simp

definition active_errors_stay_out_of_dashboard_metrics :: bool where
  "active_errors_stay_out_of_dashboard_metrics =
     (let (g, metrics, h) = group_new [''dead''] 64 (Fin 5) 0 [] ''primary'' []; (r, h) = asked g (\<lambda>_. always_err) h
      in failed_with_error r \<and>
         map (\<lambda>s. (us_name s, us_samples s, us_successes s, us_failure_rate s)) (metrics_snapshot exact 0 h metrics) =
           [(''dead'', 0, 0, Fin 0)])"

lemma test_active_errors_stay_out_of_dashboard_metrics: "active_errors_stay_out_of_dashboard_metrics"
  by code_simp

text \<open>The attempt is dropped while it waits, outside the retry engine.\<close>

definition cancelled_in_flight_attempt_counts_as_upstream_timeout_failure :: bool where
  "cancelled_in_flight_attempt_counts_as_upstream_timeout_failure =
     (let (g, metrics, h) = group_new [''black-hole''] 8 (Fin 5) 0 [] ''primary'' []; (r, h) = asked g (\<lambda>_. Cancelled None 0) h
      in r = Dropped \<and>
         map (\<lambda>s. (us_name s, us_samples s, us_successes s, us_failure_rate s)) (metrics_snapshot exact 0 h metrics) =
           [(''black-hole'', 1, 0, Fin 1)])"

lemma test_cancelled_in_flight_attempt_counts_as_upstream_timeout_failure:
  "cancelled_in_flight_attempt_counts_as_upstream_timeout_failure"
  by code_simp

definition poisoned_stats_do_not_block_dns_resolution :: bool where
  "poisoned_stats_do_not_block_dns_resolution =
     (let (g, metrics, h) = group_new [''ok''] 8 (Fin 5) 0 [] ''primary'' [];
          h = map (\<lambda>c. c\<lparr>cell_poisoned := True\<rparr>) h
      in answered (fst (asked g (\<lambda>_. counting_ok) h)))"

lemma test_poisoned_stats_do_not_block_dns_resolution: "poisoned_stats_do_not_block_dns_resolution"
  by code_simp

definition all_dead_is_error :: bool where
  "all_dead_is_error =
     (let (g, metrics, h) = group_new [''bad''] 8 (Fin 5) 0 [] ''primary'' []
      in failed_with_error (fst (asked g (\<lambda>_. always_err) h)))"

lemma test_all_dead_is_error: "all_dead_is_error"
  by code_simp

text \<open>The groups as the resolvers of the chain.\<close>

definition resolver_of :: "upstream_group \<Rightarrow> attempt_outcome \<Rightarrow> stats_heap \<Rightarrow> message \<Rightarrow> attributed resolved \<times> stats_heap" where
  "resolver_of g out h query = (case group_resolve_attributed exact g (acting (\<lambda>_. out)) h of
     (Done r, h) \<Rightarrow> (r, h) | (Dropped, h) \<Rightarrow> (Err Task_failed, h))"

definition fallback_takes_over_when_primary_dies :: bool where
  "fallback_takes_over_when_primary_dies =
     (let (primary, metrics, h) = group_new [''bad''] 8 (Fin 5) 0 [] ''primary'' [];
          (fallback, metrics, h) = group_new [''ok''] 8 (Fin 5) 0 metrics ''fallback'' h
      in answered (Done (fst (fallback_resolve (resolver_of primary always_err) (resolver_of fallback counting_ok) h ask))))"

lemma test_fallback_takes_over_when_primary_dies: "fallback_takes_over_when_primary_dies"
  by code_simp

section \<open>The retry engine\<close>

type_synonym behaviour = "nat \<Rightarrow> (duration \<times> task_result) option"

definition launched :: "behaviour \<Rightarrow> nat \<Rightarrow> instant \<Rightarrow> (instant \<times> task_result) list" where
  "launched act n now = (case act n of None \<Rightarrow> [] | Some (d, r) \<Rightarrow> [(now + d, r)])"

record finished_run =
  fr_answer :: "attributed resolved"
  fr_elapsed :: duration
  fr_calls :: nat
  fr_cancelled :: nat

primrec simulate :: "nat \<Rightarrow> hedged_resolver \<Rightarrow> behaviour \<Rightarrow> (instant \<times> task_result) list \<Rightarrow> hedged_state \<Rightarrow> finished_run option" where
  "simulate 0 cfg act running st = None"
| "simulate (Suc fuel) cfg act running st =
     (let alarms = map fst running @ (if hr_interval cfg \<noteq> 0 then [next_hedge st] else []) @
            (if in_flight st = 0 then [retry_at st] else []);
          now = foldl min (deadline st) alarms;
          over = List.find (\<lambda>x. fst x \<le> now) running;
          running = (case over of None \<Rightarrow> running | Some x \<Rightarrow> remove1 x running)
      in case hedged_poll cfg \<lparr>wk_now = now, wk_joined = map_option snd over, wk_clock = now\<rparr> st of
           Continue st' \<Rightarrow>
             simulate fuel cfg act (running @ (if spawned st < spawned st' then launched act (spawned st) now else [])) st'
         | Return r won cancelled \<Rightarrow> Some \<lparr>fr_answer = r, fr_elapsed = now, fr_calls = spawned st, fr_cancelled = cancelled\<rparr>
         | _ \<Rightarrow> None)"

definition simulated :: "nat \<Rightarrow> nat \<Rightarrow> behaviour \<Rightarrow> finished_run option" where
  "simulated interval_ms max_wait_ms act =
     (let cfg = \<lparr>hr_interval = from_millis interval_ms, hr_max_wait = from_millis max_wait_ms\<rparr>
      in simulate 64 cfg act (launched act 0 0) (hedged_init cfg 0 0 0))"

definition hedged_run :: "nat \<Rightarrow> nat \<Rightarrow> behaviour \<Rightarrow> (finished_run \<Rightarrow> bool) \<Rightarrow> bool" where
  "hedged_run interval_ms max_wait_ms act P = (case simulated interval_ms max_wait_ms act of None \<Rightarrow> False | Some run \<Rightarrow> P run)"

definition ok_answer :: task_result where
  "ok_answer = Task_ok (ok_resp, None)"

definition won :: "finished_run \<Rightarrow> bool" where
  "won run = (case fr_answer run of Ok (m, _) \<Rightarrow> rcode m = NoError | Err _ \<Rightarrow> False)"

definition slow_then_fast :: behaviour where
  "slow_then_fast n = (if n = 0 then Some (from_secs 60, Task_err Task_failed) else Some (0, ok_answer))"

definition second_attempt_wins_after_interval :: bool where
  "second_attempt_wins_after_interval = hedged_run 100 5000 slow_then_fast
     (\<lambda>run. won run \<and> from_millis 100 \<le> fr_elapsed run \<and> fr_elapsed run < from_secs 1 \<and> 2 \<le> fr_calls run)"

lemma test_second_attempt_wins_after_interval: "second_attempt_wins_after_interval"
  by code_simp

definition fast_success_needs_no_hedge :: bool where
  "fast_success_needs_no_hedge = hedged_run 100 5000 (\<lambda>_. Some (0, ok_answer))
     (\<lambda>run. won run \<and> fr_elapsed run < from_millis 100 \<and> fr_calls run = 1)"

lemma test_fast_success_needs_no_hedge: "fast_success_needs_no_hedge"
  by code_simp

definition active_errors_retry_until_budget_expires :: bool where
  "active_errors_retry_until_budget_expires = hedged_run 0 300 (\<lambda>_. Some (0, Task_err Task_failed))
     (\<lambda>run. \<not> is_ok (fr_answer run) \<and> from_millis 300 \<le> fr_elapsed run \<and> 2 \<le> fr_calls run \<and> fr_calls run \<le> 10)"

lemma test_active_errors_retry_until_budget_expires: "active_errors_retry_until_budget_expires"
  by code_simp

definition error_then_recovery_within_budget_succeeds :: bool where
  "error_then_recovery_within_budget_succeeds =
     hedged_run 0 5000 (\<lambda>n. Some (0, if n < 2 then Task_err Task_failed else ok_answer)) (\<lambda>run. won run \<and> fr_calls run = 3)"

lemma test_error_then_recovery_within_budget_succeeds: "error_then_recovery_within_budget_succeeds"
  by code_simp

definition serial_mode_keeps_a_single_attempt_in_flight :: bool where
  "serial_mode_keeps_a_single_attempt_in_flight =
     hedged_run 0 150 (\<lambda>_. None) (\<lambda>run. \<not> is_ok (fr_answer run) \<and> fr_calls run = 1)"

lemma test_serial_mode_keeps_a_single_attempt_in_flight: "serial_mode_keeps_a_single_attempt_in_flight"
  by code_simp

definition gives_up_at_budget_with_attempts_still_hanging :: bool where
  "gives_up_at_budget_with_attempts_still_hanging =
     hedged_run 50 200 (\<lambda>_. Some (from_secs 60, Task_err Task_failed))
       (\<lambda>run. \<not> is_ok (fr_answer run) \<and> from_millis 200 \<le> fr_elapsed run \<and> fr_elapsed run < from_secs 1)"

lemma test_gives_up_at_budget_with_attempts_still_hanging: "gives_up_at_budget_with_attempts_still_hanging"
  by code_simp

text \<open>Every attempt but the winner is cancelled when the call returns.\<close>

definition success_cancels_losing_attempts_before_returning :: bool where
  "success_cancels_losing_attempts_before_returning =
     hedged_run 20 1000 (\<lambda>n. if n = 1 then Some (0, ok_answer) else None)
       (\<lambda>run. won run \<and> fr_cancelled run = fr_calls run - 1)"

lemma test_success_cancels_losing_attempts_before_returning: "success_cancels_losing_attempts_before_returning"
  by code_simp

definition budget_expiry_cancels_all_attempts_before_returning :: bool where
  "budget_expiry_cancels_all_attempts_before_returning =
     hedged_run 20 50 (\<lambda>_. None) (\<lambda>run. \<not> is_ok (fr_answer run) \<and> fr_cancelled run = fr_calls run)"

lemma test_budget_expiry_cancels_all_attempts_before_returning: "budget_expiry_cancels_all_attempts_before_returning"
  by code_simp

section \<open>Engine, group and dashboard\<close>

text \<open>The second attempt wins at the member and is recorded; the first is stopped with a winner.\<close>

definition hedge_loser_cancelled_after_sibling_win_is_not_a_failure :: bool where
  "hedge_loser_cancelled_after_sibling_win_is_not_a_failure =
     (let (g, metrics, h) = group_new [''slow-then-fast''] 8 (Fin 5) 0 [] ''primary'' [];
          cell = gm_stats (hd (gr_members g))
      in case simulated 30 5000 (\<lambda>n. if n = 0 then None else Some (0, ok_answer)) of None \<Rightarrow> False | Some run \<Rightarrow> won run \<and>
          (let (r, h) = asked g (\<lambda>_. counting_ok) h;
               h = stop_attempts exact True (replicate (fr_cancelled run) (Some (cell, 0))) h
           in map (\<lambda>s. (us_samples s, us_successes s, us_failure_rate s)) (metrics_snapshot exact 0 h metrics) = [(1, 1, Fin 0)]))"

lemma test_hedge_loser_cancelled_after_sibling_win_is_not_a_failure: "hedge_loser_cancelled_after_sibling_win_is_not_a_failure"
  by code_simp

end
