(* ===== verification/Test_Cache.thy ===== *)
theory Test_Cache
  imports Cache_Sampler "HOL-Library.Code_Target_Numeral"
begin

text \<open>
  The unit tests of \<open>src/cache.rs\<close> and \<open>src/dashboard/sampler.rs\<close>, run on the model: each definition is the
  body of one test, with its assertions as conjuncts, and the lemma after it evaluates it. They tie
  the definitions to behaviour that the repository's own test suite fixes.

  The codec is a stand-in whose encoding has the length a plain encoder would give; the tests only need
  that names of the same length give entries of the same cost. All operations happen at time zero
  and the allocator grants every request, unless a test says otherwise.
\<close>

definition wire_length :: "message \<Rightarrow> nat" where
  "wire_length m = 12 + sum_list (map (\<lambda>q. length (q_name q) + 5) (queries m)) + 16 * length (answers m)"

definition wire_encode :: "message \<Rightarrow> u8 list option" where
  "wire_encode m = Some (replicate (wire_length m) 0)"

definition wire_decode :: "u8 list \<Rightarrow> message option" where
  "wire_decode bs = None"

definition without_option :: "edns_code \<Rightarrow> edns_option list \<Rightarrow> edns_option list" where
  "without_option c os = filter (\<lambda>y. code_of y \<noteq> c) os"

definition type_name :: "record_type \<Rightarrow> string" where
  "type_name t = (if t = RT_A then ''A'' else if t = RT_AAAA then ''AAAA'' else [])"

definition wire_codec :: hickory where
  "wire_codec = \<lparr>to_vec = wire_encode, from_vec = wire_decode, opt_insert = Cons, opt_remove = without_option,
     edns_new = \<lparr>max_payload = 512, options = []\<rparr>, name_from_str = Some, rtype_to_string = type_name\<rparr>"

definition test_put :: "cache_key \<Rightarrow> message \<Rightarrow> cache \<Rightarrow> cache" where
  "test_put key m c = cache_put wire_codec (\<lambda>_. True) 0 c key m"

definition test_get :: "cache_key \<Rightarrow> u16 \<Rightarrow> cache \<Rightarrow> cache" where
  "test_get key i c = snd (cache_get 0 c key i)"

definition test_found :: "cache_key \<Rightarrow> u16 \<Rightarrow> cache \<Rightarrow> bool" where
  "test_found key i c = (case fst (cache_get 0 c key i) of None \<Rightarrow> False | Some _ \<Rightarrow> True)"

definition test_response :: "u16 \<Rightarrow> string \<Rightarrow> u32 \<Rightarrow> message" where
  "test_response i name ttl = add_answer \<lparr>rr_name = name, rr_ttl = ttl, rr_data = RData_A 0x01020304\<rparr>
     (add_query \<lparr>q_name = name, q_type = RT_A\<rparr> ((message_new i Response_type 0)\<lparr>rcode := NoError\<rparr>))"

definition test_key :: "string \<Rightarrow> cache_key" where
  "test_key name = \<lparr>ck_name = to_lowercase (trim_end_matches (CHR ''.'') name), ck_qtype = 1\<rparr>"

definition cache_fitting :: "nat \<Rightarrow> cache" where
  "cache_fitting entries = with_max_bytes (entry_cost wire_codec (test_key ''a.com.'') (test_response 1 ''a.com.'' 300) * entries)"

section \<open>The cache\<close>

definition hit_rewrites_id :: bool where
  "hit_rewrites_id =
     (let cache = test_put (test_key ''example.com.'') (test_response 0x1111 ''example.com.'' 300) (cache_new 10) in
      case fst (cache_get 0 cache (test_key ''example.com.'') 0x9999) of
        None \<Rightarrow> False
      | Some (msg, expired) \<Rightarrow> msg_id msg = 0x9999 \<and> \<not> expired)"

lemma test_hit_rewrites_id: "hit_rewrites_id"
  by code_simp

definition expired_entry_still_returned_marked_expired :: bool where
  "expired_entry_still_returned_marked_expired =
     (let cache = test_put (test_key ''stale.com.'') (test_response 1 ''stale.com.'' 0) (cache_new 10) in
      case fst (cache_get 0 cache (test_key ''stale.com.'') 2) of None \<Rightarrow> False | Some (_, expired) \<Rightarrow> expired)"

lemma test_expired_entry_still_returned_marked_expired: "expired_entry_still_returned_marked_expired"
  by code_simp

definition lru_eviction_respects_reads :: bool where
  "lru_eviction_respects_reads =
     (let cache = cache_fitting 2;
          cache = test_put (test_key ''a.com.'') (test_response 1 ''a.com.'' 300) cache;
          cache = test_put (test_key ''b.com.'') (test_response 2 ''b.com.'' 300) cache;
          cache = test_get (test_key ''a.com.'') 7 cache;
          cache = test_put (test_key ''c.com.'') (test_response 3 ''c.com.'' 300) cache
      in \<not> test_found (test_key ''b.com.'') 7 cache \<and>
         (let cache = test_get (test_key ''b.com.'') 7 cache in test_found (test_key ''a.com.'') 7 cache \<and>
         (let cache = test_get (test_key ''a.com.'') 7 cache in test_found (test_key ''c.com.'') 7 cache)))"

lemma test_lru_eviction_respects_reads: "lru_eviction_respects_reads"
  by code_simp

definition put_replaces_and_moves_to_tail :: bool where
  "put_replaces_and_moves_to_tail =
     (let cache = cache_fitting 2;
          cache = test_put (test_key ''a.com.'') (test_response 1 ''a.com.'' 300) cache;
          cache = test_put (test_key ''b.com.'') (test_response 2 ''b.com.'' 300) cache;
          cache = test_put (test_key ''a.com.'') (test_response 9 ''a.com.'' 300) cache;
          cache = test_put (test_key ''c.com.'') (test_response 3 ''c.com.'' 300) cache
      in \<not> test_found (test_key ''b.com.'') 7 cache \<and>
         (let cache = test_get (test_key ''b.com.'') 7 cache in test_found (test_key ''a.com.'') 7 cache \<and>
         (let cache = test_get (test_key ''a.com.'') 7 cache in cache_len cache = 2)))"

lemma test_put_replaces_and_moves_to_tail: "put_replaces_and_moves_to_tail"
  by code_simp

definition memory_stats_track_puts_replacements_and_evictions :: bool where
  "memory_stats_track_puts_replacements_and_evictions =
     (let cost = entry_cost wire_codec (test_key ''a.com.'') (test_response 1 ''a.com.'' 300);
          cache = with_max_bytes (cost * 2) in
      memory_stats cache = (0, cost * 2) \<and>
     (let cache = test_put (test_key ''a.com.'') (test_response 1 ''a.com.'' 300) cache in fst (memory_stats cache) = cost \<and>
     (let cache = test_put (test_key ''a.com.'') (test_response 9 ''a.com.'' 300) cache in fst (memory_stats cache) = cost \<and>
     (let cache = test_put (test_key ''b.com.'') (test_response 2 ''b.com.'' 300) cache;
          cache = test_put (test_key ''c.com.'') (test_response 3 ''c.com.'' 300) cache in
      fst (memory_stats cache) = cost * 2 \<and> cache_len cache = 2))))"

lemma test_memory_stats_track_puts_replacements_and_evictions: "memory_stats_track_puts_replacements_and_evictions"
  by code_simp

definition oversized_entry_is_not_cached_and_evicts_nothing :: bool where
  "oversized_entry_is_not_cached_and_evicts_nothing =
     (let small = test_response 1 ''a.com.'' 300;
          cache = test_put (test_key ''a.com.'') small (with_max_bytes (entry_cost wire_codec (test_key ''a.com.'') small)) in
      cache_len cache = 1 \<and>
     (let big = foldl (\<lambda>m host. add_answer \<lparr>rr_name = ''big.example.com.'', rr_ttl = 300, rr_data = RData_A (0x0A000000 + of_nat host)\<rparr> m)
            (test_response 2 ''big.example.com.'' 300) [0..<64];
          cache = test_put (test_key ''big.example.com.'') big cache in
      \<not> test_found (test_key ''big.example.com.'') 7 cache \<and>
     (let cache = test_get (test_key ''big.example.com.'') 7 cache in test_found (test_key ''a.com.'') 7 cache)))"

lemma length_added_answers: "length (answers (foldl (\<lambda>m x. add_answer (r x) m) m xs)) = length (answers m) + length xs"
  by (induction xs arbitrary: m) (simp_all add: add_answer_def)

lemma queries_added_answers: "queries (foldl (\<lambda>m x. add_answer (r x) m) m xs) = queries m"
  by (induction xs arbitrary: m) (simp_all add: add_answer_def)

lemma test_oversized_entry_is_not_cached_and_evicts_nothing: "oversized_entry_is_not_cached_and_evicts_nothing"
proof -
  let ?add = "\<lambda>m host. add_answer \<lparr>rr_name = ''big.example.com.'', rr_ttl = 300, rr_data = RData_A (0x0A000000 + of_nat host)\<rparr> m"
  define big where "big = foldl ?add (test_response 2 ''big.example.com.'' 300) [0..<64]"
  define cache where "cache = test_put (test_key ''a.com.'') (test_response 1 ''a.com.'' 300)
    (with_max_bytes (entry_cost wire_codec (test_key ''a.com.'') (test_response 1 ''a.com.'' 300)))"
  have "wire_length big = 12 + (16 + 5) + 16 * 65"
    unfolding big_def wire_length_def length_added_answers queries_added_answers
    by (simp add: test_response_def message_new_def add_query_def add_answer_def)
  moreover have "length (ck_name (test_key ''big.example.com.'')) = 15" by code_simp
  ultimately have "entry_cost wire_codec (test_key ''big.example.com.'') big = 128 + 15 + 3 * 1073"
    by (simp add: entry_cost_def wire_codec_def wire_encode_def ENTRY_OVERHEAD_def)
  moreover have "max_bytes cache < 500" unfolding cache_def by code_simp
  ultimately have "test_put (test_key ''big.example.com.'') big cache = cache" by (simp add: test_put_def cache_put_def)
  moreover have "cache_len cache = 1 \<and> \<not> test_found (test_key ''big.example.com.'') 7 cache \<and>
      test_found (test_key ''a.com.'') 7 (test_get (test_key ''big.example.com.'') 7 cache)" unfolding cache_def by code_simp
  ultimately show ?thesis
    unfolding oversized_entry_is_not_cached_and_evicts_nothing_def Let_def big_def [symmetric] cache_def [symmetric] by simp
qed

definition reserve_failure_evicts_lru_until_empty :: bool where
  "reserve_failure_evicts_lru_until_empty =
     (let insert = (\<lambda>map name. let message = test_response 1 name 300; cost = entry_cost wire_codec (test_key name) message in
            \<lparr>cm_entries = filter (\<lambda>x. fst x \<noteq> test_key name) (cm_entries map) @
               [(test_key name, \<lparr>ce_message = message, ce_expires_at = 0, ce_cost = cost\<rparr>)],
             used_bytes = used_bytes map + cost\<rparr>);
          map = insert (insert \<lparr>cm_entries = [], used_bytes = 0\<rparr> ''a.com.'') ''b.com.'';
          (reserved, es, used) = reserve_or_evict (\<lambda>_. False) 0 (cm_entries map) (used_bytes map)
      in \<not> reserved \<and> es = [] \<and> used = 0 \<and>
     (let map = insert \<lparr>cm_entries = es, used_bytes = used\<rparr> ''c.com.'';
          (reserved, es, used) = reserve_or_evict (\<lambda>_. True) 0 (cm_entries map) (used_bytes map)
      in reserved \<and> length es = 1))"

lemma test_reserve_failure_evicts_lru_until_empty: "reserve_failure_evicts_lru_until_empty"
  by code_simp

definition missing_question_key_is_none :: bool where
  "missing_question_key_is_none = (key_from_query (message_new 5 Query_type 0) = None)"

lemma test_missing_question_key_is_none: "missing_question_key_is_none"
  by code_simp

definition hit_stats_count_lookups_including_expired_optimistic_hits :: bool where
  "hit_stats_count_lookups_including_expired_optimistic_hits =
     (let cache = test_get (test_key ''miss.com.'') 1 (cache_new 10);
          cache = test_put (test_key ''hit.com.'') (test_response 1 ''hit.com.'' 300) cache;
          cache = test_get (test_key ''hit.com.'') 2 cache;
          cache = test_put (test_key ''stale.com.'') (test_response 1 ''stale.com.'' 0) cache;
          cache = test_get (test_key ''stale.com.'') 3 cache
      in hit_stats cache = (3, 2))"

lemma test_hit_stats_count_lookups_including_expired_optimistic_hits: "hit_stats_count_lookups_including_expired_optimistic_hits"
  by code_simp

section \<open>The sampler\<close>

text \<open>Divisions are exact: the quotients of these tests are floating-point numbers.\<close>

definition sampler_starts_at_origin_and_tracks_cumulative_hit_rate_per_request :: bool where
  "sampler_starts_at_origin_and_tracks_cumulative_hit_rate_per_request =
     (let cache = cache_new 10; sampler = sampler_new exact cache in
      (case sampler_latest sampler of None \<Rightarrow> False | Some initial \<Rightarrow> (cs_size initial, cs_hit_rate initial) = (0, Fin 0)) \<and>
     (let cache = test_get (test_key ''a.com.'') 1 cache;
          cache = test_put (test_key ''a.com.'') (test_response 1 ''a.com.'' 300) cache;
          sampler = observe exact cache sampler in
      (case sampler_latest sampler of None \<Rightarrow> False | Some first \<Rightarrow> (cs_size first, cs_hit_rate first) = (1, Fin 0)) \<and>
     (let cache = test_get (test_key ''a.com.'') 2 cache;
          sampler = observe exact cache sampler in
      (case sampler_latest sampler of None \<Rightarrow> False
       | Some second \<Rightarrow> cs_size second = 1 \<and> cs_hit_rate second = Fin (1 / 2) \<and> cs_lookups second = 2))))"

lemma test_sampler_starts_at_origin_and_tracks_cumulative_hit_rate_per_request:
  "sampler_starts_at_origin_and_tracks_cumulative_hit_rate_per_request"
  by code_simp

definition observe_without_new_activity_does_not_duplicate_points :: bool where
  "observe_without_new_activity_does_not_duplicate_points =
     (let cache = cache_new 10; sampler = observe exact cache (observe exact cache (sampler_new exact cache))
      in length (points sampler) = 1)"

lemma test_observe_without_new_activity_does_not_duplicate_points: "observe_without_new_activity_does_not_duplicate_points"
  by code_simp

definition points_sort_by_size_and_keep_latest_cumulative_rate_per_size :: bool where
  "points_sort_by_size_and_keep_latest_cumulative_rate_per_size =
     (let cache = cache_new 10; sampler = sampler_new exact cache;
          cache = test_get (test_key ''a.com.'') 1 cache;
          cache = test_put (test_key ''a.com.'') (test_response 1 ''a.com.'' 300) cache;
          sampler = observe exact cache sampler;
          cache = test_get (test_key ''a.com.'') 2 cache;
          sampler = observe exact cache sampler;
          cache = test_get (test_key ''b.com.'') 3 cache;
          cache = test_put (test_key ''b.com.'') (test_response 1 ''b.com.'' 300) cache;
          cache = test_get (test_key ''b.com.'') 4 cache;
          sampler = observe exact cache sampler
      in map (\<lambda>p. (cs_size p, cs_hit_rate p)) (points sampler) = [(0, Fin 0), (1, Fin (1 / 2)), (2, Fin (1 / 2))])"

lemma test_points_sort_by_size_and_keep_latest_cumulative_rate_per_size: "points_sort_by_size_and_keep_latest_cumulative_rate_per_size"
  by code_simp

end
