(* ===== verification/Test_Pipeline.thy ===== *)
theory Test_Pipeline
  imports Pipeline Test_Cache
begin

text \<open>
  Unit tests of \<open>src/pipeline.rs\<close>, run on the model: each definition is the body of one test, with its assertions
  as conjuncts, and the lemma after it evaluates it. An upstream is the function from the query it is sent to its
  answer. All of a test happens at time zero unless it says otherwise, one call after the other.
\<close>

type_synonym test_upstream = "message \<Rightarrow> attributed resolved"

definition clock_zero :: clocks where
  "clock_zero = \<lparr>ck_now = 0, ck_elapsed = 0, ck_utc_ms = 0\<rparr>"

text \<open>\<open>pipeline.handle(&query).await\<close>: both halves, with the upstream's answer in between.\<close>

definition handled ::
  "pipeline_parts \<Rightarrow> test_upstream \<Rightarrow> message \<Rightarrow> pipeline_state \<Rightarrow> message \<times> refresh_task option \<times> pipeline_state" where
  "handled p ups query st = (case handle_start wire_codec exact p clock_zero query st of
     (Replied_now r, refresh, st) \<Rightarrow> (r, refresh, st)
   | (Waiting key q, refresh, st) \<Rightarrow>
       (case handle_finish wire_codec exact (\<lambda>_. True) clock_zero 0 key query (resolve_upstream p (ups q) 0) st of
          (r, st) \<Rightarrow> (r, refresh, st)))"

definition default_parts :: pipeline_parts where
  "default_parts = \<lparr>pp_hosts = hosts_from_entries [], pp_ecs = None, pp_query_timeout = from_secs 5\<rparr>"

definition default_state :: "recorder \<Rightarrow> pipeline_state" where
  "default_state r = \<lparr>pl_filter = filter_new [], pl_cache = cache_new 16, pl_sampler = sampler_new exact (cache_new 16), pl_recorder = r\<rparr>"

definition recording_state :: pipeline_state where
  "recording_state = default_state (recorder_channel 16)"

definition recorded_events :: "pipeline_state \<Rightarrow> query_event list" where
  "recorded_events st = rec_queue (pl_recorder st)"

definition pipeline_query :: message where
  "pipeline_query = add_query \<lparr>q_name = ''example.com.'', q_type = RT_A\<rparr> (message_new 7 Query_type 0)"

section \<open>Upstreams\<close>

definition plain_reply :: "message \<Rightarrow> message" where
  "plain_reply query = (message_new (msg_id query) Response_type (op_code query))\<lparr>rcode := NoError\<rparr>"

definition ok_resolver :: test_upstream where
  "ok_resolver query = Ok (plain_reply query, None)"

definition err_resolver :: test_upstream where
  "err_resolver query = Err Receive_failed"

definition address_reply :: "u32 \<Rightarrow> u32 \<Rightarrow> message \<Rightarrow> message" where
  "address_reply ttl a query = (let resp = plain_reply query in case queries query of
     [] \<Rightarrow> resp
   | q # _ \<Rightarrow> add_answer \<lparr>rr_name = q_name q, rr_ttl = ttl, rr_data = RData_A a\<rparr> (add_query q resp))"

definition counting_ttl_zero :: test_upstream where
  "counting_ttl_zero query = Ok (address_reply 0 0x01020304 query, None)"

definition caching_attributed :: "string \<Rightarrow> test_upstream" where
  "caching_attributed name query = Ok (address_reply 300 0x01020304 query, Some name)"

section \<open>Tests\<close>

definition blocked_response_detection_covers_zero_addresses_only :: bool where
  "blocked_response_detection_covers_zero_addresses_only =
     (let build = (\<lambda>records code. foldl (\<lambda>resp data. add_answer \<lparr>rr_name = ''example.com.'', rr_ttl = 300, rr_data = data\<rparr> resp)
            ((message_new 1 Response_type 0)\<lparr>rcode := code\<rparr>) records);
          zero4 = RData_A 0; zero6 = RData_AAAA 0; address = RData_A 0x01020304
      in is_blocked_response (build [zero4] NoError) \<and> is_blocked_response (build [zero4, zero6] NoError) \<and>
         \<not> is_blocked_response (build [address] NoError) \<and> \<not> is_blocked_response (build [zero4, address] NoError) \<and>
         \<not> is_blocked_response (build [] NoError) \<and> \<not> is_blocked_response (build [zero4] NXDomain))"

lemma test_blocked_response_detection_covers_zero_addresses_only: "blocked_response_detection_covers_zero_addresses_only"
  by code_simp

definition hosts_parts :: pipeline_parts where
  "hosts_parts = default_parts\<lparr>pp_hosts := hosts_from_entries
     [\<lparr>he_name = ''example.com'', he_addrs = List.map_filter parse_ip [''1.2.3.4'']\<rparr>]\<rparr>"

definition hosts_answer_records_no_upstream_attribution :: bool where
  "hosts_answer_records_no_upstream_attribution =
     (case handled hosts_parts (caching_attributed ''doh:cloudflare'') pipeline_query (default_state (recorder_channel 4)) of
        (_, _, st) \<Rightarrow> map ev_upstream (recorded_events st) = [None])"

lemma test_hosts_answer_records_no_upstream_attribution: "hosts_answer_records_no_upstream_attribution"
  by code_simp

definition returns_upstream_response_on_success :: bool where
  "returns_upstream_response_on_success =
     (case handled default_parts ok_resolver pipeline_query (default_state recorder_disabled) of
        (resp, _, _) \<Rightarrow> rcode resp = NoError \<and> msg_id resp = 7)"

lemma test_returns_upstream_response_on_success: "returns_upstream_response_on_success"
  by code_simp

definition returns_servfail_on_upstream_error :: bool where
  "returns_servfail_on_upstream_error =
     (case handled default_parts err_resolver pipeline_query recording_state of (resp, _, st) \<Rightarrow>
        rcode resp = ServFail \<and> msg_id resp = 7 \<and> length (queries resp) = 1 \<and>
        map (\<lambda>e. (response_code_text e, ev_blocked e, ev_cache_hit e)) (recorded_events st) = [(''SERVFAIL'', False, False)])"

lemma test_returns_servfail_on_upstream_error: "returns_servfail_on_upstream_error"
  by code_simp

text \<open>The clocks of the two halves: 30 milliseconds pass while the upstream is asked.\<close>

definition event_timestamp_is_captured_before_resolver_completion :: bool where
  "event_timestamp_is_captured_before_resolver_completion =
     (let before_handle_ms = 1000; completed_at_ms = 1031;
          begun = \<lparr>ck_now = 0, ck_elapsed = 0, ck_utc_ms = 1001\<rparr>;
          ended = \<lparr>ck_now = from_millis 30, ck_elapsed = from_millis 30, ck_utc_ms = completed_at_ms\<rparr>
      in case handle_start wire_codec exact default_parts begun pipeline_query recording_state of
           (Waiting key q, _, st) \<Rightarrow>
             (case handle_finish wire_codec exact (\<lambda>_. True) ended (ck_utc_ms begun) key pipeline_query
                (resolve_upstream default_parts (ok_resolver q) (from_millis 30)) st of (_, st) \<Rightarrow>
              (case recorded_events st of [e] \<Rightarrow>
                 before_handle_ms \<le> timestamp_ms e \<and> timestamp_ms e < completed_at_ms \<and> 20 \<le> duration_ms e
               | _ \<Rightarrow> False))
         | _ \<Rightarrow> False)"

lemma test_event_timestamp_is_captured_before_resolver_completion: "event_timestamp_is_captured_before_resolver_completion"
  by code_simp

definition records_hosts_and_blocked_queries_once_with_final_answer_ips :: bool where
  "records_hosts_and_blocked_queries_once_with_final_answer_ips =
     ((case handled hosts_parts ok_resolver pipeline_query (default_state (recorder_channel 4)) of (_, _, st) \<Rightarrow>
        map (\<lambda>e. (domain e, query_type e, response_code_text e, response_ips e, ev_blocked e, ev_cache_hit e)) (recorded_events st) =
          [(''example.com'', ''A'', ''NOERROR'', [''1.2.3.4''], False, False)]) \<and>
      (let st = default_state (recorder_channel 4); st = st\<lparr>pl_filter := filter_store (pl_filter st) (parse_rules ''example.com'')\<rparr>
       in case handled default_parts ok_resolver pipeline_query st of (_, _, st) \<Rightarrow>
          map (\<lambda>e. (response_ips e, ev_blocked e, ev_cache_hit e)) (recorded_events st) = [([''0.0.0.0''], True, False)]))"

lemma test_records_hosts_and_blocked_queries_once_with_final_answer_ips:
  "records_hosts_and_blocked_queries_once_with_final_answer_ips"
  by code_simp

text \<open>The second query is answered from the expired entry and starts a refresh, which is what asks the upstream again.\<close>

definition expired_cache_hit_triggers_background_refresh :: bool where
  "expired_cache_hit_triggers_background_refresh =
     (case handled default_parts counting_ttl_zero pipeline_query (default_state recorder_disabled) of (_, _, st) \<Rightarrow>
      case handled default_parts counting_ttl_zero pipeline_query st of
        (resp, Some _, st) \<Rightarrow> rcode resp = NoError | _ \<Rightarrow> False)"

lemma test_expired_cache_hit_triggers_background_refresh: "expired_cache_hit_triggers_background_refresh"
  by code_simp

definition has_subnet :: "message \<Rightarrow> bool" where
  "has_subnet m = (case edns m of None \<Rightarrow> False | Some e \<Rightarrow> list_ex (\<lambda>x. code_of x = Code_Subnet) (options e))"

definition prepared_query_strips_client_supplied_ecs_when_disabled :: bool where
  "prepared_query_strips_client_supplied_ecs_when_disabled =
     (case parse_subnet ''198.51.100.0/24'' of Err _ \<Rightarrow> False
      | Ok client_subnet \<Rightarrow> (let q = inject wire_codec pipeline_query client_subnet
          in has_subnet q \<and> \<not> has_subnet (prepared_query wire_codec default_parts q)))"

lemma test_prepared_query_strips_client_supplied_ecs_when_disabled: "prepared_query_strips_client_supplied_ecs_when_disabled"
  by code_simp

end
