(* ===== verification/Test_Store.thy ===== *)
theory Test_Store
  imports Store_Schema Store_Worker "HOL-Library.Code_Target_Numeral"
begin

text \<open>
  The unit tests of \<open>src/dashboard/store.rs\<close>, run on the model: each definition is the body of one test, with
  its assertions as conjuncts, and the lemma after it evaluates it. The database works without errors, the
  calendar is that of the chrono library with the range of timestamps it documents. Statements with which a test
  alters the file are changes of the catalog, counting queries are lengths of tables.
\<close>

definition chrono_midnight :: calendar where
  "chrono_midnight t = (if - 8334601228800000 \<le> t \<and> t \<le> 8210266876799999 then Some (t div STORE_DAY_MS * STORE_DAY_MS) else None)"

definition test_event :: "int \<Rightarrow> string \<Rightarrow> string list \<Rightarrow> query_event" where
  "test_event t d ips = \<lparr>timestamp_ms = t, domain = d, query_type = ''A'', response_code_text = ''NOERROR'',
     duration_ms = 12, ev_blocked = False, ev_cache_hit = False, response_ips = ips, ev_upstream = None\<rparr>"

text \<open>\<open>store.insert_events(..).unwrap()\<close> and \<open>store.cleanup(..).unwrap()\<close>: the database, if the call succeeds.\<close>

definition inserted :: "database \<Rightarrow> query_event list \<Rightarrow> database option" where
  "inserted db es = (case insert_events sample_io chrono_midnight db es of (Ok _, db) \<Rightarrow> Some db | (Err _, _) \<Rightarrow> None)"

definition cleaned_up :: "nat \<Rightarrow> int \<Rightarrow> database \<Rightarrow> database option" where
  "cleaned_up days now db = (case cleanup sample_io days now db of (Ok _, db) \<Rightarrow> Some db | (Err _, _) \<Rightarrow> None)"

definition holds :: "'a option \<Rightarrow> ('a \<Rightarrow> bool) \<Rightarrow> bool" where
  "holds x P = (case x of None \<Rightarrow> False | Some a \<Rightarrow> P a)"

definition succeeds :: "('a, 'e) result \<Rightarrow> ('a \<Rightarrow> bool) \<Rightarrow> bool" where
  "succeeds r P = (case r of Err _ \<Rightarrow> False | Ok a \<Rightarrow> P a)"

definition page_of :: "database \<Rightarrow> nat \<Rightarrow> nat \<Rightarrow> string option \<Rightarrow> (query_page, store_error) result" where
  "page_of db page page_size search = queries_of sample_io 0 page page_size search db"

definition trend_of :: "database \<Rightarrow> nat \<Rightarrow> int \<Rightarrow> (trend_response, store_error) result" where
  "trend_of db days now = trend sample_io chrono_midnight 0 days now db"

section \<open>Writing\<close>

definition insert_persists_log_ips_and_both_aggregates :: bool where
  "insert_persists_log_ips_and_both_aggregates =
     holds (inserted empty_database [\<lparr>timestamp_ms = 1753488000000, domain = ''example.com'', query_type = ''A'',
       response_code_text = ''NOERROR'', duration_ms = 12, ev_blocked = False, ev_cache_hit = True,
       response_ips = [''1.1.1.1'', ''1.1.1.1'', ''2606:4700::1111''], ev_upstream = Some ''doh:cloudflare''\<rparr>])
       (\<lambda>db. length (query_logs db) = 1 \<and> length (query_response_ips db) = 2 \<and>
         map (total_queries \<circ> snd) (query_hourly_stats db) = [1] \<and> map (cache_hits \<circ> snd) (query_daily_stats db) = [1] \<and>
         map lr_upstream (query_logs db) = [Some ''doh:cloudflare''])"

lemma test_insert_persists_log_ips_and_both_aggregates: "insert_persists_log_ips_and_both_aggregates"
  by code_simp

definition response_time_averages_all_retained_durations :: bool where
  "response_time_averages_all_retained_durations =
     (succeeds (response_time exact sample_io 0 empty_database) (\<lambda>empty. rt_samples empty = 0 \<and> rt_avg_ms empty = None) \<and>
      holds (inserted empty_database [(test_event 1753488000000 ''fast.example'' [])\<lparr>duration_ms := 10\<rparr>,
          (test_event 1753488000500 ''slow.example'' [])\<lparr>duration_ms := 30\<rparr>])
        (\<lambda>db. succeeds (response_time exact sample_io 0 db)
          (\<lambda>summary. rt_samples summary = 2 \<and> rt_avg_ms summary = Some (Fin 20))))"

lemma test_response_time_averages_all_retained_durations: "response_time_averages_all_retained_durations"
  by code_simp

definition rejects_out_of_range_timestamp_without_panicking :: bool where
  "rejects_out_of_range_timestamp_without_panicking =
     (\<not> is_ok (fst (insert_events sample_io chrono_midnight empty_database [test_event i64_min ''example.com'' []])))"

lemma test_rejects_out_of_range_timestamp_without_panicking: "rejects_out_of_range_timestamp_without_panicking"
  by code_simp

definition persists_across_reopen_and_accumulates_shared_buckets :: bool where
  "persists_across_reopen_and_accumulates_shared_buckets =
     (let first = (test_event 1753488000000 ''first.example'' [])\<lparr>duration_ms := 10, ev_blocked := True\<rparr>;
          second = (test_event (1753488000000 + 1000) ''second.example'' [])\<lparr>query_type := ''AAAA'', duration_ms := 20, ev_cache_hit := True\<rparr>
      in holds (inserted empty_database [first]) (\<lambda>db.
         case store_open sample_schema_io \<lparr>dk_catalog = current_catalog, dk_data = db\<rparr> of
           (Err _, _) \<Rightarrow> False
         | (Ok _, dk) \<Rightarrow> holds (inserted (dk_data dk) [second]) (\<lambda>db.
             length (query_logs db) = 2 \<and> map (total_queries \<circ> snd) (query_hourly_stats db) = [2] \<and>
             map (blocked_queries \<circ> snd) (query_daily_stats db) = [1] \<and> map (cache_hits \<circ> snd) (query_daily_stats db) = [1])))"

lemma test_persists_across_reopen_and_accumulates_shared_buckets: "persists_across_reopen_and_accumulates_shared_buckets"
  by code_simp

definition cleanup_removes_expired_logs_and_ips_but_zero_keeps_all :: bool where
  "cleanup_removes_expired_logs_and_ips_but_zero_keeps_all =
     (let now = 1753488000000 in
      holds (inserted empty_database [test_event (now - 8 * STORE_DAY_MS) ''old.example'' [''192.0.2.1''],
          test_event now ''current.example'' [''192.0.2.2'']])
        (\<lambda>db. holds (cleaned_up 7 now db)
        (\<lambda>db. length (query_logs db) = 1 \<and> length (query_response_ips db) = 1 \<and>
          length (query_hourly_stats db) = 1 \<and> length (query_daily_stats db) = 1 \<and>
          holds (cleaned_up 0 i64_max db) (\<lambda>db. length (query_logs db) = 1))))"

lemma test_cleanup_removes_expired_logs_and_ips_but_zero_keeps_all: "cleanup_removes_expired_logs_and_ips_but_zero_keeps_all"
  by code_simp

definition cleanup_keeps_aggregate_buckets_that_overlap_a_non_aligned_cutoff :: bool where
  "cleanup_keeps_aggregate_buckets_that_overlap_a_non_aligned_cutoff =
     (let now = 100 * STORE_DAY_MS + 12 * STORE_HOUR_MS + 34567; cutoff = now - STORE_DAY_MS in
      holds (inserted empty_database [test_event (cutoff - 1) ''before-cutoff.example'' [], test_event cutoff ''at-cutoff.example'' []])
        (\<lambda>db. holds (cleaned_up 1 now db)
        (\<lambda>db. length (query_logs db) = 1 \<and> length (query_hourly_stats db) = 1 \<and> length (query_daily_stats db) = 1)))"

lemma test_cleanup_keeps_aggregate_buckets_that_overlap_a_non_aligned_cutoff:
  "cleanup_keeps_aggregate_buckets_that_overlap_a_non_aligned_cutoff"
  by code_simp

section \<open>Trends\<close>

text \<open>On an empty database the trend has one empty bucket per interval; its thousands of buckets are counted, not built.\<close>

lemma trend_of_empty:
  assumes "days \<le> 9999" and "\<bar>now\<bar> \<le> 2 ^ 62" and "chrono_midnight now \<noteq> None"
  shows "\<exists>bs. length bs = trend_count days \<and> trend_of empty_database days now =
    Ok \<lparr>tr_start_ms = trend_first days now, tr_end_ms = trend_end days now,
        tr_granularity = (if days = 0 \<or> 15 < days then ''day'' else ''hour''), tr_buckets = bs\<rparr>"
proof -
  let ?iv = "trend_interval days" and ?s = "trend_first days now" and ?n = "trend_count days"
  have dvd: "?iv dvd ?s" by (simp add: trend_first_def trend_end_def)
  note range = trend_range_eq [OF assms(1,2)] and span = trend_span [OF assms(1)]
  have "fill_buckets ?s ?iv 0 ?n [] = Ok (map (\<lambda>j. trend_bucket_at [] (?s + int j * ?iv)) [0..<0 + ?n])"
    using trend_buckets [OF assms(1,2)] by (intro fill_buckets_lookup [OF span(1) dvd]) (auto simp: table_inv_def)
  moreover have "nat ((trend_end days now - ?s) div ?iv) + 1 = ?n" "\<not> (trend_end days now - ?s) div ?iv < 0"
    using span(3,4) by auto
  ultimately show ?thesis
    using assms(3) span(2,3)
    by (auto simp: trend_of_def trend_def trend_with_deadline_def range(1) Let_def MAX_TREND_BUCKETS_def read_connection_def
        empty_database_def sample_io_def io_connect_def)
qed

lemma succeeds_trend_of_empty:
  assumes "days \<le> 9999" and "\<bar>now\<bar> \<le> 8000000000000000"
    and "\<And>bs. length bs = trend_count days \<Longrightarrow> P \<lparr>tr_start_ms = trend_first days now, tr_end_ms = trend_end days now,
      tr_granularity = (if days = 0 \<or> 15 < days then ''day'' else ''hour''), tr_buckets = bs\<rparr>"
  shows "succeeds (trend_of empty_database days now) P"
proof -
  have "chrono_midnight now \<noteq> None" using assms(2) by (auto simp: chrono_midnight_def)
  moreover have "\<bar>now\<bar> \<le> 2 ^ 62" using assms(2) by simp
  ultimately show ?thesis using trend_of_empty [OF assms(1)] assms(3) by (fastforce simp: succeeds_def)
qed

lemmas trend_shape = trend_first_def trend_end_def trend_count_def trend_interval_def STORE_DAY_MS_def STORE_HOUR_MS_def

definition trend_uses_hours_through_15_days_days_after_and_30_days_for_forever :: bool where
  "trend_uses_hours_through_15_days_days_after_and_30_days_for_forever =
     (let now = 1753531212345; granularity = (\<lambda>days g. succeeds (trend_of empty_database days now) (\<lambda>t. tr_granularity t = g))
      in granularity 7 ''hour'' \<and> granularity 15 ''hour'' \<and> granularity 16 ''day'' \<and>
         succeeds (trend_of empty_database 0 now) (\<lambda>forever. tr_granularity forever = ''day'' \<and>
           tr_start_ms forever = now div STORE_DAY_MS * STORE_DAY_MS - 29 * STORE_DAY_MS \<and> length (tr_buckets forever) = 30))"

lemma test_trend_uses_hours_through_15_days_days_after_and_30_days_for_forever:
  "trend_uses_hours_through_15_days_days_after_and_30_days_for_forever"
  unfolding trend_uses_hours_through_15_days_days_after_and_30_days_for_forever_def Let_def
  by (intro conjI succeeds_trend_of_empty) (simp_all add: trend_shape)

definition finite_trend_includes_every_bucket_intersecting_the_retention_window :: bool where
  "finite_trend_includes_every_bucket_intersecting_the_retention_window =
     (let now = 100 * STORE_DAY_MS + 12 * STORE_HOUR_MS + 34567 in
      succeeds (trend_of empty_database 1 now) (\<lambda>hourly. length (tr_buckets hourly) = 25 \<and>
        tr_start_ms hourly = 99 * STORE_DAY_MS + 12 * STORE_HOUR_MS \<and> tr_end_ms hourly = 100 * STORE_DAY_MS + 12 * STORE_HOUR_MS) \<and>
      succeeds (trend_of empty_database 16 now) (\<lambda>daily. length (tr_buckets daily) = 17 \<and>
        tr_start_ms daily = 84 * STORE_DAY_MS \<and> tr_end_ms daily = 100 * STORE_DAY_MS))"

lemma test_finite_trend_includes_every_bucket_intersecting_the_retention_window:
  "finite_trend_includes_every_bucket_intersecting_the_retention_window"
  unfolding finite_trend_includes_every_bucket_intersecting_the_retention_window_def Let_def
  by (intro conjI succeeds_trend_of_empty) (simp_all add: trend_shape)

definition aligned_finite_trend_includes_both_boundary_buckets :: bool where
  "aligned_finite_trend_includes_both_boundary_buckets =
     (let now = 100 * STORE_DAY_MS + 12 * STORE_HOUR_MS in
      succeeds (trend_of empty_database 1 now) (\<lambda>hourly. length (tr_buckets hourly) = 25 \<and>
        tr_start_ms hourly = 99 * STORE_DAY_MS + 12 * STORE_HOUR_MS \<and> tr_end_ms hourly = now))"

lemma test_aligned_finite_trend_includes_both_boundary_buckets: "aligned_finite_trend_includes_both_boundary_buckets"
  unfolding aligned_finite_trend_includes_both_boundary_buckets_def Let_def
  by (intro conjI succeeds_trend_of_empty) (simp_all add: trend_shape)

definition maximum_retention_fits_the_trend_bucket_limit :: bool where
  "maximum_retention_fits_the_trend_bucket_limit =
     succeeds (trend_of empty_database 9999 (10000 * STORE_DAY_MS + 123)) (\<lambda>t. length (tr_buckets t) = 10000)"

lemma test_maximum_retention_fits_the_trend_bucket_limit: "maximum_retention_fits_the_trend_bucket_limit"
  unfolding maximum_retention_fits_the_trend_bucket_limit_def
  by (intro succeeds_trend_of_empty) (simp_all add: trend_shape)

definition time_boundary_inputs_return_errors_instead_of_panicking :: bool where
  "time_boundary_inputs_return_errors_instead_of_panicking =
     (\<not> is_ok (fst (cleanup sample_io u64_max i64_min empty_database)) \<and>
      \<not> is_ok (trend_of empty_database 1 i64_min) \<and> \<not> is_ok (trend_of empty_database 1 i64_max))"

lemma test_time_boundary_inputs_return_errors_instead_of_panicking: "time_boundary_inputs_return_errors_instead_of_panicking"
  by code_simp

definition trend_rejects_huge_but_arithmetically_valid_ranges_without_panicking :: bool where
  "trend_rejects_huge_but_arithmetically_valid_ranges_without_panicking = (\<not> is_ok (trend_of empty_database 100000 0))"

lemma test_trend_rejects_huge_but_arithmetically_valid_ranges_without_panicking:
  "trend_rejects_huge_but_arithmetically_valid_ranges_without_panicking"
  by code_simp

section \<open>Pages\<close>

definition queries_search_domain_or_ip_without_duplicates_and_escape_wildcards :: bool where
  "queries_search_domain_or_ip_without_duplicates_and_escape_wildcards =
     (let now = 1753488000000 in
      holds (inserted empty_database [test_event now ''example.com'' [''1.1.1.1'', ''1.0.0.1''],
          test_event (now - 1) ''literal%.com'' [''2001:db8::1'', ''2001:db8::11''],
          test_event (now - 2) ''literal_.com'' [],
          test_event (now - 3) (''literal'' @ CHR 0x5C # ''slash.com'') []])
        (\<lambda>db. succeeds (page_of db 1 50 (Some ''example'')) (\<lambda>p. qp_total p = 1 \<and>
            map qr_response_ips (qp_records p) = [[''1.0.0.1'', ''1.1.1.1'']]) \<and>
          list_all (\<lambda>search. succeeds (page_of db 1 50 (Some search)) (\<lambda>p. qp_total p = 1)) [''1.1'', ''%'', ''_'', [CHR 0x5C]]))"

lemma test_queries_search_domain_or_ip_without_duplicates_and_escape_wildcards:
  "queries_search_domain_or_ip_without_duplicates_and_escape_wildcards"
  by code_simp

definition queries_use_identical_filters_for_total_and_paginated_records :: bool where
  "queries_use_identical_filters_for_total_and_paginated_records =
     (let now = 1753488000000 in
      holds (inserted empty_database [test_event now ''match-one.example'' [], test_event now ''match-two.example'' [],
          test_event now ''other.example'' []])
        (\<lambda>db. succeeds (page_of db 1 1 (Some ''match'')) (\<lambda>first.
          succeeds (page_of db 2 1 (Some ''match'')) (\<lambda>second.
          (qp_page first, qp_page_size first, qp_total first) = (1, 1, 2) \<and> length (qp_records first) = 1 \<and>
          qp_total second = 2 \<and> length (qp_records second) = 1 \<and> qr_id (qp_records first ! 0) \<noteq> qr_id (qp_records second ! 0)))))"

lemma test_queries_use_identical_filters_for_total_and_paginated_records:
  "queries_use_identical_filters_for_total_and_paginated_records"
  by code_simp

definition queries_reject_zero_or_oversized_page_sizes :: bool where
  "queries_reject_zero_or_oversized_page_sizes =
     (\<not> is_ok (page_of empty_database 1 0 None) \<and> \<not> is_ok (page_of empty_database 1 201 None) \<and>
      is_ok (page_of empty_database 1 200 None))"

lemma test_queries_reject_zero_or_oversized_page_sizes: "queries_reject_zero_or_oversized_page_sizes"
  by code_simp

text \<open>The clock has moved on by the time the connection looks at it.\<close>

definition expired_read_deadline_interrupts_sqlite_query :: bool where
  "expired_read_deadline_interrupts_sqlite_query =
     (case queries_with_deadline sample_io (Some 5) 6 1 50 (Some ''example'') empty_database of
        Err Deadline_exceeded \<Rightarrow> True | _ \<Rightarrow> False)"

lemma test_expired_read_deadline_interrupts_sqlite_query: "expired_read_deadline_interrupts_sqlite_query"
  by code_simp

section \<open>Opening a file\<close>

text \<open>Opening a file with the given catalog and no rows.\<close>

definition opened :: "catalog \<Rightarrow> (unit, schema_error) result" where
  "opened cat = fst (store_open sample_schema_io \<lparr>dk_catalog = cat, dk_data = empty_database\<rparr>)"

definition with_table :: "string \<Rightarrow> column list \<Rightarrow> catalog \<Rightarrow> catalog" where
  "with_table t cs cat = cat\<lparr>cat_tables := map (\<lambda>(n, old). (n, if n = t then cs else old)) (cat_tables cat)\<rparr>"

definition migrates_v1_database_by_adding_nullable_upstream_column :: bool where
  "migrates_v1_database_by_adding_nullable_upstream_column =
     holds (inserted empty_database [(test_event 1753488000000 ''legacy.example'' [])\<lparr>duration_ms := 5\<rparr>]) (\<lambda>legacy.
       case store_open sample_schema_io \<lparr>dk_catalog = v1_catalog, dk_data = legacy\<rparr> of
         (Err _, _) \<Rightarrow> False
       | (Ok _, dk) \<Rightarrow>
           succeeds (page_of (dk_data dk) 1 10 None) (\<lambda>p. qp_total p = 1 \<and>
             map (\<lambda>r. (qr_domain r, qr_upstream r)) (qp_records p) = [(''legacy.example'', None)]) \<and>
           holds (inserted (dk_data dk) [(test_event 1753488000001 ''fresh.example'' [])\<lparr>ev_upstream := Some ''plain:1.1.1.1:53''\<rparr>]) (\<lambda>db.
             succeeds (page_of db 1 10 (Some ''fresh'')) (\<lambda>p. map qr_upstream (qp_records p) = [Some ''plain:1.1.1.1:53''])) \<and>
           cat_version (dk_catalog dk) = SCHEMA_VERSION)"

lemma test_migrates_v1_database_by_adding_nullable_upstream_column: "migrates_v1_database_by_adding_nullable_upstream_column"
  by code_simp

definition rejects_database_with_future_schema_version :: bool where
  "rejects_database_with_future_schema_version =
     (case opened (current_catalog\<lparr>cat_version := 999\<rparr>) of Err (Newer_schema _) \<Rightarrow> True | _ \<Rightarrow> False)"

lemma test_rejects_database_with_future_schema_version: "rejects_database_with_future_schema_version"
  by code_simp

definition rejects_schema_v1_without_tables :: bool where
  "rejects_schema_v1_without_tables =
     (case opened (empty_catalog\<lparr>cat_version := 1\<rparr>) of Err (Missing_table t) \<Rightarrow> t = ''query_logs'' | _ \<Rightarrow> False)"

lemma test_rejects_schema_v1_without_tables: "rejects_schema_v1_without_tables"
  by code_simp

text \<open>Dropping a table drops its indexes and its foreign keys.\<close>

definition without_ip_table :: catalog where
  "without_ip_table = current_catalog\<lparr>cat_tables := filter (\<lambda>(n, cs). n \<noteq> ''query_response_ips'') (cat_tables current_catalog),
     cat_foreign_keys := [], cat_indexes := filter (\<lambda>(t, i, cs). t \<noteq> ''query_response_ips'') (cat_indexes current_catalog)\<rparr>"

definition rejects_schema_v1_missing_response_ip_table :: bool where
  "rejects_schema_v1_missing_response_ip_table =
     (case opened without_ip_table of Err (Missing_table t) \<Rightarrow> t = ''query_response_ips'' | _ \<Rightarrow> False)"

lemma test_rejects_schema_v1_missing_response_ip_table: "rejects_schema_v1_missing_response_ip_table"
  by code_simp

definition rejects_schema_v1_missing_key_column :: bool where
  "rejects_schema_v1_missing_key_column =
     (case opened (with_table ''query_daily_stats'' [col ''bucket_ms'' ''INTEGER'' False 1, col ''total_queries'' ''INTEGER'' True 0,
          col ''blocked_queries'' ''INTEGER'' True 0] current_catalog) of
        Err (Missing_column t c) \<Rightarrow> c = ''cache_hits'' | _ \<Rightarrow> False)"

lemma test_rejects_schema_v1_missing_key_column: "rejects_schema_v1_missing_key_column"
  by code_simp

definition rejects_schema_v1_with_incorrect_response_ip_foreign_key :: bool where
  "rejects_schema_v1_with_incorrect_response_ip_foreign_key =
     (case opened (current_catalog\<lparr>cat_foreign_keys := [\<lparr>fk_table = ''query_logs'', fk_from = ''query_id'', fk_to = Some ''id'',
          fk_on_delete = ''NO ACTION''\<rparr>]\<rparr>) of Err No_cascade \<Rightarrow> True | _ \<Rightarrow> False)"

lemma test_rejects_schema_v1_with_incorrect_response_ip_foreign_key: "rejects_schema_v1_with_incorrect_response_ip_foreign_key"
  by code_simp

definition without_domain_index :: catalog where
  "without_domain_index = current_catalog\<lparr>cat_indexes := filter (\<lambda>(t, i, cs). i \<noteq> ''query_logs_domain_idx'') (cat_indexes current_catalog)\<rparr>"

definition rejects_schema_v1_missing_required_index :: bool where
  "rejects_schema_v1_missing_required_index =
     (case opened without_domain_index of Err (Missing_index i) \<Rightarrow> i = ''query_logs_domain_idx'' | _ \<Rightarrow> False)"

lemma test_rejects_schema_v1_missing_required_index: "rejects_schema_v1_missing_required_index"
  by code_simp

definition rejects_schema_v1_with_required_index_on_wrong_columns :: bool where
  "rejects_schema_v1_with_required_index_on_wrong_columns =
     (case opened (without_domain_index\<lparr>cat_indexes := cat_indexes without_domain_index @
          [(''query_logs'', ''query_logs_domain_idx'', [Some ''timestamp_ms''])]\<rparr>) of
        Err (Bad_index i) \<Rightarrow> i = ''query_logs_domain_idx'' | _ \<Rightarrow> False)"

lemma test_rejects_schema_v1_with_required_index_on_wrong_columns: "rejects_schema_v1_with_required_index_on_wrong_columns"
  by code_simp

text \<open>Tables whose primary keys are spelled differently, as the pragma reports their columns.\<close>

definition rekeyed :: "string \<Rightarrow> (string \<times> nat) list \<Rightarrow> column list \<Rightarrow> catalog" where
  "rekeyed t keys added = (let cs = (case map_of v1_columns t of None \<Rightarrow> [] | Some cs \<Rightarrow> cs) @ added in
     with_table t (map (\<lambda>c. c\<lparr>c_pk := (case map_of keys (c_name c) of None \<Rightarrow> 0 | Some k \<Rightarrow> k)\<rparr>) cs) v1_catalog)"

definition rejects_schema_v1_query_log_composite_primary_key :: bool where
  "rejects_schema_v1_query_log_composite_primary_key =
     (\<not> is_ok (opened (rekeyed ''query_logs'' [(''id'', 1), (''domain'', 2)] [])))"

lemma test_rejects_schema_v1_query_log_composite_primary_key: "rejects_schema_v1_query_log_composite_primary_key"
  by code_simp

definition rejects_schema_v1_composite_hourly_primary_key :: bool where
  "rejects_schema_v1_composite_hourly_primary_key =
     (\<not> is_ok (opened (with_table ''query_daily_stats''
        (case map_of (cat_tables (rekeyed ''query_daily_stats'' [(''bucket_ms'', 1), (''total_queries'', 2)] [])) ''query_daily_stats'' of
           None \<Rightarrow> [] | Some cs \<Rightarrow> cs)
        (rekeyed ''query_hourly_stats'' [(''bucket_ms'', 1), (''total_queries'', 2)] []))))"

lemma test_rejects_schema_v1_composite_hourly_primary_key: "rejects_schema_v1_composite_hourly_primary_key"
  by code_simp

definition rejects_schema_v1_reversed_response_ip_primary_key :: bool where
  "rejects_schema_v1_reversed_response_ip_primary_key =
     (\<not> is_ok (opened (rekeyed ''query_response_ips'' [(''ip'', 1), (''query_id'', 2)] [])))"

lemma test_rejects_schema_v1_reversed_response_ip_primary_key: "rejects_schema_v1_reversed_response_ip_primary_key"
  by code_simp

definition rejects_schema_v1_response_ip_primary_key_with_extra_nullable_column :: bool where
  "rejects_schema_v1_response_ip_primary_key_with_extra_nullable_column =
     (\<not> is_ok (opened (rekeyed ''query_response_ips'' [(''query_id'', 1), (''ip'', 2), (''discriminator'', 3)]
        [col ''discriminator'' ''TEXT'' False 0])))"

lemma test_rejects_schema_v1_response_ip_primary_key_with_extra_nullable_column:
  "rejects_schema_v1_response_ip_primary_key_with_extra_nullable_column"
  by code_simp

definition rejects_schema_v1_query_log_primary_key_with_extra_nullable_column :: bool where
  "rejects_schema_v1_query_log_primary_key_with_extra_nullable_column =
     (\<not> is_ok (opened (rekeyed ''query_logs'' [(''id'', 1), (''discriminator'', 2)] [col ''discriminator'' ''TEXT'' False 0])))"

lemma test_rejects_schema_v1_query_log_primary_key_with_extra_nullable_column:
  "rejects_schema_v1_query_log_primary_key_with_extra_nullable_column"
  by code_simp

definition exact_primary_key_sequence_rejects_extra_query_log_column :: bool where
  "exact_primary_key_sequence_rejects_extra_query_log_column =
     (\<not> is_ok (validate_primary_key_columns ''query_logs'' [(1, ''id''), (2, ''discriminator'')] [(1, ''id'')]))"

lemma test_exact_primary_key_sequence_rejects_extra_query_log_column: "exact_primary_key_sequence_rejects_extra_query_log_column"
  by code_simp

text \<open>A key declared \<open>PRIMARY KEY DESC\<close> is no alias of the row identifier: the pragmas report the same catalog, but a row
  inserted without an identifier stores none.\<close>

definition rejects_schema_v1_descending_integer_primary_key_without_rowid_alias :: bool where
  "rejects_schema_v1_descending_integer_primary_key_without_rowid_alias =
     (let io = sample_schema_io\<lparr>si_probe := (si_probe sample_schema_io)\<lparr>pb_stored_id := (\<lambda>_. None)\<rparr>\<rparr>
      in \<not> is_ok (fst (store_open io \<lparr>dk_catalog = v1_catalog, dk_data = empty_database\<rparr>)))"

lemma test_rejects_schema_v1_descending_integer_primary_key_without_rowid_alias:
  "rejects_schema_v1_descending_integer_primary_key_without_rowid_alias"
  by code_simp

section \<open>Warnings\<close>

definition repeated_write_warnings_are_rate_limited :: bool where
  "repeated_write_warnings_are_rate_limited =
     (let limiter = rate_limit_new (from_secs 60); (a, limiter) = should_log 1000 [] limiter;
          (b, limiter) = should_log 1001 [] limiter; (c, limiter) = should_log 61000 [] limiter
      in a \<and> \<not> b \<and> c)"

lemma test_repeated_write_warnings_are_rate_limited: "repeated_write_warnings_are_rate_limited"
  by code_simp

end
