(* ===== verification/Test_Dashboard.thy ===== *)
theory Test_Dashboard
  imports Http_Api Runtime "HOL-Library.Code_Target_Numeral"
begin

text \<open>
  Unit tests of \<open>src/dashboard/http.rs\<close> and \<open>src/dashboard/mod.rs\<close>, run on the model: each definition is the body of one
  test, with its assertions as conjuncts, and the lemma after it evaluates it.
\<close>

definition sqlite_error_classification_only_times_out_deadline_errors :: bool where
  "sqlite_error_classification_only_times_out_deadline_errors =
     (classify_sqlite_error_ref (Sqlite_failure Operation_interrupted) True = Read_timeout \<and>
      classify_sqlite_error_ref (Sqlite_failure Other_code) True = Read_database)"

lemma test_sqlite_error_classification_only_times_out_deadline_errors:
  "sqlite_error_classification_only_times_out_deadline_errors"
  by code_simp

definition blocking_task_join_failure_maps_to_database_500 :: bool where
  "blocking_task_join_failure_maps_to_database_500 =
     (case database_operation \<lparr>ce_start = 0, ce_permit = Permit_at 0, ce_task = Panicked_at 0, ce_code = Other_code\<rparr> (from_secs 1) (\<lambda>_. Ok ()) of
        Ok _ \<Rightarrow> False
      | Err e \<Rightarrow> (let api = from_read e in status api = 500 \<and> client_message api = DATABASE_ERROR))"

lemma test_blocking_task_join_failure_maps_to_database_500: "blocking_task_join_failure_maps_to_database_500"
  by code_simp

definition service_completion_without_shutdown_is_an_error :: bool where
  "service_completion_without_shutdown_is_an_error =
     (case service_result (Ok ()) Http_service of Err (Stopped_unexpectedly Http_service) \<Rightarrow> True | _ \<Rightarrow> False)"

lemma test_service_completion_without_shutdown_is_an_error: "service_completion_without_shutdown_is_an_error"
  by code_simp

end
