(* ===== verification/Spec2Isabelle.thy ===== *)
theory Spec2Isabelle
  imports Ecs Hosts Ad_Filter Cache Hedged Pipeline Store_Worker Store_Schema Http_Api History Resolver_Chain Server Runtime
    Test_Rules Test_Stats Test_Upstream Test_Pipeline Test_Store Test_Dashboard
begin

text \<open>
  A verification development of dnsbuffer, a caching and filtering DNS proxy with a dashboard.

  \<^bold>\<open>The program.\<close> A UDP server (\<open>src/src/server.rs\<close>) starts one handler per datagram. The handler
  runs the query pipeline (\<open>pipeline.rs\<close>): custom hosts, ad filter, optimistic cache, upstream,
  SERVFAIL. The upstream is a chain: leaves for plain UDP, DNS over TLS and DNS over HTTPS
  (\<open>upstream/plain.rs\<close>, \<open>dot.rs\<close>, \<open>doh.rs\<close>, \<open>doh3.rs\<close>) inside a weighted group (\<open>group.rs\<close>,
  \<open>selector.rs\<close>, \<open>stats.rs\<close>) inside a retry engine with a time budget (\<open>hedged.rs\<close>), with an
  optional fallback group. The bootstrap resolvers (\<open>bootstrap.rs\<close>) find the addresses of the
  upstreams and of the rule files that \<open>fetch.rs\<close> downloads. The pipeline records each query
  through a bounded channel (\<open>dashboard/mod.rs\<close>); a background writer stores the events in
  SQLite (\<open>dashboard/store.rs\<close>), and the dashboard serves them over HTTP (\<open>dashboard/http.rs\<close>)
  together with the upstream statistics (\<open>dashboard/upstreams.rs\<close>) and the cache curve
  (\<open>dashboard/sampler.rs\<close>). \<open>lib.rs\<close>, \<open>dashboard/mod.rs\<close> and \<open>main.rs\<close> build and run all this from
  a configuration (\<open>config.rs\<close>).

  \<^bold>\<open>The theories\<close>, from the bottom:

  \<^item> \<open>Prelude\<close>, \<open>Rust_Str\<close>, \<open>Utf8\<close>, \<open>Ip_Addr\<close>, \<open>F64\<close>: results as sums, machine integers, the
    part of the string and address libraries the sources use, and floating-point numbers over any
    rounding of the reals (a theorem that needs a law of the rounding states it, as \<open>rounds\<close> in
    \<open>Selector\<close>; \<open>exact\<close> is an instance).
  \<^item> \<open>State_Machine\<close>: reachable states of a step relation, the locale \<open>inductive_invariant\<close> with the one
    induction that all invariants below use, and \<open>invariant_below\<close> for invariants that hold until a
    counter wraps.
  \<^item> \<open>Dns_Message\<close>: messages, the DNS library as the parameter \<open>hickory\<close> with its documented laws
    (\<open>opt_laws\<close>, \<open>edns_new_laws\<close>, \<open>codec_laws\<close>), \<open>resolver.rs\<close>, and the locale \<open>id_preserving\<close>,
    the contract of a resolver.
  \<^item> \<open>Config\<close> (\<open>config.rs\<close>), \<open>Ecs\<close> (\<open>ecs.rs\<close>), \<open>Hosts\<close> (\<open>hosts.rs\<close>) and \<open>Ad_Filter\<close>
    (\<open>filter.rs\<close>), the last two over \<open>Suffix_Walk\<close>, the locale of the walk over the suffixes of a
    name.
  \<^item> \<open>Cache\<close> (\<open>cache.rs\<close>) with its locale for stored entries, and \<open>Cache_Sampler\<close>
    (\<open>dashboard/sampler.rs\<close>).
  \<^item> \<open>Stats\<close>, \<open>Selector\<close>, \<open>Upstream_Metrics\<close>, \<open>Upstream_Group\<close> (the statistics live in an explicit
    store that group and dashboard share) and \<open>Hedged\<close>, the retry engine as a poll function with its
    step relation.
  \<^item> \<open>Recorder\<close> (the channel, with the locale \<open>event_channel\<close> of what its two ends rely on) and \<open>Pipeline\<close>:
    a handler as two functions around its wait for the upstream, and a step relation that interleaves
    any number of handlers, refreshes, rule updates and receptions of recorded events.
  \<^item> \<open>Sql_Like\<close>, \<open>Store\<close>, \<open>Store_Schema\<close>, \<open>Store_Worker\<close>: the pattern match of the search, the
    tables with insertion, clean-up and readers, opening with migration, validation and the probe
    inside a savepoint, and the background writer as a state machine with its handle.
  \<^item> \<open>Query_Params\<close> and \<open>Http_Api\<close>: parameters and replies of the dashboard interface, its reads
    with permit and time limit. \<open>History\<close>: from the rows the writer makes to the pages shown.
  \<^item> \<open>Tls\<close> (\<open>tls.rs\<close>): the client configuration over the TLS library as a parameter.
  \<^item> \<open>Transports\<close>, \<open>Doh_Transport\<close>, \<open>Bootstrap\<close>, \<open>Fetch\<close>: the leaves, each an interpretation of
    \<open>id_preserving\<close>, with their connections, requests and construction, and the download and
    periodic update of the rule files.
  \<^item> \<open>Build\<close> (\<open>lib.rs\<close>) and \<open>Resolver_Chain\<close>: the locale \<open>answering\<close>, interpreted for the
    group, the engine around it, the fallback chain and the built chain.
  \<^item> \<open>Server\<close> (\<open>server.rs\<close>) and \<open>Runtime\<close> (\<open>dashboard/mod.rs\<close>, \<open>main.rs\<close>).
  \<^item> \<open>Test_Cache\<close>, \<open>Test_Rules\<close>, \<open>Test_Stats\<close>, \<open>Test_Upstream\<close>, \<open>Test_Pipeline\<close>, \<open>Test_Store\<close> and
    \<open>Test_Dashboard\<close>: the unit tests of the repository evaluated on the definitions above. Each is a boolean with the
    name of the test and the test's assertions as conjuncts, and a lemma that it is true. Tests of sockets, of the TOML reader
    and of threads are left out, as are a few whose evaluation in the kernel takes minutes.

  Each record and operation carries the name it has in the source, or that name with a prefix
  where HOL has a constant of that name. Errors are values; each place that makes one has its
  constructor, without the message text except where a client sees it. Time is an argument:
  monotonic instants and durations are natural numbers of nanoseconds, wall-clock times are
  integers of milliseconds. What the network, the clocks, the allocator, the random generator and
  SQLite do is supplied by the environment, so the theorems hold for every behaviour.

  \<^bold>\<open>What is shown.\<close> The cache keeps its byte budget and is least-recently-used; the engine
  has only two outcomes, bounded effort, and ends; a group tries one or two distinct members
  and books every attempt with its member, once or, when a sibling had already won, not at all, in the
  cell the dashboard's entry of that member reads; the filter blocks exactly the
  covered names and a failed update never disarms it; every reply of the interleaved pipeline
  has a legitimate source and the identifier of its query; the aggregate tables agree with the
  rows; batches are atomic; every event the writer accepts is accounted for, in order: handed over,
  in hand, queued, or dropped with the queue at a stop that meets a due clean-up, and each batch
  handed over is stored whole or, when its insertion fails, not at all (\<open>worker_accounts_for_events\<close>); the
  writer stops when its channel is closed; queries, trend and log pages return exactly what is
  stored; each status of the HTTP interface is answered exactly in its case; opening creates and migrates the
  schema and accepts exactly the complete ones; a configuration loads exactly when it is valid, and
  every other one reports the error of its first defect;
  transports deliver the message the server framed, and encrypted members connect as configured, with
  the built-in roots and the encrypted hello; the construction matches the configuration, and fails
  for want of an address only at an HTTPS upstream that gives none;
  the server answers only what it received, to its sender, and at shutdown waits two seconds, cancels its
  handlers and ends once they are over; the process stops waiting for its services in time and ends
  with the right result. Two theorems below join the layers. \<open>proxy_end_to_end\<close>: every datagram
  sent by the server that was built from a configuration is allowed by that configuration.
  \<open>history_end_to_end\<close>: every record the dashboard shows is an event of a reply that was given.

  Four theorems show behaviour that does not match the code's intent: a refresh forwards a client's
  subnet option (\<open>refresh_leaks_client_subnet\<close>), the join set of the server only grows
  (\<open>join_set_grows\<close>), the writer can stop and drop the events still queued (\<open>worker_can_drop_queue\<close>), and the
  check of percent encodings accepts a sign (\<open>query_encoding_accepts_sign\<close>).

  \<^bold>\<open>Bounds.\<close> No function of the model runs on fuel; the simulated runtime of \<open>Test_Upstream\<close> has 64 wake-ups, more than
  any of its tests takes. Loops with a fixed number of rounds take that number (two
  attempts of a group and of an HTTPS request, four rounds of a download); loops over lists
  recurse on them; loops that wait for events are step relations, with a bound on the steps to
  their end proved where they must end (\<open>hedged_terminates\<close>, \<open>worker_drains_and_stops\<close>,
  \<open>server_stops\<close>, whose bound counts from the moment the cancelled handlers are over, since the code joins
  them without a limit). Generation numbers wrap at 64 bits and \<open>h3_keeps_newer_connection\<close> says so.

  \<^bold>\<open>Not modelled.\<close> The libraries: sockets, TLS, QUIC, HTTP, the wire
  format of DNS, TOML, JSON, SQLite's own execution, the logger. The browser code under
  \<open>dashboard/assets\<close>. Accessors that only return a field (\<open>cache_len\<close> of the sampler, \<open>http_addr\<close>) and
  the constructors that only rename one (\<open>Pipeline::new\<close>). Case folding and trimming are those of ASCII text. Byte counts of the cache are
  natural numbers; the budget fits 64 bits, so their sums are far from it. A log page is read from one
  state of the database, while the code runs its three statements without a transaction around them. A panic that poisons a
  lock is modelled for the statistics only. The \<open>watch\<close> channel that tells the services to stop
  is folded into what a service does after the moment of the signal.
\<close>

section \<open>The proxy as a whole\<close>

text \<open>
  What the proxy promises its clients, for a configuration: the reply to a query is the answer
  of the configured hosts, the block answer, a server failure, or what a configured upstream
  member gave to a query for the same name and type, under the identifier of the client's
  query.
\<close>

definition proxy_may_answer :: "hickory \<Rightarrow> libraries \<Rightarrow> config \<Rightarrow> message \<Rightarrow> message \<Rightarrow> bool" where
  "proxy_may_answer H L c query r \<longleftrightarrow>
     r = servfail query \<or> hosts_lookup (hosts_from_entries (hosts_section c)) query = Some r \<or> r = block_response query \<or>
     (\<exists>q m name l net. configured_member H L c name l \<and> leaf_resolve H net l q = Ok m \<and>
        key_from_query q = key_from_query query \<and> r = m\<lparr>msg_id := msg_id query\<rparr>)"

text \<open>The replies the built pipeline gives over its own upstream chain, in any interleaving.\<close>

definition pipeline_serves :: "hickory \<Rightarrow> rounding \<Rightarrow> built_pipeline \<Rightarrow> message \<Rightarrow> message \<Rightarrow> bool" where
  "pipeline_serves H rnd bp query r \<longleftrightarrow>
     (\<exists>w. pipeline_reach H rnd (bp_parts bp) (chain_answers H rnd bp) w \<and> (query, r) \<in> set (w_replies w))"

lemma built_hosts:
  "build_pipeline H L env rnd read fetch c rec = Ok bp \<Longrightarrow> pp_hosts (bp_parts bp) = hosts_from_entries (hosts_section c)"
  by (auto simp: build_pipeline_def and_then_Ok_iff Let_def split: prod.splits)

lemma same_id_update: "msg_id m = i \<Longrightarrow> m = m\<lparr>msg_id := i\<rparr>"
  by (cases m) simp

lemma pipeline_serves_sound:
  assumes built: "build_pipeline H L env rnd read fetch c rec = Ok bp" and "pipeline_serves H rnd bp query r"
  shows "msg_id r = msg_id query \<and> proxy_may_answer H L c query r"
proof -
  let ?ups = "chain_answers H rnd bp"
  obtain w where w: "pipeline_reach H rnd (bp_parts bp) ?ups w" "(query, r) \<in> set (w_replies w)"
    using assms(2) by (auto simp: pipeline_serves_def)
  have upstream: "\<exists>name l net. configured_member H L c name l \<and> leaf_resolve H net l q = Ok m" "msg_id m = msg_id q"
    if "?ups q (Ok (m, n))" for q m n
  proof -
    have "chain_origin H bp q (m, n)" using that by (rule chain_link.reply_origin)
    from chain_origin_configured [OF built this] chain_link.origin_id [OF this]
    show "\<exists>name l net. configured_member H L c name l \<and> leaf_resolve H net l q = Ok m" "msg_id m = msg_id q" by auto
  qed
  have "reply_source H (bp_parts bp) ?ups query r"
    using world_inv_reach [OF w(1)] w(2) by (auto simp: world_inv_def)
  then consider "r = servfail query" | "hosts_lookup (pp_hosts (bp_parts bp)) query = Some r" | "r = block_response query"
    | n where "?ups (prepared_query H (bp_parts bp) query) (Ok (r, n))"
    | k q m n where "key_from_query query = Some k" "?ups q (Ok (m, n))" "key_from_query q = Some k" "r = m\<lparr>msg_id := msg_id query\<rparr>"
    unfolding reply_source_def upstream_answer_def by blast
  then show ?thesis
  proof cases
    case 2
    then show ?thesis using hosts_lookup_Some [OF 2] by (simp add: proxy_may_answer_def built_hosts [OF built])
  next
    case 4
    note u = upstream [OF this]
    have "msg_id r = msg_id query" using u(2) by simp
    moreover have "\<exists>q m name l net. configured_member H L c name l \<and> leaf_resolve H net l q = Ok m \<and>
        key_from_query q = key_from_query query \<and> r = m\<lparr>msg_id := msg_id query\<rparr>"
      using u(1) same_id_update [OF calculation] key_prepared by metis
    ultimately show ?thesis by (simp add: proxy_may_answer_def)
  next
    case 5
    moreover have "key_from_query q = key_from_query query" using 5 by simp
    ultimately show ?thesis using upstream(1) [OF 5(2)] unfolding proxy_may_answer_def by (metis message.select_convs(1) message.surjective message.update_convs(1))
  qed (simp_all add: block_response_sel proxy_may_answer_def)
qed

text \<open>C1. From configuration to datagram: take the pipeline built from a configuration, with its
  groups, engines and fallback chain over any behaviour of the network, run by the UDP server under
  any interleaving of arrivals, answers, timeouts, refreshes and rule updates. Every datagram sent
  goes to the sender of a datagram received, and decodes that packet's query; its
  content encodes a reply with the query's identifier that the configuration allows: the
  configured host answer, the block answer, SERVFAIL, or an answer of one of the configured
  upstream members to a query for the same name and type.\<close>

theorem proxy_end_to_end:
  assumes "build_pipeline H L env rnd read fetch c rec = Ok bp"
    and "server_reach H (pipeline_serves H rnd bp) s" and "(bytes, peer) \<in> set (ud_sent s)"
  shows "\<exists>data query r. (data, peer) \<in> set (ud_received s) \<and> from_vec H data = Some query \<and> to_vec H r = Some bytes \<and>
    msg_id r = msg_id query \<and> proxy_may_answer H L c query r"
proof -
  from server_inv_reach [OF assms(2)] obtain answered where
    a: "list_all2 (answers_packet H (pipeline_serves H rnd bp)) answered (ud_sent s)"
    and sub: "mset answered + mset (open_packets s) \<subseteq># mset (ud_received s)" by (auto simp: server_inv_def)
  obtain i where i: "i < length (ud_sent s)" "ud_sent s ! i = (bytes, peer)" using assms(3) by (auto simp: in_set_conv_nth)
  define p where "p = answered ! i"
  have p: "p \<in> set answered" "answers_packet H (pipeline_serves H rnd bp) p (bytes, peer)"
    using a i by (auto simp: p_def list_all2_conv_all_nth)
  obtain data where data: "p = (data, peer)" using p(2) by (cases p) (simp add: answers_packet_def)
  have "set answered \<subseteq> set (ud_received s)"
    using sub by (metis mset_subset_eq_add_left set_mset_mono set_mset_mset subset_mset.order_trans)
  then have "(data, peer) \<in> set (ud_received s)" using p(1) data by blast
  moreover obtain query r where "from_vec H data = Some query" "pipeline_serves H rnd bp query r" "to_vec H r = Some bytes"
    using p(2) data by (auto simp: answers_packet_def)
  ultimately show ?thesis using pipeline_serves_sound [OF assms(1)] by blast
qed

theorem proxy_end_to_end_witness:
  "\<exists>bp query r. build_pipeline echo_hickory sample_libraries (bt_network sample_boot) exact (bt_files sample_boot) (bt_fetch sample_boot)
      plain_config (recorder_channel WORKER_CAPACITY) = Ok bp \<and>
    server_reach echo_hickory (pipeline_serves echo_hickory exact bp) echo_server \<and>
    from_vec echo_hickory [7] = Some query \<and> to_vec echo_hickory r = Some [7] \<and>
    proxy_may_answer echo_hickory sample_libraries plain_config query r"
proof -
  obtain bp where bp: "build_pipeline echo_hickory sample_libraries (bt_network sample_boot) exact (bt_files sample_boot)
      (bt_fetch sample_boot) plain_config (recorder_channel WORKER_CAPACITY) = Ok bp"
    using build_pipeline_plain [OF plain_config_valid plain_config_plain, of echo_hickory sample_libraries "bt_network sample_boot" exact
      "bt_files sample_boot" "bt_fetch sample_boot" "recorder_channel WORKER_CAPACITY"] by (auto simp: is_ok_iff)
  let ?q = "message_new 7 Query_type 0"
  have start: "handle_start echo_hickory exact (bp_parts bp) ck ?q st = (Replied_now (servfail ?q), None, st)" for ck st
    by (simp add: handle_start_def)
  have "pipeline_serves echo_hickory exact bp ?q (servfail ?q)" unfolding pipeline_serves_def
    by (rule exI, rule conjI, rule pipeline_more [OF pipeline_start [of "recorder_channel 1"] pipeline_step.reply [OF start]])
      (simp_all add: recorder_channel_def)
  note reach = echo_server_reach [of "pipeline_serves echo_hickory exact bp", OF this]
  have "([7], default_dashboard_listen) \<in> set (ud_sent echo_server)" by (simp add: echo_server_def)
  from proxy_end_to_end [OF bp reach this] obtain data query r where
    "(data, default_dashboard_listen) \<in> set (ud_received echo_server)" "from_vec echo_hickory data = Some query"
    "to_vec echo_hickory r = Some [7]" "proxy_may_answer echo_hickory sample_libraries plain_config query r" by blast
  moreover from this(1) have "data = [7]" by (simp add: echo_server_def)
  ultimately show ?thesis using bp reach by blast
qed

section \<open>The query history as a whole\<close>

text \<open>C2. From query to dashboard: let the history writer start on a new database and take its events from
  the pipeline's channel, under any interleaving of queries, answers, refreshes, batches, clean-ups
  and failures. Every record of every page the dashboard then serves shows, field by field, one
  event that the pipeline recorded for one reply it had given: no reply is shown twice, and the
  records are in the order of their times, newest first.\<close>

theorem history_end_to_end:
  assumes "pipeline_reach H rnd p ups w" and "worker_reach midnight days iv r"
    and "w_taken w = concat (run_written r) @ in_hand (wk_phase (run_worker r))"
    and "run_initial r = empty_database" and "calendar_laws midnight" and "hs_store st = wk_db (run_worker r)"
    and "serve_endpoint env Queries_route q st = (200, Page_body page)"
  shows "\<exists>replies es. mset replies \<subseteq># mset (w_replies w) \<and> list_all2 (describes H) replies es \<and>
    sorted_wrt (\<lambda>a b. timestamp_ms b \<le> timestamp_ms a) es \<and> list_all2 (event_reported (he_rfc3339 env)) es (pd_records page)"
proof -
  obtain es where es: "mset es \<subseteq># mset (concat (run_written r))" "sorted_wrt (\<lambda>a b. timestamp_ms b \<le> timestamp_ms a) es"
      "list_all2 (event_reported (he_rfc3339 env)) es (pd_records page)"
    using history_shown [OF assms(5,2,4,6,7)] by blast
  obtain xs where xs: "mset xs \<subseteq># mset (w_replies w)" "list_all2 (describes H) xs (w_taken w @ rec_queue (pl_recorder (w_state w)))"
    using recorded_inv_reach [OF assms(1)] unfolding recorded_inv_def by blast
  have "mset es \<subseteq># mset (w_taken w @ rec_queue (pl_recorder (w_state w)))"
    unfolding assms(3) append_assoc mset_append using es(1) by (rule subset_mset.add_increasing2 [rotated]) simp
  from list_all2_submset [OF xs(2) this] xs(1) es(2,3) show ?thesis using subset_mset.trans by blast
qed

theorem history_end_to_end_witness:
  "\<exists>w r page d e. pipeline_reach sample_hickory exact sample_parts sample_ups w \<and> worker_reach utc_midnight 0 10 r \<and>
     serve_endpoint sample_http_env Queries_route (Some []) (sample_http_state\<lparr>hs_store := wk_db (run_worker r)\<rparr>) = (200, Page_body page) \<and>
     pd_records page = [d] \<and> event_reported (he_rfc3339 sample_http_env) e d \<and> (\<exists>x \<in> set (w_replies w). describes sample_hickory x e)"
proof -
  obtain w e where w: "pipeline_reach sample_hickory exact sample_parts sample_ups w" "w_taken w = [e]" "duration_ms e = 0"
    using sample_reach_taken by blast
  then obtain r page d where r: "worker_reach utc_midnight 0 10 r" "run_initial r = empty_database" "run_written r = [[e]]"
      "wk_phase (run_worker r) = Idle" "pd_records page = [d]"
      "serve_endpoint sample_http_env Queries_route (Some []) (sample_http_state\<lparr>hs_store := wk_db (run_worker r)\<rparr>) = (200, Page_body page)"
    using stored_page [of e] by (auto simp: in_i64_def i64_min_def i64_max_def)
  have "w_taken w = concat (run_written r) @ in_hand (wk_phase (run_worker r))" using w(2) r(3,4) by simp
  from history_end_to_end [OF w(1) r(1) this r(2) utc_midnight_laws _ r(6)] obtain xs es where
    "mset xs \<subseteq># mset (w_replies w)" "list_all2 (describes sample_hickory) xs es" "list_all2 (event_reported (he_rfc3339 sample_http_env)) es [d]"
    using r(5) by auto
  then obtain x e' where "set [x] \<subseteq> set (w_replies w)" "describes sample_hickory x e'" "event_reported (he_rfc3339 sample_http_env) e' d"
    by (auto simp: list_all2_Cons2 dest: mset_subset_eqD)
  with w(1) r show ?thesis by (intro exI [of _ w] exI [of _ r] exI [of _ page] exI [of _ d] exI [of _ e']) auto
qed

end
